(* ===== verification/Prelude.thy ===== *)
theory Prelude
  imports Main "HOL-Library.Word" "HOL-Library.Code_Target_Nat"
begin

text \<open>
  Shared vocabulary of the development: the machine integers of the Rust sources as words,
  the \<open>Result\<close> type and its \<open>?\<close> operator as a sum with \<open>and_then\<close>, the checked and
  saturating arithmetic of the standard library, the little- and big-endian byte
  conversions, and the lexicographic order of byte slices.  Three collections carry the
  component proofs: \<open>result_simps\<close> (unfolding of \<open>Result\<close> chains), \<open>unat_simps\<close> (the
  meaning of the arithmetic operators on naturals) and \<open>bytes_simps\<close> (byte conversions).
\<close>

named_theorems result_simps "unfolding of Result chains"
named_theorems unat_simps "machine arithmetic read on naturals"
named_theorems bytes_simps "byte conversions"

subsection \<open>Machine integers and bytes\<close>

type_synonym u8 = "8 word"
type_synonym u16 = "16 word"
type_synonym u32 = "32 word"
type_synonym u64 = "64 word"
type_synonym u128 = "128 word"
type_synonym bytes = "u8 list"

text \<open>\<open>usize\<close> is 64 bits wide on every supported target; sizes are naturals below this bound.\<close>

definition usize_max :: nat where
  "usize_max = 2 ^ 64 - 1"

definition sat_add :: "'a::len word \<Rightarrow> 'a word \<Rightarrow> 'a word" where
  "sat_add a b = (if unat a + unat b < 2 ^ LENGTH('a) then a + b else - 1)"

definition sat_sub :: "'a::len word \<Rightarrow> 'a word \<Rightarrow> 'a word" where
  "sat_sub a b = (if b \<le> a then a - b else 0)"

definition sat_mul :: "'a::len word \<Rightarrow> 'a word \<Rightarrow> 'a word" where
  "sat_mul a b = (if unat a * unat b < 2 ^ LENGTH('a) then a * b else - 1)"

definition checked_add :: "'a::len word \<Rightarrow> 'a word \<Rightarrow> 'a word option" where
  "checked_add a b = (if unat a + unat b < 2 ^ LENGTH('a) then Some (a + b) else None)"

definition checked_sub :: "'a::len word \<Rightarrow> 'a word \<Rightarrow> 'a word option" where
  "checked_sub a b = (if b \<le> a then Some (a - b) else None)"

text \<open>The same operations on \<open>usize\<close> values, which the model keeps as naturals.\<close>

definition usize_sat_add :: "nat \<Rightarrow> nat \<Rightarrow> nat" where
  "usize_sat_add a b = min (a + b) usize_max"

definition usize_sat_mul :: "nat \<Rightarrow> nat \<Rightarrow> nat" where
  "usize_sat_mul a b = min (a * b) usize_max"

definition usize_checked_add :: "nat \<Rightarrow> nat \<Rightarrow> nat option" where
  "usize_checked_add a b = (if a + b \<le> usize_max then Some (a + b) else None)"

definition usize_checked_mul :: "nat \<Rightarrow> nat \<Rightarrow> nat option" where
  "usize_checked_mul a b = (if a * b \<le> usize_max then Some (a * b) else None)"

subsection \<open>The Result type\<close>

text \<open>
  \<open>and_then\<close> is the \<open>?\<close> operator: the first error ends the computation.
  \<open>ok_or\<close> turns a missing value into an error.
\<close>

fun and_then :: "'e + 'a \<Rightarrow> ('a \<Rightarrow> 'e + 'b) \<Rightarrow> 'e + 'b" where
  "and_then (Inl e) f = Inl e"
| "and_then (Inr x) f = f x"

definition ok_or :: "'a option \<Rightarrow> 'e \<Rightarrow> 'e + 'a" where
  "ok_or m e = (case m of None \<Rightarrow> Inl e | Some x \<Rightarrow> Inr x)"

definition ensure :: "bool \<Rightarrow> 'e \<Rightarrow> 'e + unit" where
  "ensure b e = (if b then Inr () else Inl e)"

text \<open>A loop over a list that threads a state and stops at the first error.\<close>

fun fold_res :: "('a \<Rightarrow> 's \<Rightarrow> 'e + 's) \<Rightarrow> 'a list \<Rightarrow> 's \<Rightarrow> 'e + 's" where
  "fold_res f [] s = Inr s"
| "fold_res f (x # xs) s = and_then (f x s) (fold_res f xs)"

text \<open>Bounds-checked indexing, \<open>slice.get(i)\<close>.\<close>

definition get :: "'a list \<Rightarrow> nat \<Rightarrow> 'a option" where
  "get xs i = (if i < length xs then Some (xs ! i) else None)"

text \<open>
  The binary search of the standard library's slices, \<open>binary_search_by_key\<close>: the loop halves a
  window until one candidate is left.  Only the position of a match is kept of the result.
\<close>

function bsearch_loop :: "('a \<Rightarrow> 'k::linorder) \<Rightarrow> 'a list \<Rightarrow> 'k \<Rightarrow> nat \<Rightarrow> nat \<Rightarrow> nat" where
  "bsearch_loop key xs k base n =
     (if 1 < n then
        let half = n div 2; mid = base + half
        in bsearch_loop key xs k (if key (xs ! mid) > k then base else mid) (n - half)
      else base)"
  by pat_completeness auto
termination
  by (relation "measure (\<lambda>(key, xs, k, base, n). n)") auto

declare bsearch_loop.simps [simp del]

definition binary_search_by_key :: "('a \<Rightarrow> 'k::linorder) \<Rightarrow> 'a list \<Rightarrow> 'k \<Rightarrow> nat option" where
  "binary_search_by_key key xs k =
     (if xs = [] then None
      else let base = bsearch_loop key xs k 0 (length xs)
           in if key (xs ! base) = k then Some base else None)"

subsection \<open>Byte conversions\<close>

fun nat_to_le :: "nat \<Rightarrow> nat \<Rightarrow> bytes" where
  "nat_to_le 0 n = []"
| "nat_to_le (Suc k) n = word_of_nat (n mod 256) # nat_to_le k (n div 256)"

fun le_val :: "bytes \<Rightarrow> nat" where
  "le_val [] = 0"
| "le_val (b # bs) = unat b + 256 * le_val bs"

fun be_val :: "bytes \<Rightarrow> nat" where
  "be_val [] = 0"
| "be_val (b # bs) = unat b * 256 ^ length bs + be_val bs"

definition to_le_bytes :: "'a::len word \<Rightarrow> bytes" where
  "to_le_bytes w = nat_to_le (LENGTH('a) div 8) (unat w)"

definition from_le_bytes :: "bytes \<Rightarrow> 'a::len word" where
  "from_le_bytes bs = word_of_nat (le_val bs)"

definition to_be_bytes :: "'a::len word \<Rightarrow> bytes" where
  "to_be_bytes w = rev (to_le_bytes w)"

definition from_be_bytes :: "bytes \<Rightarrow> 'a::len word" where
  "from_be_bytes bs = word_of_nat (be_val bs)"

text \<open>The lexicographic order of slices and arrays of bytes.\<close>

fun bytes_le :: "bytes \<Rightarrow> bytes \<Rightarrow> bool" where
  "bytes_le [] ys = True"
| "bytes_le (x # xs) [] = False"
| "bytes_le (x # xs) (y # ys) = (x < y \<or> (x = y \<and> bytes_le xs ys))"

text \<open>The decimal digits that \<^verbatim>\<open>format!\<close> prints for an unsigned number.\<close>

fun decimal :: "nat \<Rightarrow> string" where
  "decimal n = (if n < 10 then [char_of (48 + n)] else decimal (n div 10) @ [char_of (48 + n mod 10)])"

declare decimal.simps [simp del]

subsection \<open>Laws of the arithmetic\<close>

lemma unat_lt2p: "unat (w :: 'a::len word) < 2 ^ LENGTH('a)"
  by (fact unsigned_less)

lemma unat_less_256 [simp]: "unat (b :: u8) < 256"
  using unat_lt2p [of b] by simp

lemma unat_le_255: "unat (b :: u8) \<le> 255"
  using unat_less_256 [of b] by linarith

lemma unat_less_2_32: "unat (w :: u32) < 4294967296"
  using unat_lt2p [of w] by simp

lemma unat_less_2_64: "unat (w :: u64) < 18446744073709551616"
  using unat_lt2p [of w] by simp

lemma unat_ucast_fits:
  "unat (w :: 'b::len word) < 2 ^ LENGTH('a::len) \<Longrightarrow> unat (ucast w :: 'a word) = unat w"
  by (simp only: unsigned_ucast_eq take_bit_nat_eq_self)

lemma unat_ucast_up:
  "LENGTH('a::len) \<le> LENGTH('b::len) \<Longrightarrow> unat (ucast (w :: 'a word) :: 'b word) = unat w"
  by (intro unat_ucast_fits order.strict_trans2 [OF unat_lt2p [of w]] power_increasing) simp_all

lemma ucast_ucast_fits:
  "unat (w :: 'b::len word) < 2 ^ LENGTH('a::len) \<Longrightarrow> LENGTH('a) \<le> LENGTH('b) \<Longrightarrow>
    ucast (ucast w :: 'a word) = w"
  by (simp only: word_unat_eq_iff unat_ucast_up unat_ucast_fits)

lemma ucast_ucast_up:
  "LENGTH('a::len) \<le> LENGTH('b::len) \<Longrightarrow> ucast (ucast (w :: 'a word) :: 'b word) = w"
  by (simp only: word_unat_eq_iff unat_ucast_fits [of "ucast w"] unat_ucast_up unat_lt2p)

lemma unat_ucast_u8 [unat_simps]: "unat (ucast (w :: 'a::len word) :: u8) = unat w mod 256"
  by (simp add: unsigned_ucast_eq take_bit_eq_mod del: unsigned_take_bit_eq)

lemma unat_drop_bit [unat_simps]: "unat (drop_bit n (w :: 'a::len word)) = unat w div 2 ^ n"
  by (simp only: unsigned_drop_bit_eq) (simp add: drop_bit_eq_div take_bit_nat_eq_self)

lemma unat_add_fits: "unat a + unat b < 2 ^ LENGTH('a) \<Longrightarrow> unat (a + b) = unat a + unat b"
  for a b :: "'a::len word"
  by (simp add: unat_word_ariths)

lemma unat_mult_fits: "unat a * unat b < 2 ^ LENGTH('a) \<Longrightarrow> unat (a * b) = unat a * unat b"
  for a b :: "'a::len word"
  by (simp add: unat_word_ariths)

lemma unat_minus_one_word: "unat (- 1 :: 'a::len word) = 2 ^ LENGTH('a) - 1"
  by (simp add: unsigned_minus_1_eq_mask mask_eq_exp_minus_1)

lemma unat_sat_add [unat_simps]:
  "unat (sat_add a b) = min (unat a + unat b) (2 ^ LENGTH('a) - 1)"
  for a b :: "'a::len word"
  unfolding sat_add_def
  by (auto simp: unat_word_ariths unat_minus_one_word min_def)

lemma unat_sat_sub [unat_simps]: "unat (sat_sub a b) = unat a - unat b"
  for a b :: "'a::len word"
  by (auto simp: sat_sub_def unat_sub word_le_nat_alt)

lemma unat_sat_mul [unat_simps]:
  "unat (sat_mul a b) = min (unat a * unat b) (2 ^ LENGTH('a) - 1)"
  for a b :: "'a::len word"
  using less_eq_Suc_le [of "2 ^ LENGTH('a) - 1" "unat a * unat b"]
  by (auto simp: sat_mul_def unat_word_ariths unat_minus_one_word min_def not_less)

lemma checked_add_SomeD [dest]:
  "checked_add a b = Some c \<Longrightarrow> unat c = unat a + unat b"
  for a b c :: "'a::len word"
  by (auto simp: checked_add_def unat_word_ariths split: if_splits)

lemma checked_add_eq_None: "checked_add a b = None \<longleftrightarrow> 2 ^ LENGTH('a) \<le> unat a + unat b"
  for a b :: "'a::len word"
  by (auto simp: checked_add_def)

lemma checked_sub_SomeD [dest]:
  "checked_sub a b = Some c \<Longrightarrow> unat b \<le> unat a \<and> unat c = unat a - unat b"
  for a b c :: "'a::len word"
  by (auto simp: checked_sub_def unat_sub word_le_nat_alt split: if_splits)

lemma sat_add_mono: "a \<le> a' \<Longrightarrow> sat_add a b \<le> sat_add a' b"
  for a a' b :: "'a::len word"
  by (simp add: word_le_nat_alt unat_sat_add)

lemma sat_add_ge: "a \<le> sat_add a b"
  for a b :: "'a::len word"
proof -
  have "unat a \<le> 2 ^ LENGTH('a) - 1"
    using unat_lt2p [of a] by linarith
  then show ?thesis by (simp add: word_le_nat_alt unat_sat_add)
qed

lemma sat_add_le_sat_add: "sat_add a b \<le> sat_add (sat_add a b) c"
  for a b c :: "'a::len word"
  by (rule sat_add_ge)

subsection \<open>Laws of Result chains\<close>

declare and_then.simps [result_simps]

lemma and_then_eq_Inr [result_simps]:
  "and_then m f = Inr y \<longleftrightarrow> (\<exists>x. m = Inr x \<and> f x = Inr y)"
  by (cases m) auto

lemma and_then_eq_Inl: "and_then m f = Inl e \<longleftrightarrow> m = Inl e \<or> (\<exists>x. m = Inr x \<and> f x = Inl e)"
  by (cases m) auto

lemma and_then_cong [fundef_cong]:
  "m = m' \<Longrightarrow> (\<And>x. m' = Inr x \<Longrightarrow> f x = f' x) \<Longrightarrow> and_then m f = and_then m' f'"
  by (cases m') auto

lemma and_then_assoc: "and_then (and_then m f) g = and_then m (\<lambda>x. and_then (f x) g)"
  by (cases m) auto

lemma map_sum_eq_Inr [result_simps]:
  "map_sum f g m = Inr y \<longleftrightarrow> (\<exists>x. m = Inr x \<and> y = g x)"
  by (cases m) auto

lemma ok_or_eq_Inr [simp, result_simps]: "ok_or m e = Inr x \<longleftrightarrow> m = Some x"
  by (auto simp: ok_or_def split: option.splits)

lemma ok_or_eq_Inl [simp, result_simps]: "ok_or m e = Inl e' \<longleftrightarrow> m = None \<and> e' = e"
  by (auto simp: ok_or_def split: option.splits)

lemma ok_or_simps [simp]: "ok_or None e = Inl e" "ok_or (Some x) e = Inr x"
  by (simp_all add: ok_or_def)

lemma ensure_eq_Inr [simp, result_simps]: "ensure b e = Inr u \<longleftrightarrow> b"
  by (simp add: ensure_def)

lemma ensure_eq_Inl [simp, result_simps]: "ensure b e = Inl e' \<longleftrightarrow> \<not> b \<and> e' = e"
  by (auto simp: ensure_def)

lemma ensure_simps [simp]: "ensure True e = Inr ()" "ensure False e = Inl e"
  by (simp_all add: ensure_def)

lemma fold_res_append:
  "fold_res f (xs @ ys) s = and_then (fold_res f xs s) (fold_res f ys)"
  by (induction xs arbitrary: s) (simp_all add: and_then_assoc cong: and_then_cong)

lemma fold_res_invariant:
  assumes "fold_res f xs s = Inr s'" and "P s"
    and "\<And>x s s'. x \<in> set xs \<Longrightarrow> P s \<Longrightarrow> f x s = Inr s' \<Longrightarrow> P s'"
  shows "P s'"
  using assms by (induction xs arbitrary: s) (auto simp: and_then_eq_Inr)

lemma get_eq_Some [simp]: "get xs i = Some x \<longleftrightarrow> i < length xs \<and> xs ! i = x"
  by (auto simp: get_def)

lemma get_eq_None [simp]: "get xs i = None \<longleftrightarrow> length xs \<le> i"
  by (auto simp: get_def)

subsection \<open>Laws of the byte conversions\<close>

lemma length_nat_to_le [simp]: "length (nat_to_le k n) = k"
  by (induction k arbitrary: n) auto

lemma le_val_append: "le_val (xs @ ys) = le_val xs + 256 ^ length xs * le_val ys"
  by (induction xs) (auto simp: algebra_simps)

lemma le_val_nat_to_le [bytes_simps]: "le_val (nat_to_le k n) = n mod 256 ^ k"
proof (induction k arbitrary: n)
  case (Suc k)
  have "n mod 256 ^ Suc k = n mod 256 + 256 * (n div 256 mod 256 ^ k)"
    by (simp add: mod_mult2_eq)
  with Suc show ?case
    by (simp add: unat_of_nat)
qed simp

lemma nat_to_le_le_val [bytes_simps]: "nat_to_le (length bs) (le_val bs) = bs"
proof (induction bs)
  case (Cons b bs)
  have "(unat b + 256 * le_val bs) mod 256 = unat b"
    and "(unat b + 256 * le_val bs) div 256 = le_val bs"
    using unat_less_256 [of b] by (simp_all add: div_mult_self4)
  with Cons show ?case by simp
qed simp

lemma le_val_less: "le_val bs < 256 ^ length bs"
proof (induction bs)
  case (Cons b bs)
  then have step: "256 * (le_val bs + 1) \<le> 256 * 256 ^ length bs"
    by (intro mult_left_mono) auto
  have "unat b + 256 * le_val bs < 256 * (le_val bs + 1)"
    by (simp add: algebra_simps)
  also note step
  finally show ?case by simp
qed simp

lemma be_val_rev: "be_val (rev bs) = le_val bs"
proof -
  have app: "be_val (xs @ [b]) = be_val xs * 256 + unat b" for xs and b :: u8
    by (induction xs) (auto simp: algebra_simps)
  show ?thesis by (induction bs) (auto simp: app)
qed

lemma be_val_eq_le_val: "be_val bs = le_val (rev bs)"
  using be_val_rev [of "rev bs"] by simp

lemma be_val_append: "be_val (xs @ ys) = be_val xs * 256 ^ length ys + be_val ys"
  by (induction xs) (auto simp: algebra_simps power_add)

lemma be_val_less: "be_val bs < 256 ^ length bs"
  using le_val_less [of "rev bs"] by (simp add: be_val_eq_le_val)

lemma be_val_inj: "length xs = length ys \<Longrightarrow> be_val xs = be_val ys \<Longrightarrow> xs = ys"
  using nat_to_le_le_val [of "rev xs"] nat_to_le_le_val [of "rev ys"]
  by (simp add: be_val_eq_le_val)

lemma be_val_replicate_0 [simp]: "be_val (replicate n 0) = 0"
  by (induction n) auto

lemma be_val_eq_0_iff: "be_val bs = 0 \<longleftrightarrow> (\<forall>b \<in> set bs. b = 0)"
  by (induction bs) (auto simp: unat_eq_zero)

lemma bytes_le_iff_be_val:
  "length xs = length ys \<Longrightarrow> bytes_le xs ys \<longleftrightarrow> be_val xs \<le> be_val ys"
proof (induction xs ys rule: list_induct2)
  case (Cons x xs y ys)
  have bx: "be_val xs < 256 ^ length ys" and "by": "be_val ys < 256 ^ length ys"
    using be_val_less [of xs] be_val_less [of ys] Cons.hyps by simp_all
  consider "unat x < unat y" | "unat x = unat y" | "unat y < unat x" by linarith
  then show ?case
  proof cases
    case 1
    then have "(unat x + 1) * 256 ^ length ys \<le> unat y * 256 ^ length ys"
      by (intro mult_right_mono) auto
    with 1 bx Cons.hyps show ?thesis
      by (simp add: word_less_nat_alt algebra_simps)
  next
    case 2
    then have "x = y" by (simp add: word_unat_eq_iff)
    with Cons show ?thesis by simp
  next
    case 3
    then have "(unat y + 1) * 256 ^ length ys \<le> unat x * 256 ^ length ys"
      by (intro mult_right_mono) auto
    with 3 "by" Cons.hyps show ?thesis
      by (auto simp: word_less_nat_alt algebra_simps)
  qed
qed simp

lemma length_to_le_bytes [simp]: "length (to_le_bytes (w :: 'a::len word)) = LENGTH('a) div 8"
  by (simp add: to_le_bytes_def)

lemma length_to_be_bytes [simp]: "length (to_be_bytes (w :: 'a::len word)) = LENGTH('a) div 8"
  by (simp add: to_be_bytes_def)

lemma power_256_bits: "(256 :: nat) ^ k = 2 ^ (8 * k)"
  by (simp add: power_mult)

lemma from_le_to_le_bytes [bytes_simps]:
  assumes "8 dvd LENGTH('a::len)"
  shows "from_le_bytes (to_le_bytes w) = (w :: 'a word)"
  using assms
  by (simp add: from_le_bytes_def to_le_bytes_def le_val_nat_to_le power_256_bits)

lemma to_le_from_le_bytes [bytes_simps]:
  assumes "8 * length bs = LENGTH('a::len)"
  shows "to_le_bytes (from_le_bytes bs :: 'a word) = bs"
proof -
  have "le_val bs < 2 ^ LENGTH('a)"
    using le_val_less [of bs] by (simp add: assms [symmetric] power_256_bits)
  moreover have "LENGTH('a) div 8 = length bs"
    by (simp add: assms [symmetric])
  ultimately show ?thesis
    by (simp add: from_le_bytes_def to_le_bytes_def unat_of_nat nat_to_le_le_val)
qed

lemma le_val_to_le_bytes [bytes_simps]:
  assumes "8 dvd LENGTH('a::len)"
  shows "le_val (to_le_bytes (w :: 'a word)) = unat w"
  using assms unat_lt2p [of w]
  by (simp add: to_le_bytes_def le_val_nat_to_le power_256_bits)

lemma be_val_to_be_bytes [bytes_simps]:
  assumes "8 dvd LENGTH('a::len)"
  shows "be_val (to_be_bytes (w :: 'a word)) = unat w"
  using assms by (simp add: to_be_bytes_def be_val_rev le_val_to_le_bytes)

subsection \<open>Binary search\<close>

lemma bsearch_loop_bound:
  "0 < n \<Longrightarrow> bsearch_loop key xs k base n < base + n"
proof (induction key xs k base n rule: bsearch_loop.induct)
  case (1 key xs k base n)
  show ?case
  proof (cases "1 < n")
    case True
    with "1.IH" [OF True refl refl] show ?thesis
      by (subst bsearch_loop.simps) (auto simp: Let_def split: if_splits)
  qed (use "1.prems" in \<open>simp add: bsearch_loop.simps\<close>)
qed

lemma bsearch_loop_finds:
  assumes "sorted_wrt (\<lambda>x y. key x < key y) xs" and "base \<le> i" and "i < base + n"
    and "base + n \<le> length xs"
  shows "bsearch_loop key xs (key (xs ! i)) base n = i"
  using assms
proof (induction key xs "key (xs ! i)" base n rule: bsearch_loop.induct)
  case (1 key xs base n)
  show ?case
  proof (cases "1 < n")
    case True
    let ?mid = "base + n div 2"
    have mid: "?mid < length xs" "?mid < base + n" using True "1.prems" by auto
    have "key (xs ! i) < key (xs ! ?mid) \<longleftrightarrow> i < ?mid"
      using sorted_wrt_nth_less [OF "1.prems"(1), of i ?mid]
        sorted_wrt_nth_less [OF "1.prems"(1), of ?mid i] "1.prems" mid
      by (cases i ?mid rule: linorder_cases) auto
    with True "1.prems" mid "1.hyps" [OF True refl refl] show ?thesis
      by (subst bsearch_loop.simps) (auto simp: Let_def)
  next
    case False
    with "1.prems" show ?thesis by (subst bsearch_loop.simps) auto
  qed
qed

lemma binary_search_by_key_iff:
  assumes "sorted_wrt (\<lambda>x y. key x < key y) xs"
  shows "binary_search_by_key key xs k = Some i \<longleftrightarrow> i < length xs \<and> key (xs ! i) = k"
  using bsearch_loop_bound [of "length xs" key xs k 0] bsearch_loop_finds [OF assms, of 0 i "length xs"]
  by (auto simp: binary_search_by_key_def Let_def)

end
