(* ===== verification/Codec.thy ===== *)
theory Codec
  imports Prelude
begin

text \<open>
  The byte reader and writer of \<^verbatim>\<open>crates/hns-primitives/src/lib.rs\<close>.  A \<open>Reader\<close> is a
  record of the slice and the offset; every read returns the value and the moved reader or
  a \<open>PrimitiveError\<close>.  A \<open>Writer\<close> only ever appends, so a write is modelled by the bytes it
  appends and a sequence of writes by \<open>@\<close>.

  The interface between the reader and the structures above it is the locale \<open>codec\<close>: a
  read and a write that invert each other in both directions.  Inside it a read is shown to
  be unambiguous and the contract is lifted to counted repetition; the integers, the fixed
  arrays, the variable-length integer and the length-prefixed bytes are its instances.
\<close>

datatype primitive_error =
    LimitExceeded string nat nat
  | InvalidLength string nat nat
  | UnexpectedEof nat nat
  | TrailingBytes nat
  | NonCanonicalVarint
  | IntegerOverflow
  | InvalidAddress string
  | InvalidResource string
  | InvalidName
  | PreparedTransactionIdsMismatch

record reader =
  rd_bytes :: bytes
  rd_offset :: nat

definition reader_new :: "bytes \<Rightarrow> nat \<Rightarrow> primitive_error + reader" where
  "reader_new bs max_len =
     (if length bs > max_len then Inl (LimitExceeded ''reader length'' max_len (length bs))
      else Inr \<lparr>rd_bytes = bs, rd_offset = 0\<rparr>)"

definition remaining :: "reader \<Rightarrow> nat" where
  "remaining r = length (rd_bytes r) - rd_offset r"

definition ensure_finished :: "reader \<Rightarrow> primitive_error + unit" where
  "ensure_finished r = (if remaining r = 0 then Inr () else Inl (TrailingBytes (remaining r)))"

definition read_exact :: "nat \<Rightarrow> reader \<Rightarrow> primitive_error + bytes \<times> reader" where
  "read_exact len r =
     and_then (ok_or (usize_checked_add (rd_offset r) len) IntegerOverflow) (\<lambda>end_offset.
     if end_offset \<le> length (rd_bytes r)
     then Inr (take len (drop (rd_offset r) (rd_bytes r)), r\<lparr>rd_offset := end_offset\<rparr>)
     else Inl (UnexpectedEof len (remaining r)))"

definition read_array :: "nat \<Rightarrow> reader \<Rightarrow> primitive_error + bytes \<times> reader" where
  "read_array n r = read_exact n r"

definition read_vec :: "nat \<Rightarrow> reader \<Rightarrow> primitive_error + bytes \<times> reader" where
  "read_vec n r = read_exact n r"

definition read_u8 :: "reader \<Rightarrow> primitive_error + u8 \<times> reader" where
  "read_u8 r = and_then (read_exact 1 r) (\<lambda>(bs, r). Inr (bs ! 0, r))"

definition read_u16 :: "reader \<Rightarrow> primitive_error + u16 \<times> reader" where
  "read_u16 r = and_then (read_array 2 r) (\<lambda>(bs, r). Inr (from_le_bytes bs, r))"

definition read_u16_be :: "reader \<Rightarrow> primitive_error + u16 \<times> reader" where
  "read_u16_be r = and_then (read_array 2 r) (\<lambda>(bs, r). Inr (from_be_bytes bs, r))"

definition read_u32 :: "reader \<Rightarrow> primitive_error + u32 \<times> reader" where
  "read_u32 r = and_then (read_array 4 r) (\<lambda>(bs, r). Inr (from_le_bytes bs, r))"

definition read_u32_be :: "reader \<Rightarrow> primitive_error + u32 \<times> reader" where
  "read_u32_be r = and_then (read_array 4 r) (\<lambda>(bs, r). Inr (from_be_bytes bs, r))"

definition read_u64 :: "reader \<Rightarrow> primitive_error + u64 \<times> reader" where
  "read_u64 r = and_then (read_array 8 r) (\<lambda>(bs, r). Inr (from_le_bytes bs, r))"

definition read_hash :: "reader \<Rightarrow> primitive_error + bytes \<times> reader" where
  "read_hash r = read_array 32 r"

definition nonce_size :: nat where
  "nonce_size = 24"

definition read_nonce :: "reader \<Rightarrow> primitive_error + bytes \<times> reader" where
  "read_nonce r = read_array nonce_size r"

definition read_varint :: "reader \<Rightarrow> primitive_error + u64 \<times> reader" where
  "read_varint r =
     and_then (read_u8 r) (\<lambda>(pfx, r).
     if pfx \<le> 0xfc then Inr (ucast pfx, r)
     else if pfx = 0xfd then
       and_then (read_u16 r) (\<lambda>(v, r).
         if (ucast v :: u64) < 0xfd then Inl NonCanonicalVarint else Inr (ucast v, r))
     else if pfx = 0xfe then
       and_then (read_u32 r) (\<lambda>(v, r).
         if (ucast v :: u64) \<le> 0xffff then Inl NonCanonicalVarint else Inr (ucast v, r))
     else
       and_then (read_u64 r) (\<lambda>(v, r).
         if v \<le> 0xffffffff then Inl NonCanonicalVarint else Inr (v, r)))"

definition read_varint_usize :: "string \<Rightarrow> reader \<Rightarrow> primitive_error + nat \<times> reader" where
  "read_varint_usize ctx r =
     and_then (read_varint r) (\<lambda>(v, r).
     if unat v \<le> usize_max then Inr (unat v, r)
     else Inl (LimitExceeded ctx usize_max usize_max))"

definition ensure_count_fits_remaining ::
  "reader \<Rightarrow> nat \<Rightarrow> nat \<Rightarrow> string \<Rightarrow> primitive_error + unit" where
  "ensure_count_fits_remaining r count minimum_item_bytes ctx =
     (let maximum = remaining r div minimum_item_bytes in
      if count > maximum then Inl (LimitExceeded ctx maximum count) else Inr ())"

definition read_varbytes :: "nat \<Rightarrow> string \<Rightarrow> reader \<Rightarrow> primitive_error + bytes \<times> reader" where
  "read_varbytes max_len ctx r =
     and_then (read_varint_usize ctx r) (\<lambda>(len, r).
     if len > max_len then Inl (LimitExceeded ctx max_len len) else read_vec len r)"

text \<open>A counted loop that pushes one decoded element per iteration.\<close>

fun read_many ::
  "(reader \<Rightarrow> primitive_error + 'a \<times> reader) \<Rightarrow> nat \<Rightarrow> reader \<Rightarrow> primitive_error + 'a list \<times> reader"
where
  "read_many rd 0 r = Inr ([], r)"
| "read_many rd (Suc n) r =
     and_then (rd r) (\<lambda>(x, r). and_then (read_many rd n r) (\<lambda>(xs, r). Inr (x # xs, r)))"

definition write_u8 :: "u8 \<Rightarrow> bytes" where
  "write_u8 v = [v]"

definition write_u16 :: "u16 \<Rightarrow> bytes" where
  "write_u16 v = to_le_bytes v"

definition write_u16_be :: "u16 \<Rightarrow> bytes" where
  "write_u16_be v = to_be_bytes v"

definition write_u32 :: "u32 \<Rightarrow> bytes" where
  "write_u32 v = to_le_bytes v"

definition write_u32_be :: "u32 \<Rightarrow> bytes" where
  "write_u32_be v = to_be_bytes v"

definition write_u64 :: "u64 \<Rightarrow> bytes" where
  "write_u64 v = to_le_bytes v"

definition write_bytes :: "bytes \<Rightarrow> bytes" where
  "write_bytes bs = bs"

definition write_varint :: "u64 \<Rightarrow> bytes" where
  "write_varint value =
     (if value \<le> 0xfc then write_u8 (ucast value)
      else if value \<le> 0xffff then write_u8 0xfd @ write_u16 (ucast value)
      else if value \<le> 0xffffffff then write_u8 0xfe @ write_u32 (ucast value)
      else write_u8 0xff @ write_u64 value)"

definition write_varbytes :: "bytes \<Rightarrow> bytes" where
  "write_varbytes bs = write_varint (word_of_nat (length bs)) @ write_bytes bs"

subsection \<open>Readers by what is left to read\<close>

definition reader_at :: "bytes \<Rightarrow> bytes \<Rightarrow> reader" where
  "reader_at pre s = \<lparr>rd_bytes = pre @ s, rd_offset = length pre\<rparr>"

lemma remaining_reader_at [simp]: "remaining (reader_at pre s) = length s"
  by (simp add: remaining_def reader_at_def)

lemma ensure_finished_reader_at:
  "ensure_finished (reader_at pre s) = Inr () \<longleftrightarrow> s = []"
  by (simp add: ensure_finished_def)

lemma reader_new_eq: "reader_new bs m = Inr r \<longleftrightarrow> length bs \<le> m \<and> r = reader_at [] bs"
  by (auto simp: reader_new_def reader_at_def)

lemma read_exact_reader_at:
  assumes "length pre + length bs \<le> usize_max" and "n = length bs"
  shows "read_exact n (reader_at pre (bs @ s)) = Inr (bs, reader_at (pre @ bs) s)"
  using assms by (simp add: read_exact_def usize_checked_add_def reader_at_def)

lemma read_exact_InrD:
  assumes "read_exact n (reader_at pre s) = Inr (bs, r')"
  shows "\<exists>s'. s = bs @ s' \<and> r' = reader_at (pre @ bs) s' \<and> length bs = n"
proof -
  from assms have le: "n \<le> length s" and bs: "bs = take n s"
    and r': "r' = (reader_at pre s)\<lparr>rd_offset := length pre + n\<rparr>"
    by (auto simp: read_exact_def usize_checked_add_def reader_at_def and_then_eq_Inr
        split: if_splits)
  from le bs r' show ?thesis
    by (intro exI [of _ "drop n s"]) (simp add: reader_at_def)
qed

subsection \<open>The codec contract\<close>

locale codec =
  fixes rd :: "reader \<Rightarrow> primitive_error + 'a \<times> reader"
    and wr :: "'a \<Rightarrow> bytes"
    and ok :: "'a \<Rightarrow> bool"
  assumes decodes: "ok x \<Longrightarrow> length pre + length (wr x) + length s \<le> usize_max \<Longrightarrow>
      rd (reader_at pre (wr x @ s)) = Inr (x, reader_at (pre @ wr x) s)"
    and encodes: "rd (reader_at pre s) = Inr (x, r') \<Longrightarrow>
      \<exists>s'. s = wr x @ s' \<and> r' = reader_at (pre @ wr x) s' \<and> ok x"
begin

lemma decodes_all:
  "ok x \<Longrightarrow> length pre + length (wr x) \<le> usize_max \<Longrightarrow>
    rd (reader_at pre (wr x)) = Inr (x, reader_at (pre @ wr x) [])"
  using decodes [of x pre "[]"] by simp

text \<open>No value's encoding starts another one's: a stream is read back in one way only.\<close>

lemma prefix_free:
  assumes "ok x" and "ok y" and "wr x @ s = wr y @ t" and "length (wr x @ s) \<le> usize_max"
  shows "x = y \<and> s = t"
proof -
  have "length (wr x @ s) = length (wr y @ t)" by (simp only: assms(3))
  then have len: "length (wr x) + length s \<le> usize_max" "length (wr y) + length t \<le> usize_max"
    using assms(4) by simp_all
  have "rd (reader_at [] (wr x @ s)) = Inr (x, reader_at (wr x) s)"
    using decodes [of x "[]" s] assms(1) len(1) by simp
  moreover have "rd (reader_at [] (wr y @ t)) = Inr (y, reader_at (wr y) t)"
    using decodes [of y "[]" t] assms(2) len(2) by simp
  ultimately have "x = y" using assms(3) by simp
  with assms(3) show ?thesis by simp
qed

text \<open>So a concatenation of encodings determines the list of values.\<close>

lemma concat_inject:
  assumes "\<And>x. ok x \<Longrightarrow> wr x \<noteq> []" and "\<forall>x \<in> set xs. ok x" and "\<forall>y \<in> set ys. ok y"
    and "concat (map wr xs) = concat (map wr ys)" and "length (concat (map wr xs)) \<le> usize_max"
  shows "xs = ys"
  using assms(2-)
proof (induction xs arbitrary: ys)
  case Nil
  then show ?case using assms(1) by (cases ys) auto
next
  case (Cons x xs)
  then obtain y ys' where ys: "ys = y # ys'" using assms(1) [of x] by (cases ys) auto
  from Cons.prems prefix_free [of x y "concat (map wr xs)" "concat (map wr ys')"]
  have "x = y" "concat (map wr xs) = concat (map wr ys')" by (simp_all add: ys)
  with Cons.IH [of ys'] Cons.prems show ?case by (simp add: ys)
qed

text \<open>A decoder that reads one value from a bounded buffer and insists on its end.\<close>

lemma whole:
  assumes "m \<le> usize_max"
  shows "and_then (reader_new raw m) (\<lambda>r. and_then (rd r) (\<lambda>(x, r).
      and_then (ensure_finished r) (\<lambda>_. Inr x))) = Inr x \<longleftrightarrow>
    raw = wr x \<and> ok x \<and> length raw \<le> m"
proof
  assume "and_then (reader_new raw m) (\<lambda>r. and_then (rd r) (\<lambda>(x, r).
      and_then (ensure_finished r) (\<lambda>_. Inr x))) = Inr x"
  then show "raw = wr x \<and> ok x \<and> length raw \<le> m"
    by (auto simp: and_then_eq_Inr reader_new_eq ensure_finished_reader_at dest!: encodes)
next
  assume raw: "raw = wr x \<and> ok x \<and> length raw \<le> m"
  then have "reader_new raw m = Inr (reader_at [] raw)" by (auto simp: reader_new_eq)
  moreover have "rd (reader_at [] raw) = Inr (x, reader_at raw [])"
    using decodes_all [of x "[]"] raw assms by auto
  moreover have "ensure_finished (reader_at raw []) = Inr ()" by (simp add: ensure_finished_reader_at)
  ultimately show "and_then (reader_new raw m) (\<lambda>r. and_then (rd r) (\<lambda>(x, r).
      and_then (ensure_finished r) (\<lambda>_. Inr x))) = Inr x" by simp
qed

lemma many: "codec (read_many rd n) (\<lambda>xs. concat (map wr xs))
    (\<lambda>xs. length xs = n \<and> (\<forall>x \<in> set xs. ok x))"
proof (unfold_locales, goal_cases)
  case (1 xs pre s)
  then show ?case
  proof (induction xs arbitrary: n pre)
    case (Cons x xs)
    obtain m where n: "n = Suc m" and len: "length xs = m"
      using Cons.prems by auto
    have "rd (reader_at pre (wr x @ (concat (map wr xs) @ s))) =
        Inr (x, reader_at (pre @ wr x) (concat (map wr xs) @ s))"
      using Cons.prems by (intro decodes) auto
    moreover have "read_many rd m (reader_at (pre @ wr x) (concat (map wr xs) @ s)) =
        Inr (xs, reader_at ((pre @ wr x) @ concat (map wr xs)) s)"
      using Cons.prems len by (intro Cons.IH) auto
    ultimately show ?case by (simp add: n)
  qed simp
next
  case (2 pre s xs r')
  then show ?case
  proof (induction n arbitrary: pre s xs r')
    case (Suc n)
    from Suc.prems obtain x r1 ys where
      x: "rd (reader_at pre s) = Inr (x, r1)" and ys: "read_many rd n r1 = Inr (ys, r')"
      and xs: "xs = x # ys"
      by (auto simp: and_then_eq_Inr)
    from encodes [OF x] obtain s1 where
      s1: "s = wr x @ s1" "r1 = reader_at (pre @ wr x) s1" "ok x" by blast
    from Suc.IH [OF ys [unfolded s1(2)]] s1 xs show ?case by auto
  qed simp
qed

end

text \<open>A codec for a value that is another codec's value seen through a bijection.\<close>

lemma codec_map:
  assumes c: "codec rd wr ok"
    and rd': "\<And>r. rd' r = and_then (rd r) (\<lambda>(x, r). if ok' (f x) then Inr (f x, r) else Inl (e x))"
    and wr': "\<And>y. ok' y \<Longrightarrow> wr' y = wr (g y) \<and> ok (g y) \<and> f (g y) = y"
    and gf: "\<And>x. ok x \<Longrightarrow> ok' (f x) \<Longrightarrow> g (f x) = x"
  shows "codec rd' wr' ok'"
proof (unfold_locales, goal_cases)
  case (1 y pre s)
  then show ?case using codec.decodes [OF c, of "g y" pre s] wr' [of y] by (simp add: rd')
next
  case (2 pre s y r')
  then obtain x where "rd (reader_at pre s) = Inr (x, r')" and y: "y = f x" "ok' y"
    by (auto simp: rd' and_then_eq_Inr split: if_splits)
  with codec.encodes [OF c, of pre s x r'] wr' [of y] gf [of x] show ?case by auto
qed

subsection \<open>Instances\<close>

interpretation vec_codec: codec "read_vec n" write_bytes "\<lambda>bs. length bs = n" for n
  by unfold_locales
    (auto simp: read_vec_def write_bytes_def intro!: read_exact_reader_at dest: read_exact_InrD)

interpretation array_codec: codec "read_array n" write_bytes "\<lambda>bs. length bs = n" for n
  by unfold_locales
    (auto simp: read_array_def write_bytes_def intro!: read_exact_reader_at dest: read_exact_InrD)

interpretation hash_codec: codec read_hash write_bytes "\<lambda>bs. length bs = 32"
  using array_codec.codec_axioms [of 32] unfolding read_hash_def [abs_def] .

interpretation nonce_codec: codec read_nonce write_bytes "\<lambda>bs. length bs = nonce_size"
  using array_codec.codec_axioms [of nonce_size] unfolding read_nonce_def [abs_def] .

lemma from_be_to_be_bytes: "8 dvd LENGTH('a::len) \<Longrightarrow> from_be_bytes (to_be_bytes w) = (w :: 'a word)"
  by (simp add: from_be_bytes_def be_val_to_be_bytes)

lemma to_be_from_be_bytes:
  "8 * length bs = LENGTH('a::len) \<Longrightarrow> to_be_bytes (from_be_bytes bs :: 'a word) = bs"
  using to_le_from_le_bytes [of "rev bs", where 'a = 'a]
  by (simp add: to_be_bytes_def from_be_bytes_def be_val_eq_le_val from_le_bytes_def)

lemmas int_codec_simps = write_u8_def write_u16_def write_u16_be_def write_u32_def write_u32_be_def
  write_u64_def write_bytes_def to_le_from_le_bytes from_le_to_le_bytes to_be_from_be_bytes
  from_be_to_be_bytes

interpretation u8_codec: codec read_u8 write_u8 "\<lambda>_. True"
proof (rule codec_map [OF vec_codec.codec_axioms [of 1], where f = "\<lambda>bs. bs ! 0" and g = "\<lambda>b. [b]"])
  show "length x = 1 \<Longrightarrow> [x ! 0] = x" for x :: bytes
    by (cases x) auto
qed (auto simp: read_u8_def read_vec_def int_codec_simps)

interpretation u16_codec: codec read_u16 write_u16 "\<lambda>_. True"
  by (rule codec_map [OF array_codec.codec_axioms [of 2], where f = from_le_bytes and g = to_le_bytes])
    (auto simp: read_u16_def int_codec_simps)

interpretation u16_be_codec: codec read_u16_be write_u16_be "\<lambda>_. True"
  by (rule codec_map [OF array_codec.codec_axioms [of 2], where f = from_be_bytes and g = to_be_bytes])
    (auto simp: read_u16_be_def int_codec_simps)

interpretation u32_codec: codec read_u32 write_u32 "\<lambda>_. True"
  by (rule codec_map [OF array_codec.codec_axioms [of 4], where f = from_le_bytes and g = to_le_bytes])
    (auto simp: read_u32_def int_codec_simps)

interpretation u32_be_codec: codec read_u32_be write_u32_be "\<lambda>_. True"
  by (rule codec_map [OF array_codec.codec_axioms [of 4], where f = from_be_bytes and g = to_be_bytes])
    (auto simp: read_u32_be_def int_codec_simps)

interpretation u64_codec: codec read_u64 write_u64 "\<lambda>_. True"
  by (rule codec_map [OF array_codec.codec_axioms [of 8], where f = from_le_bytes and g = to_le_bytes])
    (auto simp: read_u64_def int_codec_simps)

lemmas int_decodes = u8_codec.decodes u16_codec.decodes u32_codec.decodes u64_codec.decodes

lemmas int_encodes = u8_codec.encodes u16_codec.encodes u32_codec.encodes u64_codec.encodes

subsection \<open>The variable-length integer\<close>

lemma varint_decodes:
  assumes "length pre + length (write_varint x) + length s \<le> usize_max"
  shows "read_varint (reader_at pre (write_varint x @ s)) = Inr (x, reader_at (pre @ write_varint x) s)"
proof -
  consider (one) "unat x \<le> 252" | (two) "252 < unat x" "unat x \<le> 65535"
    | (four) "65535 < unat x" "unat x \<le> 4294967295" | (eight) "4294967295 < unat x"
    by linarith
  then show ?thesis
  proof cases
    case one
    then have "unat (ucast x :: u8) = unat x" by (intro unat_ucast_fits) simp
    with one assms show ?thesis
      by (simp add: read_varint_def write_varint_def int_decodes word_le_nat_alt ucast_ucast_fits)
  next
    case two
    then have "unat (ucast x :: u16) = unat x" by (intro unat_ucast_fits) simp
    with two assms show ?thesis
      by (simp add: read_varint_def write_varint_def int_decodes word_le_nat_alt word_less_nat_alt
          ucast_ucast_fits)
  next
    case four
    then have "unat (ucast x :: u32) = unat x" by (intro unat_ucast_fits) simp
    with four assms show ?thesis
      by (simp add: read_varint_def write_varint_def int_decodes word_le_nat_alt word_less_nat_alt
          ucast_ucast_fits)
  next
    case eight
    with assms show ?thesis
      by (simp add: read_varint_def write_varint_def int_decodes word_le_nat_alt)
  qed
qed

lemma write_varint_u8: "v \<le> 0xfc \<Longrightarrow> write_varint (ucast (v :: u8)) = write_u8 v"
  by (simp add: write_varint_def word_le_nat_alt unat_ucast_up ucast_ucast_up)

lemma write_varint_u16:
  "\<not> (ucast (v :: u16) :: u64) < 0xfd \<Longrightarrow> write_varint (ucast v) = write_u8 0xfd @ write_u16 v"
  using unat_lt2p [of v]
  by (simp add: write_varint_def word_le_nat_alt word_less_nat_alt unat_ucast_up ucast_ucast_up)

lemma write_varint_u32:
  "\<not> (ucast (v :: u32) :: u64) \<le> 0xffff \<Longrightarrow> write_varint (ucast v) = write_u8 0xfe @ write_u32 v"
  using unat_less_2_32 [of v, THEN Suc_leI]
  by (simp add: write_varint_def word_le_nat_alt word_less_nat_alt unat_ucast_up ucast_ucast_up)

lemma write_varint_u64:
  "\<not> v \<le> 0xffffffff \<Longrightarrow> write_varint v = write_u8 0xff @ write_u64 v"
  by (simp add: write_varint_def word_le_nat_alt)

lemma varint_encodes:
  assumes "read_varint (reader_at pre s) = Inr (x, r')"
  shows "\<exists>s'. s = write_varint x @ s' \<and> r' = reader_at (pre @ write_varint x) s'"
proof -
  from assms obtain pfx r1 where r1: "read_u8 (reader_at pre s) = Inr (pfx, r1)"
    by (auto simp: read_varint_def and_then_eq_Inr)
  from u8_codec.encodes [OF r1] obtain s1 where s: "s = write_u8 pfx @ s1"
    and pfx: "read_u8 (reader_at pre s) = Inr (pfx, reader_at (pre @ write_u8 pfx) s1)"
    using r1 by blast
  have "unat pfx \<le> 252 \<or> unat pfx = 253 \<or> unat pfx = 254 \<or> unat pfx = 255"
    using unat_le_255 [of pfx] by linarith
  then consider (one) "pfx \<le> 0xfc" | (two) "pfx = 0xfd" | (four) "pfx = 0xfe" | (eight) "pfx = 0xff"
    by (auto simp: word_le_nat_alt word_unat_eq_iff)
  then show ?thesis
    by cases (use assms pfx s in \<open>auto simp: read_varint_def and_then_eq_Inr write_varint_u8
      write_varint_u16 write_varint_u32 write_varint_u64 split: if_splits dest!: int_encodes\<close>)
qed

interpretation varint_codec: codec read_varint write_varint "\<lambda>_. True"
  by unfold_locales (auto simp: varint_decodes dest: varint_encodes)

subsection \<open>Counts and length-prefixed bytes\<close>

lemma unat_word_of_nat_usize: "n \<le> usize_max \<Longrightarrow> unat (word_of_nat n :: u64) = n"
  by (simp add: unat_of_nat usize_max_def)

lemma unat_le_usize_max: "unat (v :: u64) \<le> usize_max"
  using unat_less_2_64 [of v, THEN Suc_leI] by (simp add: usize_max_def)

interpretation varint_usize_codec:
  codec "read_varint_usize ctx" "\<lambda>n. write_varint (word_of_nat n)" "\<lambda>n. n \<le> usize_max" for ctx
  by (rule codec_map [OF varint_codec.codec_axioms, where f = unat and g = word_of_nat])
    (auto simp: read_varint_usize_def unat_word_of_nat_usize)

interpretation varbytes_codec:
  codec "read_varbytes m ctx" write_varbytes "\<lambda>bs. length bs \<le> m" for m ctx
proof (unfold_locales, goal_cases)
  case (1 bs pre s)
  then have "length bs \<le> usize_max" by (simp add: write_varbytes_def write_bytes_def)
  with 1 show ?case
    by (simp add: read_varbytes_def write_varbytes_def varint_usize_codec.decodes
        vec_codec.decodes)
next
  case (2 pre s bs r')
  then obtain len r1 where len: "read_varint_usize ctx (reader_at pre s) = Inr (len, r1)"
    and le: "len \<le> m" and vec: "read_vec len r1 = Inr (bs, r')"
    by (auto simp: read_varbytes_def and_then_eq_Inr split: if_splits)
  from varint_usize_codec.encodes [OF len] obtain s1 where
    "s = write_varint (word_of_nat len) @ s1" "r1 = reader_at (pre @ write_varint (word_of_nat len)) s1"
    by blast
  with vec le show ?case
    by (auto simp: write_varbytes_def dest!: vec_codec.encodes)
qed

lemma length_write_varint_pos: "0 < length (write_varint v)"
  by (simp add: write_varint_def int_codec_simps)

lemma length_write_varint_le: "length (write_varint v) \<le> 9"
  by (simp add: write_varint_def int_codec_simps)

text \<open>
  C32. Variable-length integers are canonical: a successful read consumed exactly the bytes
  that writing the value produces, so no value has a second accepted encoding, and every
  written value is read back.
\<close>

theorem read_varint_iff_canonical:
  assumes "length s \<le> usize_max"
  shows "read_varint (reader_at [] s) = Inr (v, r)
    \<longleftrightarrow> (\<exists>t. s = write_varint v @ t \<and> r = reader_at (write_varint v) t)"
proof
  assume "read_varint (reader_at [] s) = Inr (v, r)"
  then show "\<exists>t. s = write_varint v @ t \<and> r = reader_at (write_varint v) t"
    using varint_encodes [of "[]" s v r] by simp
next
  assume "\<exists>t. s = write_varint v @ t \<and> r = reader_at (write_varint v) t"
  then obtain t where "s = write_varint v @ t" and "r = reader_at (write_varint v) t" by blast
  with assms show "read_varint (reader_at [] s) = Inr (v, r)"
    using varint_decodes [of "[]" v t] by simp
qed

theorem read_varint_iff_canonical_witness:
  "read_varint (reader_at [] [0xfd, 0xfd, 0x00, 7]) = Inr (0xfd, reader_at [0xfd, 0xfd, 0x00] [7])
   \<and> read_varint (reader_at [] [0xfd, 0xfc, 0x00]) \<noteq> Inr (0xfc, reader_at [0xfd, 0xfc, 0x00] [])"
proof -
  have "write_varint 0xfd = [0xfd, 0xfd, 0x00]" and "write_varint 0xfc = [0xfc]"
    by code_simp+
  then show ?thesis
    using read_varint_iff_canonical [of "[0xfd, 0xfd, 0x00, 7]" "0xfd" "reader_at [0xfd, 0xfd, 0x00] [7]"]
      read_varint_iff_canonical [of "[0xfd, 0xfc, 0x00]" "0xfc" "reader_at [0xfd, 0xfc, 0x00] []"]
    by (simp add: usize_max_def)
qed

end
