(* ===== verification/Uint256.thy ===== *)
theory Uint256
  imports Prelude
begin

unbundle bit_operations_syntax

text \<open>
  The 256-bit unsigned integer of \<^verbatim>\<open>crates/hns-primitives/src/lib.rs\<close>: an array of 32
  big-endian bytes with byte-wise carry, borrow and shift loops.  A loop over the indices
  from 31 down to 0 is a recursion that treats the tail first and hands its carry to the
  head.  Every operation is refined to the natural number the bytes denote (\<open>be_val\<close>); the
  bit-serial division is refined to \<open>2 ^ 256 div d\<close>.
\<close>

type_synonym uint256 = bytes

definition uint256_ok :: "uint256 \<Rightarrow> bool" where
  "uint256_ok a \<longleftrightarrow> length a = 32"

definition uint256_from_u64 :: "u64 \<Rightarrow> uint256" where
  "uint256_from_u64 v = replicate 24 0 @ to_be_bytes v"

definition uint256_from_u128 :: "u128 \<Rightarrow> uint256" where
  "uint256_from_u128 v = replicate 16 0 @ to_be_bytes v"

definition uint256_zero :: uint256 where
  "uint256_zero = replicate 32 0"

definition uint256_one :: uint256 where
  "uint256_one = uint256_from_u64 1"

fun add_loop :: "bytes \<Rightarrow> bytes \<Rightarrow> bytes \<times> u16" where
  "add_loop (a # as) (b # bs) =
     (let (out, carry) = add_loop as bs;
          s = ucast a + ucast b + carry
      in (ucast s # out, drop_bit 8 s))"
| "add_loop _ _ = ([], 0)"

definition uint256_checked_add :: "uint256 \<Rightarrow> uint256 \<Rightarrow> uint256 option" where
  "uint256_checked_add a b =
     (let (out, carry) = add_loop a b in if carry = 0 then Some out else None)"

text \<open>The \<open>i16\<close> difference stays between -256 and 255, so an integer stands for it.\<close>

fun sub_loop :: "bytes \<Rightarrow> bytes \<Rightarrow> bytes \<times> int" where
  "sub_loop (a # as) (b # bs) =
     (let (out, borrow) = sub_loop as bs;
          difference = uint a - uint b - borrow
      in if difference < 0 then (word_of_int (difference + 256) # out, 1)
         else (word_of_int difference # out, 0))"
| "sub_loop _ _ = ([], 0)"

definition uint256_wrapping_sub :: "uint256 \<Rightarrow> uint256 \<Rightarrow> uint256" where
  "uint256_wrapping_sub a b = fst (sub_loop a b)"

definition uint256_checked_sub :: "uint256 \<Rightarrow> uint256 \<Rightarrow> uint256 option" where
  "uint256_checked_sub a b = (if bytes_le b a then Some (uint256_wrapping_sub a b) else None)"

fun mul_loop :: "u64 \<Rightarrow> bytes \<Rightarrow> bytes \<times> u128" where
  "mul_loop m [] = ([], 0)"
| "mul_loop m (a # as) =
     (let (out, carry) = mul_loop m as;
          product = ucast a * ucast m + carry
      in (ucast product # out, drop_bit 8 product))"

definition uint256_checked_mul_u64 :: "uint256 \<Rightarrow> u64 \<Rightarrow> uint256 option" where
  "uint256_checked_mul_u64 a m =
     (let (out, carry) = mul_loop m a in if carry = 0 then Some out else None)"

fun div_loop :: "u64 \<Rightarrow> u128 \<Rightarrow> bytes \<Rightarrow> bytes" where
  "div_loop d rem [] = []"
| "div_loop d rem (b # bs) =
     (let dividend = push_bit 8 rem OR ucast b
      in ucast (dividend div ucast d) # div_loop d (dividend mod ucast d) bs)"

definition uint256_div_u64 :: "uint256 \<Rightarrow> u64 \<Rightarrow> uint256 option" where
  "uint256_div_u64 a d = (if d = 0 then None else Some (div_loop d 0 a))"

fun shl_loop :: "bytes \<Rightarrow> bytes \<times> u8" where
  "shl_loop [] = ([], 0)"
| "shl_loop (b # bs) =
     (let (out, carry) = shl_loop bs
      in ((push_bit 1 b OR carry) # out, drop_bit 7 b))"

definition shift_left_one :: "uint256 \<Rightarrow> uint256 \<times> bool" where
  "shift_left_one a = (fst (shl_loop a), a ! 0 AND 0x80 \<noteq> 0)"

definition uint256_set_bit :: "uint256 \<Rightarrow> nat \<Rightarrow> uint256" where
  "uint256_set_bit a i = a[31 - i div 8 := a ! (31 - i div 8) OR push_bit (i mod 8) 1]"

text \<open>One iteration of the division, for the bit with the given weight.\<close>

definition divide_step :: "uint256 \<Rightarrow> nat \<Rightarrow> uint256 \<times> uint256 \<Rightarrow> uint256 \<times> uint256" where
  "divide_step divisor i state =
     (let (remainder, quotient) = state;
          (shifted, high) = shift_left_one remainder;
          remainder = (if i = 256 then shifted[31 := shifted ! 31 OR 1] else shifted)
      in if high \<or> bytes_le divisor remainder
         then (uint256_wrapping_sub remainder divisor,
               if i < 256 then uint256_set_bit quotient i else quotient)
         else (remainder, quotient))"

definition divide_two_to_256 :: "uint256 \<Rightarrow> uint256 option" where
  "divide_two_to_256 divisor =
     (if divisor = uint256_zero \<or> divisor = uint256_one then None
      else Some (snd (fold (divide_step divisor) (rev [0..<257]) (uint256_zero, uint256_zero))))"

definition work_for_target :: "uint256 \<Rightarrow> uint256 option" where
  "work_for_target target =
     (if target = uint256_zero then None
      else case uint256_checked_add target uint256_one of
        None \<Rightarrow> Some uint256_one
      | Some divisor \<Rightarrow> divide_two_to_256 divisor)"

definition target_for_work :: "uint256 \<Rightarrow> uint256 option" where
  "target_for_work work =
     (if work = uint256_zero then None
      else if work = uint256_one then Some (replicate 32 0xff)
      else Option.bind (divide_two_to_256 work) (\<lambda>q. uint256_checked_sub q uint256_one))"

subsection \<open>The number a value denotes\<close>

text \<open>\<open>u256 n\<close> is the representation of \<open>n\<close>, unique among byte lists of length 32.\<close>

definition u256 :: "nat \<Rightarrow> uint256" where
  "u256 n = rev (nat_to_le 32 n)"

lemma length_u256 [simp]: "length (u256 n) = 32"
  by (simp add: u256_def)

lemma uint256_ok_u256 [simp]: "uint256_ok (u256 n)"
  by (simp add: uint256_ok_def)

lemma power_256_32: "(256 :: nat) ^ 32 = 2 ^ 256"
  by simp

lemma be_val_u256: "be_val (u256 n) = n mod 2 ^ 256"
  by (simp add: u256_def be_val_rev le_val_nat_to_le power_256_32 del: power_numeral)

lemma uint256_less: "uint256_ok a \<Longrightarrow> be_val a < 2 ^ 256"
  using be_val_less [of a] by (simp add: uint256_ok_def power_256_32 del: power_numeral)

lemma u256_be_val: "uint256_ok a \<Longrightarrow> u256 (be_val a) = a"
  using nat_to_le_le_val [of "rev a"] by (simp add: u256_def uint256_ok_def be_val_eq_le_val)

lemma uint256_eqI: "uint256_ok a \<Longrightarrow> be_val a = n \<Longrightarrow> a = u256 n"
  using u256_be_val [of a] by simp

lemma u256_inject: "m < 2 ^ 256 \<Longrightarrow> n < 2 ^ 256 \<Longrightarrow> u256 m = u256 n \<longleftrightarrow> m = n"
  by (metis be_val_u256 mod_less)

lemma uint256_zero_eq: "uint256_zero = u256 0"
  by (rule uint256_eqI) (simp_all add: uint256_zero_def uint256_ok_def)

lemma be_val_replicate_append: "be_val (replicate k 0 @ bs) = be_val bs"
  by (simp add: be_val_append)

lemma uint256_from_u64_eq: "uint256_from_u64 v = u256 (unat v)"
  by (rule uint256_eqI)
    (simp_all add: uint256_from_u64_def uint256_ok_def be_val_replicate_append be_val_to_be_bytes)

lemma uint256_from_u128_eq: "uint256_from_u128 v = u256 (unat v)"
  by (rule uint256_eqI)
    (simp_all add: uint256_from_u128_def uint256_ok_def be_val_replicate_append be_val_to_be_bytes)

lemma uint256_one_eq: "uint256_one = u256 1"
  by (simp add: uint256_one_def uint256_from_u64_eq)

subsection \<open>The byte loops\<close>

lemma weighted_split: "n * w = (n div d) * (d * w) + (n mod d) * w" for n w d :: nat
proof -
  have "n * w = (n div d * d + n mod d) * w" by (simp only: div_mult_mod_eq)
  then show ?thesis by (simp only: distrib_right mult.assoc)
qed

lemma weighted_256: "(s mod 256) * w + 256 * w * (s div 256) = s * w" for s w :: nat
  unfolding weighted_split [of s w 256] by (simp only: mult_ac add_ac)

lemma div_step_arith:
  fixes r a x w d :: nat
  assumes "0 < d"
  shows "(r * (256 * w) + (a * w + x)) div d =
    ((r * 256 + a) div d) * w + (((r * 256 + a) mod d) * w + x) div d"
proof -
  define n where "n = r * 256 + a"
  have "r * (256 * w) + (a * w + x) = n * w + x"
    by (simp add: n_def distrib_right)
  also have "\<dots> = (n div d * w) * d + ((n mod d) * w + x)"
    by (subst weighted_split [of n w d]) (simp only: mult_ac add_ac)
  finally have eq: "r * (256 * w) + (a * w + x) = (n div d * w) * d + ((n mod d) * w + x)" .
  have "(r * (256 * w) + (a * w + x)) div d = n div d * w + (n mod d * w + x) div d"
    using assms by (simp only: eq div_mult_self3 neq0_conv)
  then show ?thesis by (simp only: n_def)
qed

lemma add_step_arith:
  fixes s a b c t w x y :: nat
  assumes "s = a + b + c" and "t + w * c = x + y"
  shows "((s mod 256) * w + t) + 256 * w * (s div 256) = (a * w + x) + (b * w + y)"
proof -
  have "((s mod 256) * w + t) + 256 * w * (s div 256) = s * w + t"
    using weighted_256 [of s w] by linarith
  also have "\<dots> = a * w + b * w + (t + w * c)"
    unfolding assms(1) by (simp add: algebra_simps)
  finally show ?thesis using assms(2) by simp
qed

lemma sub_step_arith:
  fixes u a b c k t w x y :: int
  assumes "u = a - b - c + 256 * k" and "x + w * c = t + y"
  shows "(a * w + x) + 256 * w * k = (u * w + t) + (b * w + y)"
proof -
  have "(u * w + t) + (b * w + y) = a * w - w * c + 256 * w * k + (t + y)"
    unfolding assms(1) by (simp add: algebra_simps)
  then show ?thesis using assms(2) by simp
qed

lemma shl_step_arith:
  fixes u h a c t w x :: nat
  assumes "u + 256 * h = 2 * a + c" and "t + w * c = 2 * x"
  shows "(u * w + t) + 256 * w * h = 2 * (a * w + x)"
proof -
  have "(u * w + t) + 256 * w * h = (u + 256 * h) * w + t"
    by (simp add: distrib_right)
  then show ?thesis using assms(2) unfolding assms(1) by (simp add: algebra_simps)
qed

lemma mul_step_arith:
  fixes p a m c t w x :: nat
  assumes "p = a * m + c" and "t + w * c = x * m"
  shows "((p mod 256) * w + t) + 256 * w * (p div 256) = (a * w + x) * m"
proof -
  have "((p mod 256) * w + t) + 256 * w * (p div 256) = p * w + t"
    using weighted_256 [of p w] by linarith
  also have "\<dots> = a * w * m + (t + w * c)"
    unfolding assms(1) by (simp add: algebra_simps)
  finally show ?thesis using assms(2) by (simp add: distrib_right)
qed

lemma add_loop_val:
  "length as = length bs \<Longrightarrow> add_loop as bs = (out, carry) \<Longrightarrow>
    length out = length as \<and> unat carry \<le> 1 \<and>
    be_val out + 256 ^ length as * unat carry = be_val as + be_val bs"
proof (induction as bs arbitrary: out carry rule: list_induct2)
  case (Cons a as b bs)
  obtain out' c' where rec: "add_loop as bs = (out', c')" by fastforce
  with Cons.IH have IH: "length out' = length as" "unat c' \<le> 1"
    "be_val out' + 256 ^ length as * unat c' = be_val as + be_val bs" by auto
  define s where "s = (ucast a + ucast b + c' :: u16)"
  have ab: "unat (ucast a + ucast b :: u16) = unat a + unat b"
    using unat_le_255 [of a] unat_le_255 [of b]
    by (subst unat_add_fits) (simp_all add: unat_ucast_up)
  have s: "unat s = unat a + unat b + unat c'"
    unfolding s_def using ab IH(2) unat_le_255 [of a] unat_le_255 [of b]
    by (subst unat_add_fits) simp_all
  have "out = ucast s # out'" "carry = drop_bit 8 s"
    using Cons.prems rec by (simp_all add: s_def Let_def)
  moreover have "unat s div 256 \<le> 1"
    using s IH(2) unat_le_255 [of a] unat_le_255 [of b] by linarith
  ultimately show ?case
    using IH(1) Cons.hyps add_step_arith [OF s IH(3)] by (simp add: unat_ucast_u8 unat_drop_bit)
qed simp

lemma sub_loop_val:
  "length as = length bs \<Longrightarrow> sub_loop as bs = (out, borrow) \<Longrightarrow>
    length out = length as \<and> (borrow = 0 \<or> borrow = 1) \<and>
    int (be_val as) + 256 ^ length as * borrow = int (be_val out) + int (be_val bs)"
proof (induction as bs arbitrary: out borrow rule: list_induct2)
  case (Cons a as b bs)
  obtain out' c' where rec: "sub_loop as bs = (out', c')" by fastforce
  with Cons.IH have IH: "length out' = length as" "c' = 0 \<or> c' = 1"
    "int (be_val as) + 256 ^ length as * c' = int (be_val out') + int (be_val bs)" by auto
  define d where "d = uint a - uint b - c'"
  have "uint a < 256" "uint b < 256"
    using uint_bounded [of a] uint_bounded [of b] by simp_all
  then have range: "- 256 \<le> d" "d \<le> 255"
    unfolding d_def using IH(2) uint_ge_0 [of a] uint_ge_0 [of b] by linarith+
  define k :: int where "k = (if d < 0 then 1 else 0)"
  define v :: u8 where "v = word_of_int (d + 256 * k)"
  have out: "out = v # out'" "borrow = k"
    using Cons.prems rec by (auto simp: d_def v_def k_def Let_def split: if_splits)
  have "uint v = d + 256 * k"
    unfolding v_def using range
    by (subst uint_word_of_int, subst mod_pos_pos_trivial) (simp_all add: k_def)
  then have "int (unat v) = uint a - uint b - c' + 256 * k"
    by (simp add: d_def)
  from sub_step_arith [OF this IH(3)] show ?case
    using out IH(1) Cons.hyps by (simp add: k_def)
qed simp

lemma mul_loop_val:
  "mul_loop m as = (out, carry) \<Longrightarrow>
    length out = length as \<and> unat carry \<le> unat m \<and>
    be_val out + 256 ^ length as * unat carry = be_val as * unat m"
proof (induction as arbitrary: out carry)
  case (Cons a as)
  obtain out' c' where rec: "mul_loop m as = (out', c')" by fastforce
  with Cons.IH have IH: "length out' = length as" "unat c' \<le> unat m"
    "be_val out' + 256 ^ length as * unat c' = be_val as * unat m" by auto
  define p where "p = (ucast a * ucast m + c' :: u128)"
  have am: "unat a * unat m \<le> 255 * unat m"
    using unat_le_255 [of a] by (intro mult_right_mono) auto
  have "255 * unat m + unat m < 2 ^ 128"
    using unat_less_2_64 [of m] by simp
  with am have lt: "unat a * unat m + unat m < 2 ^ 128" by linarith
  then have "unat (ucast a * ucast m :: u128) = unat a * unat m"
    by (subst unat_mult_fits) (simp_all add: unat_ucast_up)
  then have p: "unat p = unat a * unat m + unat c'"
    unfolding p_def using lt IH(2) by (subst unat_add_fits) simp_all
  have "out = ucast p # out'" "carry = drop_bit 8 p"
    using Cons.prems rec by (simp_all add: p_def Let_def)
  moreover have "unat p div 256 \<le> unat m"
    using p am IH(2) by linarith
  ultimately show ?case
    using IH(1) mul_step_arith [OF p IH(3)] by (simp add: unat_ucast_u8 unat_drop_bit)
qed simp

lemma push_bit_8_or: "unat (push_bit 8 r OR ucast (b :: u8) :: u128) = unat r * 256 + unat b"
  if "unat r < 2 ^ 64" for r :: u128
proof -
  have "push_bit 8 r AND ucast b = (0 :: u128)"
    by (rule bit_eqI) (auto simp: bit_simps dest: bit_imp_le_length)
  then have "push_bit 8 r OR ucast b = push_bit 8 r + (ucast b :: u128)"
    by (simp add: disjunctive_add_eq_or)
  moreover have "unat (push_bit 8 r) = unat r * 256"
    using that by (simp add: push_bit_eq_mult unat_word_ariths)
  ultimately show ?thesis
    using that unat_le_255 [of b] by (simp add: unat_add_fits unat_ucast_up)
qed

lemma div_loop_val:
  assumes "d \<noteq> 0" and "unat rem < unat d"
  shows "length (div_loop d rem as) = length as \<and>
    be_val (div_loop d rem as) = (unat rem * 256 ^ length as + be_val as) div unat d"
  using assms(2)
proof (induction as arbitrary: rem)
  case (Cons a as)
  define n where "n = unat rem * 256 + unat a"
  define dividend where "dividend = (push_bit 8 rem OR ucast a :: u128)"
  have d: "unat (ucast d :: u128) = unat d" "0 < unat d"
    using assms(1) by (simp_all add: unat_ucast_up unat_gt_0)
  have dividend: "unat dividend = n"
    using Cons.prems unat_less_2_64 [of d] by (simp add: dividend_def n_def push_bit_8_or)
  have md: "unat (dividend mod ucast d) = n mod unat d"
    and dv: "unat (dividend div ucast d) = n div unat d"
    by (simp_all add: unat_mod_distrib unat_div_distrib d dividend)
  have "n < unat d * 256"
    using Cons.prems unat_less_256 [of a] unfolding n_def by linarith
  then have "n div unat d < 256"
    by (simp add: less_mult_imp_div_less mult.commute)
  then have head: "unat (ucast (dividend div ucast d) :: u8) = n div unat d"
    by (simp add: unat_ucast_u8 dv)
  have IH: "length (div_loop d (dividend mod ucast d) as) = length as"
    "be_val (div_loop d (dividend mod ucast d) as) =
      (n mod unat d * 256 ^ length as + be_val as) div unat d"
    using Cons.IH [of "dividend mod ucast d"] md d(2) by simp_all
  have "div_loop d rem (a # as) =
      ucast (dividend div ucast d) # div_loop d (dividend mod ucast d) as"
    by (simp only: div_loop.simps Let_def dividend_def)
  then show ?case
    using IH head div_step_arith [OF d(2), of "unat rem" "256 ^ length as" "unat a" "be_val as"]
    by (simp add: n_def)
qed simp

subsection \<open>The operations on the numbers they denote\<close>

text \<open>What a loop returns when its carry decides between the value and overflow.\<close>

lemma carry_out:
  assumes "length out = 32" and "be_val out + 2 ^ 256 * unat carry = n"
  shows "(if carry = 0 then Some out else None) = (if n < 2 ^ 256 then Some (u256 n) else None)"
proof (cases "carry = 0")
  case True
  with assms have "uint256_ok out" "be_val out = n" by (simp_all add: uint256_ok_def)
  with True uint256_less [of out] u256_be_val [of out] show ?thesis by simp
next
  case False
  then obtain k where "unat carry = Suc k" by (metis not0_implies_Suc unat_eq_zero)
  with assms(2) False show ?thesis by auto
qed

lemma uint256_checked_add_spec:
  assumes "uint256_ok a" and "uint256_ok b"
  shows "uint256_checked_add a b =
    (if be_val a + be_val b < 2 ^ 256 then Some (u256 (be_val a + be_val b)) else None)"
proof -
  obtain out carry where loop: "add_loop a b = (out, carry)" by fastforce
  with assms show ?thesis
    using add_loop_val [of a b out carry] carry_out [of out carry "be_val a + be_val b"]
    by (simp add: uint256_checked_add_def uint256_ok_def)
qed

lemma uint256_checked_mul_u64_spec:
  assumes "uint256_ok a"
  shows "uint256_checked_mul_u64 a m =
    (if be_val a * unat m < 2 ^ 256 then Some (u256 (be_val a * unat m)) else None)"
proof -
  obtain out carry where loop: "mul_loop m a = (out, carry)" by fastforce
  with assms show ?thesis
    using mul_loop_val [of m a out carry] carry_out [of out carry "be_val a * unat m"]
    by (simp add: uint256_checked_mul_u64_def uint256_ok_def)
qed

lemma uint256_div_u64_spec:
  assumes "uint256_ok a"
  shows "uint256_div_u64 a d = (if d = 0 then None else Some (u256 (be_val a div unat d)))"
  using assms div_loop_val [of d 0 a] uint256_eqI [of "div_loop d 0 a"]
  by (simp add: uint256_div_u64_def uint256_ok_def unat_gt_0)

text \<open>The wrapping difference, both when it fits and when the minuend is short of one carry.\<close>

lemma wrapping_sub_arith:
  fixes x y z m :: nat and borrow :: int
  assumes "int x + int m * borrow = int z + int y" and "borrow = 0 \<or> borrow = 1" and "z < m"
  shows "z = (if y \<le> x then x - y else x + m - y)"
  using assms by (elim disjE) simp_all

lemma uint256_wrapping_sub_val:
  assumes "uint256_ok a" and "uint256_ok b"
  shows "uint256_ok (uint256_wrapping_sub a b)"
    and "be_val (uint256_wrapping_sub a b) =
      (if be_val b \<le> be_val a then be_val a - be_val b else be_val a + 2 ^ 256 - be_val b)"
proof -
  obtain out borrow where loop: "sub_loop a b = (out, borrow)" by fastforce
  with assms have out: "length out = 32" "borrow = 0 \<or> borrow = 1"
    "int (be_val a) + int (2 ^ 256) * borrow = int (be_val out) + int (be_val b)"
    using sub_loop_val [of a b out borrow] by (simp_all add: uint256_ok_def)
  then show ok: "uint256_ok (uint256_wrapping_sub a b)"
    by (simp add: uint256_wrapping_sub_def loop uint256_ok_def)
  then have "be_val out < 2 ^ 256"
    using uint256_less [of out] by (simp only: uint256_wrapping_sub_def loop fst_conv)
  from wrapping_sub_arith [OF out(3,2) this]
  show "be_val (uint256_wrapping_sub a b) =
      (if be_val b \<le> be_val a then be_val a - be_val b else be_val a + 2 ^ 256 - be_val b)"
    by (simp only: uint256_wrapping_sub_def loop fst_conv)
qed

lemma uint256_checked_sub_spec:
  assumes "uint256_ok a" and "uint256_ok b"
  shows "uint256_checked_sub a b =
    (if be_val b \<le> be_val a then Some (u256 (be_val a - be_val b)) else None)"
proof (cases "be_val b \<le> be_val a")
  case True
  with assms have "uint256_wrapping_sub a b = u256 (be_val a - be_val b)"
    by (intro uint256_eqI) (simp_all add: uint256_wrapping_sub_val)
  with True assms show ?thesis
    by (simp add: uint256_checked_sub_def uint256_ok_def bytes_le_iff_be_val)
qed (use assms in \<open>simp add: uint256_checked_sub_def uint256_ok_def bytes_le_iff_be_val\<close>)

subsection \<open>The bit-serial division\<close>

lemma shl_byte:
  fixes a c :: u8
  assumes "unat c \<le> 1"
  shows "unat (push_bit 1 a OR c) + 256 * unat (drop_bit 7 a) = 2 * unat a + unat c"
proof -
  have c: "c = 0 \<or> c = 1" using assms by (auto simp: le_Suc_eq word_unat_eq_iff)
  then have "push_bit 1 a AND c = 0" by (auto simp: and_one_eq mod2_eq_if)
  then have "push_bit 1 a OR c = push_bit 1 a + c" by (simp add: disjunctive_add_eq_or)
  moreover have "unat (push_bit 1 a) = 2 * (unat a mod 128)"
    using mult_mod_right [of 2 "unat a" 128]
    by (simp add: push_bit_eq_mult unat_word_ariths mult.commute)
  moreover have "unat a mod 128 < 128" by simp
  then have "2 * (unat a mod 128) + unat c < 256" using assms by linarith
  ultimately have "unat (push_bit 1 a OR c) = 2 * (unat a mod 128) + unat c"
    by (simp add: unat_add_fits)
  moreover have "unat (drop_bit 7 a) = unat a div 128" by (simp add: unat_drop_bit)
  moreover have "unat a = 128 * (unat a div 128) + unat a mod 128" by simp
  ultimately show ?thesis by linarith
qed

lemma shl_loop_val:
  "shl_loop as = (out, carry) \<Longrightarrow> length out = length as \<and> unat carry \<le> 1 \<and>
    be_val out + 256 ^ length as * unat carry = 2 * be_val as"
proof (induction as arbitrary: out carry)
  case (Cons a as)
  obtain out' c' where rec: "shl_loop as = (out', c')" by fastforce
  with Cons.IH have IH: "length out' = length as" "unat c' \<le> 1"
    "be_val out' + 256 ^ length as * unat c' = 2 * be_val as" by auto
  have "unat (drop_bit 7 a) \<le> 1"
    using div_le_mono [OF unat_le_255 [of a], of 128] by (simp add: unat_drop_bit)
  moreover have "out = (push_bit 1 a OR c') # out'" "carry = drop_bit 7 a"
    using Cons.prems rec by simp_all
  ultimately show ?case
    using IH(1) shl_step_arith [OF shl_byte [OF IH(2)] IH(3), of a] by simp
qed simp

text \<open>The flag \<^verbatim>\<open>high\<close> is the carry out of the top byte.\<close>

lemma shift_left_one_val:
  assumes "uint256_ok a" and "shift_left_one a = (out, high)"
  shows "uint256_ok out"
    and "2 * be_val a = be_val out + (if high then 2 ^ 256 else 0)"
proof -
  obtain b bs where a: "a = b # bs" "length bs = 31"
    using assms(1) by (cases a) (auto simp: uint256_ok_def)
  obtain out' c where rec: "shl_loop bs = (out', c)" by fastforce
  have out: "shl_loop a = (out, drop_bit 7 b)" "high \<longleftrightarrow> b AND 0x80 \<noteq> 0"
    using assms(2) rec by (auto simp: a shift_left_one_def)
  have "(b AND 0x80 \<noteq> 0) = bit b 7"
    using and_exp_eq_0_iff_not_bit [of b 7] by simp
  moreover have "unat (drop_bit 7 b) = (if bit b 7 then 1 else 0)"
  proof -
    have "bit b 7 \<longleftrightarrow> odd (unat b div 128)"
      using bit_iff_odd [of "unat b" 7] by (simp add: bit_unsigned_iff)
    moreover have "unat b div 128 = 0 \<or> unat b div 128 = 1"
      using unat_le_255 [of b] by linarith
    ultimately show ?thesis by (auto simp: unat_drop_bit)
  qed
  moreover have "length out = 32" "be_val out + 2 ^ 256 * unat (drop_bit 7 b) = 2 * be_val a"
    using shl_loop_val [OF out(1)] assms(1) by (simp_all add: uint256_ok_def)
  ultimately show "uint256_ok out" "2 * be_val a = be_val out + (if high then 2 ^ 256 else 0)"
    using out(2) by (auto simp: uint256_ok_def)
qed

lemma be_val_split:
  "k < length bs \<Longrightarrow> be_val bs = (be_val (take k bs) * 256 + unat (bs ! k)) *
    256 ^ (length bs - Suc k) + be_val (drop (Suc k) bs)"
  by (subst id_take_nth_drop, assumption) (simp add: be_val_append algebra_simps del: append_take_drop_id)

lemma be_val_update:
  "k < length bs \<Longrightarrow> be_val (bs[k := x]) = (be_val (take k bs) * 256 + unat x) *
    256 ^ (length bs - Suc k) + be_val (drop (Suc k) bs)"
  by (subst upd_conv_take_nth_drop, assumption) (simp add: be_val_append algebra_simps)

lemma be_val_nth:
  assumes "k < length bs"
  shows "be_val bs div 256 ^ (length bs - Suc k) = be_val (take k bs) * 256 + unat (bs ! k)"
  using be_val_less [of "drop (Suc k) bs"] by (simp add: be_val_split [OF assms])

lemma or_push_bit_val:
  fixes y :: u8
  assumes "j < 8" and "2 ^ Suc j dvd unat y"
  shows "unat (y OR push_bit j 1) = unat y + 2 ^ j"
proof -
  have "unat (push_bit j 1 :: u8) = 2 ^ j"
    using assms(1)
    by (subst unsigned_push_bit_eq) (simp add: take_bit_nat_eq_self_iff)
  then have "unat (y OR push_bit j 1) = unat y OR 2 ^ j"
    by (simp add: unsigned_or_eq)
  moreover have "\<not> bit (unat y) j"
    using assms(2) by (auto simp: bit_iff_odd dvd_def)
  then have "unat y AND 2 ^ j = 0"
    by (simp add: and_exp_eq_0_iff_not_bit)
  ultimately show ?thesis by (simp add: disjunctive_add_eq_or)
qed

lemma uint256_set_bit_val:
  assumes "uint256_ok a" and "i < 256" and "2 ^ Suc i dvd be_val a"
  shows "uint256_ok (uint256_set_bit a i)" and "be_val (uint256_set_bit a i) = be_val a + 2 ^ i"
proof -
  define k where "k = 31 - i div 8"
  have k: "k < length a" "length a - Suc k = i div 8"
    using assms(1,2) by (auto simp: k_def uint256_ok_def)
  have pow: "(2 :: nat) ^ i = 2 ^ (i mod 8) * 256 ^ (i div 8)"
  proof -
    have "(2 :: nat) ^ i = 2 ^ (i mod 8 + 8 * (i div 8))" by simp
    then show ?thesis by (simp only: power_add power_mult) simp
  qed
  from assms(3) obtain c where "be_val a = 2 ^ Suc i * c" by (rule dvdE)
  then have "be_val a = 2 ^ Suc (i mod 8) * c * 256 ^ (i div 8)"
    by (simp only: pow power_Suc mult_ac)
  with be_val_nth [OF k(1)] k(2)
  have "be_val (take k a) * 2 ^ 8 + unat (a ! k) = 2 ^ Suc (i mod 8) * c"
    by simp
  then have "2 ^ Suc (i mod 8) dvd be_val (take k a) * 2 ^ 8 + unat (a ! k)"
    by (rule ssubst) (rule dvd_triv_left)
  moreover have "(2 :: nat) ^ Suc (i mod 8) dvd 2 ^ 8"
    by (rule le_imp_power_dvd) (simp add: Suc_leI)
  ultimately have "2 ^ Suc (i mod 8) dvd unat (a ! k)"
    using dvd_add_right_iff dvd_mult by blast
  then have "unat (a ! k OR push_bit (i mod 8) 1) = unat (a ! k) + 2 ^ (i mod 8)"
    by (intro or_push_bit_val) simp_all
  moreover have "uint256_set_bit a i = a[k := a ! k OR push_bit (i mod 8) 1]"
    by (simp only: uint256_set_bit_def k_def)
  ultimately show "be_val (uint256_set_bit a i) = be_val a + 2 ^ i"
    by (simp only: be_val_split [OF k(1)] be_val_update [OF k(1)] k(2) pow distrib_right add_ac)
  show "uint256_ok (uint256_set_bit a i)"
    using assms(1) by (simp add: uint256_set_bit_def uint256_ok_def)
qed

lemma wrapping_sub_shifted:
  fixes x y z m :: nat
  assumes "2 * x = z + (if high then m else 0)" and "x < y" and "y < m" and "y \<le> 2 * x"
  shows "(if y \<le> z then z - y else z + m - y) = 2 * x - y"
  using assms by (cases high) auto

lemma divide_step_val:
  assumes ok: "uint256_ok d" "uint256_ok r" "uint256_ok q"
    and k: "k < 256" "2 ^ Suc k dvd be_val q" and less: "be_val r < be_val d"
  shows "divide_step d k (r, q) =
    (u256 (2 * be_val r mod be_val d), u256 (be_val q + 2 * be_val r div be_val d * 2 ^ k))"
proof -
  obtain out high where sh: "shift_left_one r = (out, high)" by fastforce
  note out = shift_left_one_val [OF ok(2) sh]
  have le: "bytes_le d out \<longleftrightarrow> be_val d \<le> be_val out"
    using ok(1) out(1) by (simp add: bytes_le_iff_be_val uint256_ok_def)
  have d: "be_val d < 2 ^ 256" and o: "be_val out < 2 ^ 256"
    using uint256_less [OF ok(1)] uint256_less [OF out(1)] .
  show ?thesis
  proof (cases "be_val d \<le> 2 * be_val r")
    case True
    have taken: "high \<or> bytes_le d out"
      using True out(2) le by (cases high) simp_all
    have "2 * be_val r mod be_val d = 2 * be_val r - be_val d" "2 * be_val r div be_val d = 1"
      using True less by (simp_all add: le_mod_geq le_div_geq)
    then have "uint256_wrapping_sub out d = u256 (2 * be_val r mod be_val d)"
      "uint256_set_bit q k = u256 (be_val q + 2 * be_val r div be_val d * 2 ^ k)"
      using uint256_wrapping_sub_val [OF out(1) ok(1)] uint256_set_bit_val [OF ok(3) k]
        wrapping_sub_shifted [OF out(2) less d True]
      by (auto intro!: uint256_eqI)
    with k(1) taken show ?thesis by (simp add: divide_step_def sh)
  next
    case False
    then have "\<not> high" "be_val out = 2 * be_val r"
      using out(2) d by (cases high; simp)+
    with False le ok(3) out(1) show ?thesis
      using k(1) by (simp add: divide_step_def sh uint256_eqI u256_be_val)
  qed
qed


lemma double_div: "0 < d \<Longrightarrow> 2 * n div d = 2 * (n div d) + 2 * (n mod d) div d" for d n :: nat
proof -
  assume "0 < d"
  have "2 * n = 2 * (n div d * d + n mod d)" by (simp only: div_mult_mod_eq)
  also have "\<dots> = (2 * (n div d)) * d + 2 * (n mod d)" by (simp only: distrib_left mult.assoc)
  finally show ?thesis using \<open>0 < d\<close> by (simp only: div_mult_self3 neq0_conv)
qed

lemma divide_loop_val:
  assumes ok: "uint256_ok d" and d: "2 \<le> be_val d" and k: "k \<le> 256"
  shows "fold (divide_step d) (rev [k..<256]) (u256 1, u256 0) =
    (u256 (2 ^ (256 - k) mod be_val d), u256 (2 ^ (256 - k) div be_val d * 2 ^ k))"
  using k
proof (induction k rule: inc_induct)
  case base
  then show ?case using d by simp
next
  case (step k)
  define n where "n = (2 :: nat) ^ (256 - Suc k)"
  have n: "2 ^ (256 - k) = 2 * n"
    using step.hyps by (simp add: n_def Suc_diff_Suc flip: power_Suc)
  have "n mod be_val d < be_val d" using d by simp
  with uint256_less [OF ok] have r: "be_val (u256 (n mod be_val d)) = n mod be_val d"
    by (simp only: be_val_u256 mod_less less_trans)
  have "n div be_val d * 2 ^ Suc k < n * 2 ^ Suc k"
    using d by (simp add: n_def)
  also have "n * 2 ^ Suc k = 2 ^ 256"
    using step.hyps by (simp only: n_def flip: power_add) simp
  finally have q: "be_val (u256 (n div be_val d * 2 ^ Suc k)) = n div be_val d * 2 ^ Suc k"
    by (simp only: be_val_u256 mod_less)
  have "rev [k..<256] = rev [Suc k..<256] @ [k]"
    using step.hyps by (simp add: upt_conv_Cons)
  then have "fold (divide_step d) (rev [k..<256]) (u256 1, u256 0) =
      divide_step d k (u256 (n mod be_val d), u256 (n div be_val d * 2 ^ Suc k))"
    using step.IH by (simp add: n_def)
  also have "\<dots> = (u256 (2 * (n mod be_val d) mod be_val d),
      u256 (n div be_val d * 2 ^ Suc k + 2 * (n mod be_val d) div be_val d * 2 ^ k))"
    using divide_step_val [OF ok, of "u256 (n mod be_val d)" "u256 (n div be_val d * 2 ^ Suc k)" k]
      step.hyps d by (simp add: r q del: power_Suc)
  also have "2 * (n mod be_val d) mod be_val d = 2 * n mod be_val d" by (rule mod_mult_right_eq)
  also have "n div be_val d * 2 ^ Suc k + 2 * (n mod be_val d) div be_val d * 2 ^ k =
      2 * n div be_val d * 2 ^ k"
    using d double_div [of "be_val d" n] by (simp add: distrib_right)
  finally show ?case by (simp add: n)
qed

lemma divide_step_first:
  assumes "uint256_ok d" and "2 \<le> be_val d"
  shows "divide_step d 256 (uint256_zero, uint256_zero) = (u256 1, u256 0)"
proof -
  have sh: "shift_left_one uint256_zero = (uint256_zero, False)" by code_simp
  have one: "uint256_zero[31 := uint256_zero ! 31 OR 1] = u256 1" by code_simp
  have "\<not> bytes_le d (u256 1)"
    using assms by (simp add: bytes_le_iff_be_val uint256_ok_def be_val_u256)
  then show ?thesis by (simp add: divide_step_def sh one Let_def) (simp add: uint256_zero_eq)
qed

lemma rev_upt_257: "rev [0..<257] = 256 # rev [0..<256]"
proof -
  have "257 = Suc 256" by simp
  then show ?thesis by (simp only: upt_Suc_append le0 rev_append rev.simps append.simps)
qed

lemma divide_two_to_256_spec:
  assumes "uint256_ok d"
  shows "divide_two_to_256 d = (if be_val d < 2 then None else Some (u256 (2 ^ 256 div be_val d)))"
proof (cases "be_val d < 2")
  case True
  then have "d = uint256_zero \<or> d = uint256_one"
    using assms uint256_eqI [of d] by (auto simp: uint256_zero_eq uint256_one_eq less_2_cases_iff)
  with True show ?thesis by (simp add: divide_two_to_256_def)
next
  case False
  then have "d \<noteq> uint256_zero" "d \<noteq> uint256_one"
    by (auto simp: uint256_zero_eq uint256_one_eq be_val_u256)
  moreover have "2 \<le> be_val d" using False by simp
  note loop = divide_loop_val [OF assms this le0] divide_step_first [OF assms this]
  ultimately have "divide_two_to_256 d = Some (u256 (2 ^ (256 - 0) div be_val d * 2 ^ 0))"
    by (simp only: divide_two_to_256_def rev_upt_257 fold_Cons o_apply loop snd_conv simp_thms if_False)
  with False show ?thesis by simp
qed


lemma uint256_eq_iff: "uint256_ok a \<Longrightarrow> uint256_ok b \<Longrightarrow> a = b \<longleftrightarrow> be_val a = be_val b"
  by (metis u256_be_val)

lemma be_val_uint256_zero [simp]: "be_val uint256_zero = 0"
  by (simp add: uint256_zero_eq be_val_u256)

lemma be_val_uint256_one [simp]: "be_val uint256_one = 1"
  by (simp add: uint256_one_eq be_val_u256)

lemma uint256_ok_zero [simp]: "uint256_ok uint256_zero"
  by (simp add: uint256_zero_eq)

lemma uint256_ok_one [simp]: "uint256_ok uint256_one"
  by (simp add: uint256_one_eq)

lemma uint256_is_zero: "uint256_ok a \<Longrightarrow> a = uint256_zero \<longleftrightarrow> be_val a = 0"
  by (simp add: uint256_eq_iff)

lemma uint256_is_one: "uint256_ok a \<Longrightarrow> a = uint256_one \<longleftrightarrow> be_val a = 1"
  by (simp add: uint256_eq_iff)

lemma be_val_replicate_ff: "be_val (replicate n 0xff) + 1 = 256 ^ n"
  by (induction n) simp_all

lemma u256_max: "replicate 32 0xff = u256 (2 ^ 256 - 1)"
  using be_val_replicate_ff [of 32]
  by (intro uint256_eqI) (simp_all add: uint256_ok_def)

lemma two_256_div_less: "2 \<le> n \<Longrightarrow> 2 ^ 256 div n < (2 ^ 256 :: nat)"
  by (rule div_less_dividend) simp_all

lemma work_for_target_spec:
  assumes "uint256_ok t"
  shows "work_for_target t =
    (if be_val t = 0 then None else Some (u256 (2 ^ 256 div (be_val t + 1))))"
proof (cases "be_val t + 1 < 2 ^ 256")
  case True
  have "2 \<le> be_val (u256 (be_val t + 1))" if "be_val t \<noteq> 0"
    using that True by (simp add: be_val_u256)
  with True show ?thesis
    by (simp add: work_for_target_def uint256_is_zero assms uint256_checked_add_spec
        divide_two_to_256_spec be_val_u256)
next
  case False
  with uint256_less [OF assms] have "be_val t + 1 = 2 ^ 256" by linarith
  then show ?thesis
    using assms
    by (simp add: work_for_target_def uint256_is_zero uint256_checked_add_spec)
      (simp add: uint256_one_eq)
qed

lemma target_for_work_spec:
  assumes "uint256_ok w"
  shows "target_for_work w =
    (if be_val w = 0 then None else Some (u256 (2 ^ 256 div be_val w - 1)))"
proof (cases "be_val w \<le> 1")
  case True
  then show ?thesis
    by (auto simp: target_for_work_def uint256_is_zero uint256_is_one assms u256_max le_Suc_eq)
next
  case False
  then have less: "2 ^ 256 div be_val w < 2 ^ 256"
    by (intro two_256_div_less) simp
  have "be_val w \<le> 2 ^ 256" using uint256_less [OF assms] by simp
  with False have "1 \<le> 2 ^ 256 div be_val w"
    by (simp only: Suc_le_eq div_greater_zero_iff One_nat_def) simp
  with False less show ?thesis
    by (simp add: target_for_work_def uint256_is_zero uint256_is_one assms divide_two_to_256_spec
        uint256_checked_sub_spec be_val_u256)
qed

subsection \<open>Properties\<close>

text \<open>
  The byte loops of \<^verbatim>\<open>Uint256\<close> compute exact 256-bit arithmetic.  On every two values
  the checked sum, difference, product with a \<^verbatim>\<open>u64\<close> and quotient by a \<^verbatim>\<open>u64\<close> return the
  mathematical result when it fits 256 bits, and \<^verbatim>\<open>None\<close> exactly on overflow, underflow and
  division by zero.
\<close>

theorem uint256_arithmetic_exact:
  assumes "uint256_ok a" and "uint256_ok b"
  shows "uint256_checked_add a b =
      (if be_val a + be_val b < 2 ^ 256 then Some (u256 (be_val a + be_val b)) else None) \<and>
    uint256_checked_sub a b =
      (if be_val b \<le> be_val a then Some (u256 (be_val a - be_val b)) else None) \<and>
    uint256_checked_mul_u64 a m =
      (if be_val a * unat m < 2 ^ 256 then Some (u256 (be_val a * unat m)) else None) \<and>
    uint256_div_u64 a m = (if m = 0 then None else Some (u256 (be_val a div unat m)))"
  using assms uint256_checked_add_spec uint256_checked_sub_spec uint256_checked_mul_u64_spec
    uint256_div_u64_spec by blast

theorem uint256_arithmetic_exact_witness:
  "uint256_checked_add (u256 500) (u256 700) = Some (u256 1200) \<and>
   uint256_checked_sub (u256 500) (u256 700) = None \<and>
   uint256_checked_mul_u64 (u256 500) 7 = Some (u256 3500) \<and>
   uint256_div_u64 (u256 500) 7 = Some (u256 71)"
  using uint256_arithmetic_exact [of "u256 500" "u256 700" 7] by (simp add: be_val_u256)

text \<open>
  C15: the work of a target.  The 257-step bit-serial division computes
  \<open>2 ^ 256 div (target + 1)\<close> for every nonzero target, the all-ones target included, where the
  divisor itself does not fit 256 bits; the zero target has no work.
\<close>

theorem work_for_target_exact:
  assumes "uint256_ok t"
  shows "work_for_target t =
    (if be_val t = 0 then None else Some (u256 (2 ^ 256 div (be_val t + 1))))"
  using assms by (rule work_for_target_spec)

theorem work_for_target_exact_witness:
  "work_for_target (replicate 32 0xff) = Some (u256 1)"
  using work_for_target_exact [of "u256 (2 ^ 256 - 1)"]
  by (simp only: u256_max) (simp add: be_val_u256)

text \<open>
  C16: \<^verbatim>\<open>target_for_work\<close> is the Galois adjoint of \<^verbatim>\<open>work_for_target\<close>: for a nonzero work \<open>w\<close> it
  returns a target \<open>l\<close> such that a nonzero target carries at least the work \<open>w\<close> exactly when it
  does not exceed \<open>l\<close>.
\<close>

theorem target_for_work_adjoint:
  assumes "uint256_ok w" and "be_val w \<noteq> 0" and "uint256_ok t" and "be_val t \<noteq> 0"
  shows "\<exists>l v. target_for_work w = Some l \<and> work_for_target t = Some v \<and>
    (be_val w \<le> be_val v \<longleftrightarrow> be_val t \<le> be_val l)"
proof -
  let ?q = "(2 :: nat) ^ 256 div be_val w" and ?v = "(2 :: nat) ^ 256 div (be_val t + 1)"
  have "?q \<le> 2 ^ 256" by (rule div_le_dividend)
  moreover have "be_val w \<le> 2 ^ 256" using uint256_less [OF assms(1)] by (rule less_imp_le)
  then have "0 < ?q" using assms(2) by (simp only: div_greater_zero_iff) blast
  ultimately have l: "be_val (u256 (?q - 1)) = ?q - 1"
    by (simp only: be_val_u256) (intro mod_less, linarith)
  have "?v < 2 ^ 256" using assms(4) by (intro two_256_div_less) simp
  then have v: "be_val (u256 ?v) = ?v" by (simp only: be_val_u256 mod_less)
  have "be_val w \<le> ?v \<longleftrightarrow> be_val w * (be_val t + 1) \<le> 2 ^ 256"
    by (simp only: less_eq_div_iff_mult_less_eq zero_less_Suc Suc_eq_plus1 [symmetric])
  also have "\<dots> \<longleftrightarrow> be_val t + 1 \<le> ?q"
    using assms(2) by (simp only: less_eq_div_iff_mult_less_eq neq0_conv mult.commute)
  also have "\<dots> \<longleftrightarrow> be_val t \<le> ?q - 1" using \<open>0 < ?q\<close> by linarith
  finally show ?thesis
    using assms by (simp only: target_for_work_spec work_for_target_spec if_False l v ex_simps
        option.inject simp_thms)
qed

theorem target_for_work_adjoint_witness:
  "\<exists>l v. target_for_work (u256 1000) = Some l \<and> work_for_target (u256 9) = Some v \<and>
    (be_val (u256 1000) \<le> be_val v \<longleftrightarrow> be_val (u256 9) \<le> be_val l)"
  using target_for_work_adjoint [of "u256 1000" "u256 9"] by (simp add: be_val_u256)

end
