(* ===== verification/Compact_Target.thy ===== *)
theory Compact_Target
  imports Uint256
begin

text \<open>
  The compact encoding of a proof-of-work target (\<^verbatim>\<open>CompactTarget\<close> in
  \<^verbatim>\<open>crates/hns-primitives/src/lib.rs\<close>): an exponent byte, a sign bit and a 23-bit mantissa.
  Decoding is refined to \<open>mantissa * 256 ^ (exponent - 3)\<close> with the overflow flag raised exactly
  when that number leaves 256 bits; encoding keeps the leading bytes of the target, and decoding
  its result gives the target rounded down to the granularity of the encoding.
\<close>

subsection \<open>Definitions\<close>

record compact_target =
  ct_bytes :: bytes
  ct_negative :: bool
  ct_overflow :: bool

text \<open>One iteration of the mantissa loop: the byte lands at a position or overflows.\<close>

definition ct_place :: "nat \<Rightarrow> nat \<times> u8 \<Rightarrow> bytes \<times> bool \<Rightarrow> bytes \<times> bool" where
  "ct_place exponent entry state =
     (let (offset, byte) = entry; (bytes, overflow) = state;
          position = 32 - int exponent + int offset
      in if \<not> (0 \<le> position \<and> position < 32) then (bytes, overflow \<or> byte \<noteq> 0)
         else (bytes[nat position := byte], overflow))"

definition compact_from_bits :: "u32 \<Rightarrow> compact_target" where
  "compact_from_bits bits =
     (if bits = 0 then \<lparr>ct_bytes = replicate 32 0, ct_negative = False, ct_overflow = False\<rparr>
      else
        let exponent = unat (drop_bit 24 bits);
            negative = (drop_bit 23 bits AND 1 \<noteq> 0);
            mantissa = bits AND 0x007fffff
        in if exponent \<le> 3 then
             let value = drop_bit (8 * (3 - exponent)) mantissa
             in \<lparr>ct_bytes = replicate 29 0 @ drop 1 (to_be_bytes value),
                 ct_negative = negative, ct_overflow = False\<rparr>
           else
             let mantissa_bytes =
                   [ucast (drop_bit 16 mantissa AND 0xff), ucast (drop_bit 8 mantissa AND 0xff),
                    ucast (mantissa AND 0xff)];
                 (bytes, overflow) =
                   fold (ct_place exponent) (enumerate 0 mantissa_bytes) (replicate 32 0, False)
             in \<lparr>ct_bytes = bytes, ct_negative = negative, ct_overflow = overflow\<rparr>)"

definition ct_is_zero :: "compact_target \<Rightarrow> bool" where
  "ct_is_zero t \<longleftrightarrow> list_all (\<lambda>b. b = 0) (ct_bytes t)"

definition ct_is_valid :: "compact_target \<Rightarrow> bool" where
  "ct_is_valid t \<longleftrightarrow> \<not> ct_negative t \<and> \<not> ct_overflow t \<and> \<not> ct_is_zero t"

definition is_met_by :: "compact_target \<Rightarrow> bytes \<Rightarrow> bool" where
  "is_met_by t h \<longleftrightarrow> ct_is_valid t \<and> bytes_le h (ct_bytes t)"

definition ct_proof :: "compact_target \<Rightarrow> uint256 option" where
  "ct_proof t = (if ct_is_valid t then work_for_target (ct_bytes t) else None)"

text \<open>\<^verbatim>\<open>Iterator::position\<close>.\<close>

fun position_of :: "('a \<Rightarrow> bool) \<Rightarrow> 'a list \<Rightarrow> nat option" where
  "position_of P [] = None"
| "position_of P (x # xs) = (if P x then Some 0 else map_option Suc (position_of P xs))"

definition compact_from_target :: "uint256 \<Rightarrow> u32" where
  "compact_from_target bytes =
     (case position_of (\<lambda>b. b \<noteq> 0) bytes of
        None \<Rightarrow> 0
      | Some first \<Rightarrow>
          let exponent = 32 - first;
              mantissa =
                (if exponent \<le> 3 then
                   push_bit (8 * (3 - exponent))
                     (foldl (\<lambda>value byte. push_bit 8 value OR ucast byte) 0 (drop first bytes))
                 else push_bit 16 (ucast (bytes ! first)) OR
                   push_bit 8 (ucast (bytes ! (first + 1))) OR ucast (bytes ! (first + 2)));
              (mantissa, exponent) =
                (if mantissa AND 0x00800000 \<noteq> 0 then (drop_bit 8 mantissa, exponent + 1)
                 else (mantissa, exponent))
          in push_bit 24 (word_of_nat exponent) OR mantissa)"

subsection \<open>Decoding\<close>

lemma not_bit_above: "unat w < 2 ^ k \<Longrightarrow> k \<le> n \<Longrightarrow> \<not> bit w n"
proof -
  assume "unat w < 2 ^ k" "k \<le> n"
  then have "unat w < 2 ^ n"
    using power_increasing [of k n "2 :: nat"] by linarith
  then have "\<not> bit (unat w) n" by (simp add: bit_iff_odd)
  then show ?thesis by (simp add: bit_unsigned_iff)
qed

lemma push_bit_or_add:
  fixes v w :: "'a::len word"
  assumes "unat w < 2 ^ k" and "unat v * 2 ^ k + unat w < 2 ^ LENGTH('a)"
  shows "unat (push_bit k v OR w) = unat v * 2 ^ k + unat w"
proof -
  have "push_bit k (unat v) < 2 ^ LENGTH('a)"
    using assms(2) by (simp only: push_bit_eq_mult)
  then have "unat (push_bit k v) = push_bit k (unat v)"
    by (simp only: unsigned_push_bit_eq take_bit_nat_eq_self)
  then have "unat (push_bit k v OR w) = push_bit k (unat v) OR unat w"
    by (simp only: unsigned_or_eq)
  also have "\<dots> = push_bit k (unat v) + unat w"
  proof (rule disjunctive_add_eq_or [symmetric])
    show "push_bit k (unat v) AND unat w = 0"
      using not_bit_above [OF assms(1)] by (intro bit_eqI) (auto simp: bit_simps)
  qed
  finally show ?thesis by (simp only: push_bit_eq_mult)
qed

lemma be_val_update_0:
  "k < length bs \<Longrightarrow> bs ! k = 0 \<Longrightarrow>
    be_val (bs[k := x]) = be_val bs + unat x * 256 ^ (length bs - Suc k)"
  by (simp add: be_val_split [of k bs] be_val_update distrib_right)

lemma unat_and_mask: "unat (w AND mask k) = unat w mod 2 ^ k" for w :: "'a::len word"
  by (simp only: take_bit_eq_mask [symmetric] unsigned_take_bit_eq) (simp add: take_bit_eq_mod)

lemma unat_and_ff: "unat (w AND 0xff) = unat w mod 256" for w :: u32
  using unat_and_mask [of w 8] by (simp add: mask_eq_exp_minus_1)

text \<open>
  The state of the mantissa loop after the bytes of the number \<open>v\<close>: the bytes denote
  \<open>v * 256 ^ k\<close>, or the flag says that this number needs more than 256 bits.
\<close>

definition placed :: "nat \<Rightarrow> nat \<Rightarrow> bytes \<times> bool \<Rightarrow> bool" where
  "placed k v state \<longleftrightarrow> length (fst state) = 32 \<and> (snd state \<longleftrightarrow> 2 ^ 256 \<le> v * 256 ^ k) \<and>
     (\<not> snd state \<longrightarrow> be_val (fst state) = v * 256 ^ k)"

lemma placed_inside:
  assumes "k < 32" and "placed (Suc k) v (bs, ov)"
  shows "placed k (v * 256 + unat x) (bs[31 - k := x], ov)"
proof -
  have len: "length bs = 32" and ov: "ov \<longleftrightarrow> 2 ^ 256 \<le> v * 256 ^ Suc k"
    and val: "\<not> ov \<Longrightarrow> be_val bs = v * 256 ^ Suc k"
    using assms(2) unfolding placed_def fst_conv snd_conv by blast+
  have new: "(v * 256 + unat x) * 256 ^ k = v * 256 ^ Suc k + unat x * 256 ^ k"
    by (simp add: algebra_simps)
  show ?thesis
  proof (cases ov)
    case True
    with ov have "2 ^ 256 \<le> (v * 256 + unat x) * 256 ^ k" unfolding new by (simp only: trans_le_add1)
    with True len show ?thesis by (simp only: placed_def fst_conv snd_conv length_list_update simp_thms)
  next
    case False
    have pos: "31 - k < length bs" "length bs - Suc (31 - k) = k" using assms(1) len by simp_all
    have "be_val (take (31 - k) bs) * 256 + unat (bs ! (31 - k)) = v * 256"
      using be_val_nth [OF pos(1)] unfolding pos(2) val [OF False] by simp
    from arg_cong [OF this, of "\<lambda>n. n mod 256"] have "bs ! (31 - k) = 0"
      by (simp add: word_unat_eq_iff)
    from be_val_update_0 [OF pos(1) this] val [OF False]
    have upd: "be_val (bs[31 - k := x]) = (v * 256 + unat x) * 256 ^ k"
      by (simp only: pos(2) new)
    have "uint256_ok (bs[31 - k := x])" using len by (simp add: uint256_ok_def)
    from uint256_less [OF this] False len upd show ?thesis
      by (simp only: placed_def fst_conv snd_conv length_list_update not_le simp_thms)
  qed
qed

lemma placed_outside:
  assumes "32 \<le> k" and "placed (Suc k) v (bs, ov)"
  shows "placed k (v * 256 + unat x) (bs, ov \<or> x \<noteq> 0)"
proof -
  have "(2 :: nat) ^ 256 = 256 ^ 32" by simp
  also have "\<dots> \<le> 256 ^ k" using assms(1) by (intro power_increasing) simp_all
  finally have big: "2 ^ 256 \<le> n * 256 ^ k \<longleftrightarrow> n \<noteq> 0" for n :: nat
    by (cases n) (simp_all add: trans_le_add1)
  have "2 ^ 256 \<le> v * 256 ^ Suc k \<longleftrightarrow> v \<noteq> 0"
    using big [of "v * 256"] by (simp only: power_Suc mult.assoc mult_eq_0_iff) simp
  with assms(2) have "length bs = 32" "ov \<longleftrightarrow> v \<noteq> 0" "v = 0 \<Longrightarrow> be_val bs = 0"
    by (simp_all only: placed_def fst_conv snd_conv mult_0 simp_thms)
  then show ?thesis
    by (simp only: placed_def big fst_conv snd_conv) (simp add: unat_eq_zero)
qed

lemma ct_place_placed:
  assumes "e = Suc (i + k)" and "placed (Suc k) v state"
  shows "placed k (v * 256 + unat x) (ct_place e (i, x) state)"
proof (cases state)
  case (Pair bs ov)
  show ?thesis
  proof (cases "k < 32")
    case True
    then have "0 \<le> 32 - int e + int i" "32 - int e + int i < 32"
      "nat (32 - int e + int i) = 31 - k"
      using assms(1) by linarith+
    then have "ct_place e (i, x) state = (bs[31 - k := x], ov)"
      by (simp only: ct_place_def Pair Let_def case_prod_conv simp_thms if_False)
    with placed_inside [OF True assms(2) [unfolded Pair]] show ?thesis by simp
  next
    case False
    then have "\<not> 0 \<le> 32 - int e + int i" using assms(1) by linarith
    then have "ct_place e (i, x) state = (bs, ov \<or> x \<noteq> 0)"
      by (simp only: ct_place_def Pair Let_def case_prod_conv simp_thms if_True)
    with placed_outside [of k v bs ov x] False assms(2) Pair show ?thesis by simp
  qed
qed

lemma fold_place:
  assumes "4 \<le> e"
  shows "placed (e - 3) (be_val [a, b, c])
    (fold (ct_place e) (enumerate 0 [a, b, c]) (replicate 32 0, False))"
proof -
  define st :: "bytes \<times> bool" where "st = (replicate 32 0, False)"
  define k where "k = e - 3"
  then have e: "e = Suc (0 + Suc (Suc k))" "e = Suc (1 + Suc k)" "e = Suc (2 + k)"
    using assms by linarith+
  have "placed (Suc (Suc (Suc k))) 0 st"
    unfolding st_def placed_def by (simp only: fst_conv snd_conv be_val_replicate_0 length_replicate) simp
  from ct_place_placed [OF e(3) ct_place_placed [OF e(2) ct_place_placed [OF e(1) this]]]
  have "placed k (((0 * 256 + unat a) * 256 + unat b) * 256 + unat c)
      (ct_place e (2, c) (ct_place e (1, b) (ct_place e (0, a) st)))" .
  moreover have "((0 * 256 + unat a) * 256 + unat b) * 256 + unat c = be_val [a, b, c]"
    by simp
  moreover have "enumerate 0 [a, b, c] = [(0, a), (1, b), (2, c)]" by simp
  ultimately show ?thesis by (simp only: st_def fold_simps k_def)
qed

text \<open>The fields of the bits, and the number they denote.\<close>

definition bits_exponent :: "u32 \<Rightarrow> nat" where
  "bits_exponent bits = unat bits div 2 ^ 24"

definition bits_mantissa :: "u32 \<Rightarrow> nat" where
  "bits_mantissa bits = unat bits mod 2 ^ 23"

definition compact_value :: "nat \<Rightarrow> nat \<Rightarrow> nat" where
  "compact_value e m = (if e \<le> 3 then m div 256 ^ (3 - e) else m * 256 ^ (e - 3))"

lemma unat_mantissa: "unat (bits AND 0x007fffff) = bits_mantissa bits"
  using unat_and_mask [of bits 23] by (simp add: mask_eq_exp_minus_1 bits_mantissa_def)

lemma unat_exponent: "unat (drop_bit 24 bits) = bits_exponent bits" for bits :: u32
  by (simp add: bits_exponent_def unat_drop_bit)

lemma mantissa_less: "bits_mantissa bits < 2 ^ 23"
  by (simp add: bits_mantissa_def)

lemma sign_bit: "drop_bit 23 bits AND 1 \<noteq> 0 \<longleftrightarrow> bit bits 23" for bits :: u32
  by (simp add: and_one_eq mod_2_eq_odd bit_iff_odd_drop_bit)

lemma be_val_mantissa_bytes:
  fixes m :: u32
  assumes "unat m < 2 ^ 24"
  shows "be_val [ucast (drop_bit 16 m AND 0xff), ucast (drop_bit 8 m AND 0xff), ucast (m AND 0xff)] =
    unat m"
proof -
  have "unat m div 65536 mod 256 = unat m div 65536"
    using assms by simp
  moreover have "unat m div 65536 = unat m div 256 div 256" by (simp flip: div_mult2_eq)
  then have "unat m div 65536 * 65536 + (unat m div 256 mod 256 * 256 + unat m mod 256) = unat m"
    using div_mult_mod_eq [of "unat m" 256] div_mult_mod_eq [of "unat m div 256" 256] by linarith
  ultimately show ?thesis
    by (simp add: unat_ucast_u8 unat_and_ff unat_drop_bit)
qed

lemma be_val_drop_1:
  fixes v :: u32
  assumes "unat v < 2 ^ 24"
  shows "be_val (replicate 29 0 @ drop 1 (to_be_bytes v)) = unat v"
proof -
  obtain b bs where bs: "to_be_bytes v = b # bs" "length bs = 3"
    by (cases "to_be_bytes v") (use length_to_be_bytes [of v] in auto)
  have "unat b * 256 ^ 3 + be_val bs = unat v"
    using be_val_to_be_bytes [of v] bs by simp
  moreover from this have "unat b = 0" using assms by simp
  ultimately show ?thesis by (simp only: bs be_val_replicate_append) simp
qed

lemma compact_from_bits_spec:
  "length (ct_bytes (compact_from_bits bits)) = 32 \<and>
   ct_negative (compact_from_bits bits) = bit bits 23 \<and>
   (ct_overflow (compact_from_bits bits) \<longleftrightarrow>
     2 ^ 256 \<le> compact_value (bits_exponent bits) (bits_mantissa bits)) \<and>
   (\<not> ct_overflow (compact_from_bits bits) \<longrightarrow>
     be_val (ct_bytes (compact_from_bits bits)) =
       compact_value (bits_exponent bits) (bits_mantissa bits))"
proof -
  define m where "m = (bits AND 0x007fffff :: u32)"
  have m: "unat m = bits_mantissa bits" "unat m < 2 ^ 23" "unat m < 2 ^ 24"
    using mantissa_less [of bits] by (simp_all add: m_def unat_mantissa)
  consider "bits = 0" | "bits \<noteq> 0" "bits_exponent bits \<le> 3" | "bits \<noteq> 0" "4 \<le> bits_exponent bits"
    by linarith
  then show ?thesis
  proof cases
    case 1
    then show ?thesis
      by (simp add: compact_from_bits_def compact_value_def bits_exponent_def bits_mantissa_def
          be_val_replicate_0 del: replicate.simps)
  next
    case 2
    define v where "v = drop_bit (8 * (3 - bits_exponent bits)) m"
    have v: "unat v = compact_value (bits_exponent bits) (bits_mantissa bits)"
      using 2 by (simp add: v_def unat_drop_bit compact_value_def m power_256_bits)
    moreover have "unat v \<le> unat m" by (simp add: v_def unat_drop_bit)
    ultimately have "unat v < 2 ^ 24" "unat v < 2 ^ 256" using m(3) by simp_all
    with v 2 be_val_drop_1 [of v] show ?thesis
      by (simp add: compact_from_bits_def unat_exponent sign_bit flip: m_def v_def)
  next
    case 3
    obtain bs ov where f: "fold (ct_place (bits_exponent bits)) (enumerate 0
      [ucast (drop_bit 16 m AND 0xff), ucast (drop_bit 8 m AND 0xff), ucast (m AND 0xff)])
      (replicate 32 0, False) = (bs, ov)" by fastforce
    with fold_place [OF 3(2)] be_val_mantissa_bytes [OF m(3)] m(1)
    have "placed (bits_exponent bits - 3) (bits_mantissa bits) (bs, ov)" by metis
    then show ?thesis
      using 3 f by (simp add: compact_from_bits_def unat_exponent sign_bit Let_def placed_def
          compact_value_def flip: m_def)
  qed
qed

subsection \<open>Encoding\<close>

lemma position_of_SomeD:
  "position_of P xs = Some i \<Longrightarrow> i < length xs \<and> P (xs ! i) \<and> (\<forall>j < i. \<not> P (xs ! j))"
proof (induction xs arbitrary: i)
  case (Cons x xs)
  then show ?case by (cases i) (auto simp: less_Suc_eq_0_disj split: if_splits)
qed simp

lemma position_of_NoneD: "position_of P xs = None \<Longrightarrow> x \<in> set xs \<Longrightarrow> \<not> P x"
  by (induction xs) (auto split: if_splits)

text \<open>The number of significant bytes of a number.\<close>

definition byte_length :: "nat \<Rightarrow> nat \<Rightarrow> bool" where
  "byte_length n e \<longleftrightarrow> 1 \<le> e \<and> 256 ^ (e - 1) \<le> n \<and> n < 256 ^ e"

lemma byte_length_unique: "byte_length n e \<Longrightarrow> byte_length n e' \<Longrightarrow> e = e'"
proof (induction e e' rule: linorder_wlog)
  case (le e e')
  then have "256 ^ (e' - 1) \<le> n" "n < 256 ^ e" by (simp_all only: byte_length_def)
  then have "(256 :: nat) ^ (e' - 1) < 256 ^ e" by (rule le_less_trans)
  then have "e' - 1 < e" by (rule power_less_imp_less_exp [rotated]) simp
  with le show ?case by (simp add: byte_length_def)
qed simp

lemma byte_length_pos: "byte_length n e \<Longrightarrow> 0 < n"
  using zero_less_power [of "256 :: nat" "e - 1"] unfolding byte_length_def by linarith

lemma first_nonzero_byte:
  assumes "uint256_ok t" and "position_of (\<lambda>b. b \<noteq> 0) t = Some first"
  shows "first < 32" and "be_val (drop first t) = be_val t" and "byte_length (be_val t) (32 - first)"
proof -
  note p = position_of_SomeD [OF assms(2)]
  show first: "first < 32" using p assms(1) by (simp add: uint256_ok_def)
  have "take first t = replicate first 0"
    using p by (intro nth_equalityI) auto
  then have "t = replicate first 0 @ drop first t" by (metis append_take_drop_id)
  then show eq: "be_val (drop first t) = be_val t" by (metis be_val_replicate_append)
  have "drop first t = t ! first # drop (Suc first) t"
    using p by (simp add: Cons_nth_drop_Suc)
  moreover have "1 \<le> unat (t ! first)" using p by (simp add: Suc_leI unat_gt_0)
  ultimately have "256 ^ length (drop (Suc first) t) \<le> be_val (drop first t)"
    by (simp add: trans_le_add1)
  moreover have "be_val (drop first t) < 256 ^ length (drop first t)" by (rule be_val_less)
  ultimately show "byte_length (be_val t) (32 - first)"
    using first assms(1) by (simp add: byte_length_def eq uint256_ok_def)
qed

lemma foldl_bytes_val:
  "unat v * 256 ^ length bs + be_val bs < 2 ^ 32 \<Longrightarrow>
    unat (foldl (\<lambda>value byte. push_bit 8 value OR ucast byte) v bs) =
    unat v * 256 ^ length bs + be_val bs" for v :: u32
proof (induction bs arbitrary: v)
  case (Cons b bs)
  have step: "(unat v * 256 + unat b) * 256 ^ length bs + be_val bs < 2 ^ 32"
    using Cons.prems by (simp add: algebra_simps)
  moreover have "unat v * 256 + unat b \<le> (unat v * 256 + unat b) * 256 ^ length bs" by simp
  ultimately have "unat v * 256 + unat b < 2 ^ 32" by linarith
  then have "unat (push_bit 8 v OR ucast b) = unat v * 256 + unat b"
    by (subst push_bit_or_add) (simp_all add: unat_ucast_up)
  with Cons.IH [of "push_bit 8 v OR ucast b"] step show ?case by (simp add: algebra_simps)
qed simp

lemma three_bytes_val:
  "unat (push_bit 16 (ucast a) OR push_bit 8 (ucast b) OR ucast c :: u32) = be_val [a, b, c]"
  for a b c :: u8
proof -
  have "push_bit 16 (ucast a) OR push_bit 8 (ucast b) OR (ucast c :: u32) =
      push_bit 8 (push_bit 8 (ucast a) OR ucast b) OR ucast c"
    by (simp only: push_bit_or push_bit_push_bit or.assoc) simp
  also have "\<dots> = foldl (\<lambda>value byte. push_bit 8 value OR ucast byte) 0 [a, b, c]"
    by simp
  also have "unat \<dots> = unat (0 :: u32) * 256 ^ length [a, b, c] + be_val [a, b, c]"
  proof (rule foldl_bytes_val)
    have "be_val [a, b, c] < 256 ^ 3" using be_val_less [of "[a, b, c]"] by simp
    then show "unat (0 :: u32) * 256 ^ length [a, b, c] + be_val [a, b, c] < 2 ^ 32"
      by (simp only: unsigned_0 mult_0 add_0) simp
  qed
  finally show ?thesis by (simp only: unsigned_0 mult_0 add_0)
qed

text \<open>The encoding as a function of the number and its length in bytes.\<close>

definition leading_bytes :: "nat \<Rightarrow> nat \<Rightarrow> nat" where
  "leading_bytes n e = (if e \<le> 3 then n * 256 ^ (3 - e) else n div 256 ^ (e - 3))"

definition compact_bits :: "nat \<Rightarrow> nat \<Rightarrow> nat" where
  "compact_bits n e =
     (if 2 ^ 23 \<le> leading_bytes n e then (e + 1) * 2 ^ 24 + leading_bytes n e div 256
      else e * 2 ^ 24 + leading_bytes n e)"

lemma leading_bytes_bounds:
  assumes "byte_length n e"
  shows "256 ^ 2 \<le> leading_bytes n e" and "leading_bytes n e < 256 ^ 3"
proof -
  have e: "1 \<le> e" and lo: "256 ^ (e - 1) \<le> n" and hi: "n < 256 ^ e"
    using assms by (simp_all only: byte_length_def)
  consider "e \<le> 3" | "3 < e" by linarith
  then have "256 ^ 2 \<le> leading_bytes n e \<and> leading_bytes n e < 256 ^ 3"
  proof cases
    case 1
    have "e - 1 + (3 - e) = 2" "e + (3 - e) = 3" using 1 e by linarith+
    then have "(256 :: nat) ^ (e - 1) * 256 ^ (3 - e) = 256 ^ 2"
      "(256 :: nat) ^ e * 256 ^ (3 - e) = 256 ^ 3"
      by (simp_all only: power_add [symmetric])
    then show ?thesis
      using 1 mult_le_mono1 [OF lo, of "256 ^ (3 - e)"] mult_less_mono1 [OF hi, of "256 ^ (3 - e)"]
      by (simp only: leading_bytes_def if_True zero_less_power zero_less_numeral)
  next
    case 2
    have "e - 1 = 2 + (e - 3)" "e = 3 + (e - 3)" using 2 by linarith+
    then have "(256 :: nat) ^ (e - 1) = 256 ^ 2 * 256 ^ (e - 3)"
      "(256 :: nat) ^ e = 256 ^ 3 * 256 ^ (e - 3)"
      by (metis power_add)+
    moreover have "\<not> e \<le> 3" using 2 by simp
    ultimately show ?thesis
      using lo hi by (simp only: leading_bytes_def if_False less_eq_div_iff_mult_less_eq
          div_less_iff_less_mult zero_less_power zero_less_numeral simp_thms)
  qed
  then show "256 ^ 2 \<le> leading_bytes n e" "leading_bytes n e < 256 ^ 3" by simp_all
qed

lemma unat_push_bit: "unat v * 2 ^ k < 2 ^ LENGTH('a) \<Longrightarrow> unat (push_bit k v) = unat v * 2 ^ k"
  for v :: "'a::len word"
  using push_bit_or_add [of 0 k v] by simp

lemma div_of_split: "n = q * d + r \<Longrightarrow> r < d \<Longrightarrow> n div d = q" for n q d r :: nat
  by simp

lemma mantissa_val:
  assumes "uint256_ok t" and "position_of (\<lambda>b. b \<noteq> 0) t = Some first"
  shows "unat (if 32 - first \<le> 3 then
      push_bit (8 * (3 - (32 - first)))
        (foldl (\<lambda>value byte. push_bit 8 value OR ucast byte) 0 (drop first t))
     else push_bit 16 (ucast (t ! first)) OR
       push_bit 8 (ucast (t ! (first + 1))) OR ucast (t ! (first + 2)) :: u32) =
    leading_bytes (be_val t) (32 - first)"
proof (cases "32 - first \<le> 3")
  case True
  note f = first_nonzero_byte [OF assms]
  let ?v = "foldl (\<lambda>value byte. push_bit 8 value OR ucast byte) (0 :: u32) (drop first t)"
  have lead: "leading_bytes (be_val t) (32 - first) = be_val t * 2 ^ (8 * (3 - (32 - first)))"
    using True by (simp only: leading_bytes_def if_True power_256_bits)
  have less: "be_val t * 2 ^ (8 * (3 - (32 - first))) < 2 ^ 32"
    using leading_bytes_bounds(2) [OF f(3)] unfolding lead by simp
  moreover have "be_val t \<le> be_val t * 2 ^ (8 * (3 - (32 - first)))" by simp
  ultimately have "be_val (drop first t) < 2 ^ 32" unfolding f(2) by linarith
  then have "unat ?v = be_val t" using foldl_bytes_val [of 0 "drop first t"] f(2) by simp
  then show ?thesis using True less by (simp only: lead if_True) (subst unat_push_bit, simp_all)
next
  case False
  note f = first_nonzero_byte [OF assms]
  have "drop first t = [t ! first, t ! (first + 1), t ! (first + 2)] @ drop (first + 3) t"
  proof -
    have "first < length t" "first + 1 < length t" "first + 2 < length t"
      using False assms(1) by (simp_all add: uint256_ok_def)
    moreover have "Suc first = first + 1" "Suc (first + 1) = first + 2" "Suc (first + 2) = first + 3"
      by simp_all
    ultimately show ?thesis by (metis Cons_nth_drop_Suc append_Cons append_Nil)
  qed
  then have "be_val t = be_val [t ! first, t ! (first + 1), t ! (first + 2)] * 256 ^ (32 - first - 3) +
      be_val (drop (first + 3) t)"
    using f(2) assms(1) be_val_append [of "[t ! first, t ! (first + 1), t ! (first + 2)]" "drop (first + 3) t"]
    by (simp only: length_drop uint256_ok_def diff_diff_left)
  moreover have "be_val (drop (first + 3) t) < 256 ^ (32 - first - 3)"
    using be_val_less [of "drop (first + 3) t"] assms(1) by (simp add: uint256_ok_def)
  ultimately have "be_val t div 256 ^ (32 - first - 3) =
      be_val [t ! first, t ! (first + 1), t ! (first + 2)]"
    by (rule div_of_split)
  with False show ?thesis by (simp only: if_False three_bytes_val leading_bytes_def)
qed

lemma first_nonzero_exists:
  assumes "be_val t \<noteq> 0"
  obtains first where "position_of (\<lambda>b. b \<noteq> 0) t = Some first"
proof (cases "position_of (\<lambda>b. b \<noteq> 0) t")
  case None
  from position_of_NoneD [OF None] have "t = replicate (length t) 0"
    by (metis (full_types) replicate_eqI)
  with assms show ?thesis by (metis be_val_replicate_0)
qed

lemma compact_word_val:
  assumes "e < 256" and "unat m < 2 ^ 24"
  shows "unat (push_bit 24 (word_of_nat e) OR m :: u32) = e * 2 ^ 24 + unat m"
proof -
  have "unat (word_of_nat e :: u32) = e" using assms(1) by (simp add: unat_of_nat)
  then show ?thesis using assms by (subst push_bit_or_add) simp_all
qed

lemma high_bit_of_24:
  fixes m :: u32
  assumes "unat m < 2 ^ 24"
  shows "m AND 0x00800000 \<noteq> 0 \<longleftrightarrow> 2 ^ 23 \<le> unat m"
proof -
  have "m AND 0x00800000 \<noteq> 0 \<longleftrightarrow> bit m 23"
    using and_exp_eq_0_iff_not_bit [of m 23] by simp
  also have "\<dots> \<longleftrightarrow> odd (unat m div 2 ^ 23)"
    using bit_iff_odd [of "unat m" 23] by (simp add: bit_unsigned_iff)
  also have "unat m div 2 ^ 23 = (if 2 ^ 23 \<le> unat m then 1 else 0)"
    using assms by (simp add: le_div_geq)
  finally show ?thesis by simp
qed

lemma compact_from_target_eq:
  assumes "uint256_ok t" and "byte_length (be_val t) e"
  shows "unat (compact_from_target t) = compact_bits (be_val t) e"
proof -
  have "be_val t \<noteq> 0" using byte_length_pos [OF assms(2)] by simp
  then obtain first where f: "position_of (\<lambda>b. b \<noteq> 0) t = Some first"
    by (rule first_nonzero_exists)
  then have e: "e = 32 - first"
    using first_nonzero_byte(3) [OF assms(1)] byte_length_unique [OF assms(2)] by simp
  define m :: u32 where "m = (if 32 - first \<le> 3 then
      push_bit (8 * (3 - (32 - first)))
        (foldl (\<lambda>value byte. push_bit 8 value OR ucast byte) 0 (drop first t))
     else push_bit 16 (ucast (t ! first)) OR
       push_bit 8 (ucast (t ! (first + 1))) OR ucast (t ! (first + 2)))"
  have m: "unat m = leading_bytes (be_val t) e"
    unfolding m_def e by (rule mantissa_val [OF assms(1) f])
  have less: "unat m < 2 ^ 24" using leading_bytes_bounds(2) [OF assms(2)] by (simp add: m)
  have def: "compact_from_target t =
      (if m AND 0x00800000 \<noteq> 0 then push_bit 24 (word_of_nat (e + 1)) OR drop_bit 8 m
       else push_bit 24 (word_of_nat e) OR m)"
    unfolding compact_from_target_def f Let_def option.case m_def [symmetric] e
    by (cases "m AND 0x00800000 = 0") (simp_all only: if_True if_False case_prod_conv simp_thms)
  have "unat (drop_bit 8 m) = unat m div 256" by (simp add: unat_drop_bit)
  moreover from this have "unat (drop_bit 8 m) < 2 ^ 24" using less by simp
  moreover have "e + 1 < 256" by (simp add: e)
  ultimately show ?thesis
    using less m high_bit_of_24 [OF less] compact_word_val [of "e + 1" "drop_bit 8 m"]
      compact_word_val [of e m]
    by (simp only: def compact_bits_def split: if_split) simp
qed


subsection \<open>Decoding an encoded target\<close>

text \<open>The exponent an encoded number gets, and the number its encoding stands for.\<close>

definition encoded_exponent :: "nat \<Rightarrow> nat \<Rightarrow> nat" where
  "encoded_exponent n e = (if 2 ^ 23 \<le> leading_bytes n e then e + 1 else e)"

definition rounded :: "nat \<Rightarrow> nat \<Rightarrow> nat" where
  "rounded n e = n div 256 ^ (encoded_exponent n e - 3) * 256 ^ (encoded_exponent n e - 3)"

lemma rounded_le: "rounded n e \<le> n"
  unfolding rounded_def by (rule div_times_less_eq_dividend)

lemma rounded_div_high:
  assumes "3 \<le> e"
  shows "n div 256 ^ (e + 1 - 3) = leading_bytes n e div 256"
proof -
  have "e + 1 - 3 = (e - 3) + 1" using assms by linarith
  then have "n div 256 ^ (e + 1 - 3) = n div 256 ^ (e - 3) div 256"
    by (simp only: power_add power_one_right div_mult2_eq)
  then show ?thesis using assms by (auto simp: leading_bytes_def)
qed

lemma compact_bits_fields:
  assumes "byte_length n e"
  shows "\<exists>m. compact_bits n e = encoded_exponent n e * 2 ^ 24 + m \<and> m < 2 ^ 23 \<and> 2 ^ 15 \<le> m \<and>
    compact_value (encoded_exponent n e) m = rounded n e \<and>
    (3 < encoded_exponent n e \<longrightarrow> m = n div 256 ^ (encoded_exponent n e - 3))"
proof (cases "2 ^ 23 \<le> leading_bytes n e")
  case True
  define m where "m = leading_bytes n e div 256"
  have enc: "encoded_exponent n e = e + 1" using True by (simp add: encoded_exponent_def)
  have "m < 2 ^ 23" "2 ^ 15 \<le> m"
    using True leading_bytes_bounds(2) [OF assms] div_le_mono [OF True, of 256] unfolding m_def by simp_all
  moreover have "compact_value (e + 1) m = rounded n e \<and> (3 < e + 1 \<longrightarrow> m = n div 256 ^ (e + 1 - 3))"
  proof (cases "3 \<le> e")
    case hi: True
    then show ?thesis
      using rounded_div_high [OF hi, of n] by (simp add: compact_value_def rounded_def enc m_def)
  next
    case False
    then have "3 - e = Suc (3 - (e + 1))" by linarith
    then have "leading_bytes n e = n * 256 ^ (3 - (e + 1)) * 256"
      using False by (simp add: leading_bytes_def)
    then have "m = n * 256 ^ (3 - (e + 1))" by (simp add: m_def)
    with False show ?thesis by (simp add: compact_value_def rounded_def enc)
  qed
  ultimately show ?thesis using True by (auto simp: compact_bits_def enc m_def)
next
  case False
  have enc: "encoded_exponent n e = e" using False by (simp add: encoded_exponent_def)
  have "compact_value e (leading_bytes n e) = rounded n e \<and>
      (3 < e \<longrightarrow> leading_bytes n e = n div 256 ^ (e - 3))"
    by (simp add: compact_value_def rounded_def enc leading_bytes_def)
  moreover have "2 ^ 15 \<le> leading_bytes n e" using leading_bytes_bounds(1) [OF assms] by simp
  ultimately show ?thesis using False by (auto simp: compact_bits_def enc)
qed

lemma word_fields:
  assumes "unat w = e * 2 ^ 24 + m" and "m < 2 ^ 23"
  shows "bits_exponent w = e" and "bits_mantissa w = m" and "\<not> bit w 23"
proof -
  show "bits_exponent w = e" using assms by (simp add: bits_exponent_def)
  have "unat w = (2 * e) * 2 ^ 23 + m" using assms(1) by simp
  with assms(2) have "unat w mod 2 ^ 23 = m" "unat w div 2 ^ 23 = 2 * e"
    by (simp_all only: mod_mult_self3 mod_less div_of_split)
  then show "bits_mantissa w = m" "\<not> bit w 23"
    using bit_iff_odd [of "unat w" 23] by (simp_all add: bits_mantissa_def bit_unsigned_iff)
qed

lemma rounded_error:
  assumes "byte_length n e"
  shows "(n - rounded n e) * 2 ^ 15 < rounded n e"
proof (cases "3 < encoded_exponent n e")
  case True
  let ?p = "(256 :: nat) ^ (encoded_exponent n e - 3)"
  have "2 ^ 15 \<le> n div ?p" using compact_bits_fields [OF assms] True by auto
  then have ge: "2 ^ 15 * ?p \<le> rounded n e" unfolding rounded_def by (rule mult_le_mono1)
  have "n - rounded n e < ?p"
    unfolding rounded_def by (simp add: minus_div_mult_eq_mod)
  then have "(n - rounded n e) * 2 ^ 15 < ?p * 2 ^ 15"
    by (rule mult_less_mono1) simp
  also have "\<dots> \<le> rounded n e" using ge by (simp only: mult.commute)
  finally show ?thesis .
next
  case False
  then show ?thesis using byte_length_pos [OF assms] by (simp add: rounded_def)
qed


lemma rounded_ge_power:
  assumes "byte_length n e"
  shows "256 ^ (e - 1) \<le> rounded n e"
proof -
  have "encoded_exponent n e \<le> e + 1" by (simp add: encoded_exponent_def)
  then have "encoded_exponent n e - 3 \<le> e - 1" by linarith
  then have "(256 :: nat) ^ (encoded_exponent n e - 3) dvd 256 ^ (e - 1)" by (rule le_imp_power_dvd)
  then obtain k where k: "(256 :: nat) ^ (e - 1) = k * 256 ^ (encoded_exponent n e - 3)"
    by (auto simp only: dvd_def mult.commute)
  then have "k * 256 ^ (encoded_exponent n e - 3) \<le> n"
    using assms by (simp only: byte_length_def)
  then have "k \<le> n div 256 ^ (encoded_exponent n e - 3)"
    by (simp only: less_eq_div_iff_mult_less_eq zero_less_power zero_less_numeral)
  then show ?thesis unfolding k rounded_def by (rule mult_le_mono1)
qed

lemma byte_length_rounded: "byte_length n e \<Longrightarrow> byte_length (rounded n e) e"
  using rounded_ge_power [of n e] rounded_le [of n e] by (auto simp: byte_length_def)

lemma leading_bytes_shift: "3 \<le> e \<Longrightarrow> leading_bytes (k * 256 ^ (e - 3)) e = k"
  by (cases "e = 3") (simp_all add: leading_bytes_def)

lemma leading_bytes_rounded:
  assumes "2 ^ 23 \<le> leading_bytes n e" and "3 \<le> e"
  shows "leading_bytes (rounded n e) e = leading_bytes n e div 256 * 256"
proof -
  have p: "(256 :: nat) ^ (e + 1 - 3) = 256 * 256 ^ (e - 3)"
  proof -
    have "e + 1 - 3 = Suc (e - 3)" using assms(2) by linarith
    then show ?thesis by (simp only: power_Suc)
  qed
  have "rounded n e = leading_bytes n e div 256 * 256 ^ (e + 1 - 3)"
    using assms rounded_div_high [OF assms(2), of n] by (simp add: rounded_def encoded_exponent_def)
  also have "\<dots> = leading_bytes n e div 256 * 256 * 256 ^ (e - 3)"
    by (simp only: p mult.assoc)
  finally show ?thesis using assms(2) by (simp only: leading_bytes_shift)
qed

lemma compact_bits_rounded:
  assumes "byte_length n e"
  shows "compact_bits (rounded n e) e = compact_bits n e"
proof (cases "2 ^ 23 \<le> leading_bytes n e \<and> 3 \<le> e")
  case True
  then have "(2 :: nat) ^ 23 div 256 * 256 \<le> leading_bytes n e div 256 * 256"
    by (intro mult_le_mono1 div_le_mono) simp
  then show ?thesis
    using True leading_bytes_rounded [of n e] by (simp add: compact_bits_def)
next
  case False
  show ?thesis
  proof (cases "encoded_exponent n e \<le> 3")
    case True
    then show ?thesis by (simp add: rounded_def)
  next
    case high: False
    with False have "encoded_exponent n e = e" "\<not> e \<le> 3"
      by (auto simp: encoded_exponent_def split: if_splits)
    then have "leading_bytes (rounded n e) e = leading_bytes n e"
      by (simp add: leading_bytes_def rounded_def)
    then show ?thesis by (simp only: compact_bits_def)
  qed
qed

lemma byte_length_exists: "uint256_ok t \<Longrightarrow> be_val t \<noteq> 0 \<Longrightarrow> \<exists>e. byte_length (be_val t) e"
  by (metis first_nonzero_exists first_nonzero_byte(3))

lemma ct_is_zero_iff: "ct_is_zero c \<longleftrightarrow> be_val (ct_bytes c) = 0"
  by (auto simp: ct_is_zero_def be_val_eq_0_iff list_all_iff)

lemma compact_round_trip:
  assumes "uint256_ok t" and "be_val t \<noteq> 0"
  shows "let c = compact_from_bits (compact_from_target t); v = be_val (ct_bytes c)
   in ct_is_valid c \<and> v \<le> be_val t \<and> (be_val t - v) * 2 ^ 15 < v \<and>
     compact_from_target (ct_bytes c) = compact_from_target t"
proof -
  define c where "c = compact_from_bits (compact_from_target t)"
  obtain e where e: "byte_length (be_val t) e" using byte_length_exists [OF assms] by blast
  let ?r = "rounded (be_val t) e"
  have "rounded (be_val t) e < 2 ^ 256"
    using rounded_le uint256_less [OF assms(1)] by (rule le_less_trans)
  moreover obtain m where "unat (compact_from_target t) = encoded_exponent (be_val t) e * 2 ^ 24 + m"
    "m < 2 ^ 23" "compact_value (encoded_exponent (be_val t) e) m = ?r"
    using compact_bits_fields [OF e] compact_from_target_eq [OF assms(1) e] by metis
  from word_fields [OF this(1,2)] this(3)
  have "compact_value (bits_exponent (compact_from_target t)) (bits_mantissa (compact_from_target t)) = ?r"
    "\<not> bit (compact_from_target t) 23" by simp_all
  ultimately have c: "length (ct_bytes c) = 32" "\<not> ct_negative c" "\<not> ct_overflow c" "be_val (ct_bytes c) = ?r"
    using compact_from_bits_spec [of "compact_from_target t"] by (simp_all only: c_def not_le [symmetric] simp_thms)
  have pos: "0 < ?r" using rounded_ge_power [OF e] zero_less_power [of "256 :: nat" "e - 1"] by linarith
  then have "\<not> ct_is_zero c"
    unfolding ct_is_zero_iff c(4) by simp
  then have valid: "ct_is_valid c" using c by (simp add: ct_is_valid_def)
  have "unat (compact_from_target (ct_bytes c)) = unat (compact_from_target t)"
    using compact_from_target_eq [OF assms(1) e] compact_from_target_eq [of "ct_bytes c" e]
      byte_length_rounded [OF e] compact_bits_rounded [OF e] c(1,4) by (simp add: uint256_ok_def)
  then have "compact_from_target (ct_bytes c) = compact_from_target t" by (simp add: word_unat_eq_iff)
  with valid c(4) rounded_le rounded_error [OF e] show ?thesis
    by (simp only: Let_def c_def [symmetric] simp_thms)
qed

lemma compact_decode_le:
  assumes "uint256_ok t"
  shows "let c = compact_from_bits (compact_from_target t)
    in \<not> ct_negative c \<and> \<not> ct_overflow c \<and> be_val (ct_bytes c) \<le> be_val t"
proof (cases "be_val t = 0")
  case True
  then have "position_of (\<lambda>b. b \<noteq> 0) t = None"
    using position_of_SomeD [of "\<lambda>b. b \<noteq> 0" t]
    by (cases "position_of (\<lambda>b. b \<noteq> 0) t") (auto simp: be_val_eq_0_iff)
  then have "compact_from_target t = 0" by (simp add: compact_from_target_def)
  then show ?thesis
    by (simp only: compact_from_bits_def if_True Let_def compact_target.simps be_val_replicate_0) simp
next
  case False
  from compact_round_trip [OF assms this] show ?thesis by (simp add: Let_def ct_is_valid_def)
qed

subsection \<open>Properties\<close>

text \<open>
  C18: decoding compact bits computes the number they denote.  The sign flag is bit 23; the
  overflow flag is raised exactly when \<open>mantissa * 256 ^ (exponent - 3)\<close> needs more than 256
  bits; otherwise the 32 bytes hold that number, truncated towards zero for an exponent below 3.
\<close>

theorem compact_from_bits_value:
  "let c = compact_from_bits bits; v = compact_value (bits_exponent bits) (bits_mantissa bits)
   in uint256_ok (ct_bytes c) \<and> ct_negative c = bit bits 23 \<and> ct_overflow c = (2 ^ 256 \<le> v) \<and>
     (v < 2 ^ 256 \<longrightarrow> be_val (ct_bytes c) = v)"
  using compact_from_bits_spec [of bits] unfolding Let_def uint256_ok_def by (metis not_le)

theorem compact_from_bits_value_witness:
  "be_val (ct_bytes (compact_from_bits 0x1c00ffff)) = 0xffff * 256 ^ 25"
  using compact_from_bits_value [of "0x1c00ffff"]
  by (simp add: bits_exponent_def bits_mantissa_def compact_value_def Let_def)

text \<open>
  C17: encoding a nonzero target and decoding the bits again gives a valid target that is not
  above the original and differs from it by less than one part in \<open>2 ^ 15\<close>; encoding that target
  once more gives the same bits, so the encoding is stable.
\<close>

theorem compact_from_target_round_trip:
  assumes "uint256_ok t" and "be_val t \<noteq> 0"
  shows "let c = compact_from_bits (compact_from_target t); v = be_val (ct_bytes c)
   in ct_is_valid c \<and> v \<le> be_val t \<and> (be_val t - v) * 2 ^ 15 < v \<and>
     compact_from_target (ct_bytes c) = compact_from_target t"
  using assms by (rule compact_round_trip)

theorem compact_from_target_round_trip_witness:
  "let c = compact_from_bits (compact_from_target (u256 (2 ^ 200 + 12345))); v = be_val (ct_bytes c)
   in ct_is_valid c \<and> v \<le> be_val (u256 (2 ^ 200 + 12345)) \<and>
     (be_val (u256 (2 ^ 200 + 12345)) - v) * 2 ^ 15 < v \<and>
     compact_from_target (ct_bytes c) = compact_from_target (u256 (2 ^ 200 + 12345))"
  by (rule compact_from_target_round_trip) (simp_all add: be_val_u256)

text \<open>
  C33: proof of work.  A header hash meets compact bits exactly when the bits are not negative,
  denote a nonzero number below \<open>2 ^ 256\<close>, and the hash read as a big-endian number is at most
  that number; the work credited for such bits is \<open>2 ^ 256 div (target + 1)\<close>, and bits that no
  hash can meet carry no work.
\<close>

theorem proof_of_work_check:
  assumes "uint256_ok h"
  shows "let c = compact_from_bits bits; v = compact_value (bits_exponent bits) (bits_mantissa bits);
      good = (\<not> bit bits 23 \<and> 0 < v \<and> v < 2 ^ 256)
    in is_met_by c h = (good \<and> be_val h \<le> v) \<and>
      ct_proof c = (if good then Some (u256 (2 ^ 256 div (v + 1))) else None)"
proof -
  define c where "c = compact_from_bits bits"
  define v where "v = compact_value (bits_exponent bits) (bits_mantissa bits)"
  have len: "uint256_ok (ct_bytes c)" and neg: "ct_negative c \<longleftrightarrow> bit bits 23"
    and ov: "ct_overflow c \<longleftrightarrow> \<not> v < 2 ^ 256" and val: "\<not> ct_overflow c \<Longrightarrow> be_val (ct_bytes c) = v"
    using compact_from_bits_spec [of bits] unfolding c_def v_def uint256_ok_def not_less by blast+
  have le: "bytes_le h (ct_bytes c) \<longleftrightarrow> be_val h \<le> be_val (ct_bytes c)"
    using assms len by (simp add: uint256_ok_def bytes_le_iff_be_val)
  show ?thesis
  proof (cases "v < 2 ^ 256")
    case True
    then have "be_val (ct_bytes c) = v" "\<not> ct_overflow c" using ov val by blast+
    then have "is_met_by c h = ((\<not> bit bits 23 \<and> 0 < v) \<and> be_val h \<le> v) \<and>
        ct_proof c = (if \<not> bit bits 23 \<and> 0 < v then Some (u256 (2 ^ 256 div (v + 1))) else None)"
      using work_for_target_spec [OF len]
      by (simp only: is_met_by_def ct_proof_def ct_is_valid_def neg ct_is_zero_iff le) auto
    then show ?thesis by (simp only: Let_def c_def [symmetric] v_def [symmetric] True simp_thms)
  next
    case False
    then have "ct_overflow c" using ov by blast
    then show ?thesis
      by (simp only: Let_def c_def [symmetric] v_def [symmetric] False is_met_by_def ct_proof_def
          ct_is_valid_def simp_thms if_False)
  qed
qed

theorem proof_of_work_check_witness:
  "is_met_by (compact_from_bits 0x207fffff) (u256 12345) \<and>
   ct_proof (compact_from_bits 0x207fffff) = Some (u256 2)"
proof -
  have "unat (0x207fffff :: u32) = 0x20 * 2 ^ 24 + 0x7fffff" by simp
  from word_fields [OF this] have "bits_exponent 0x207fffff = 0x20" "bits_mantissa 0x207fffff = 0x7fffff"
    "\<not> bit (0x207fffff :: u32) 23" by simp_all
  then show ?thesis
    using proof_of_work_check [of "u256 12345" "0x207fffff"]
    by (simp add: be_val_u256 compact_value_def Let_def)
qed

end
