(* ===== verification/Wire.thy ===== *)
theory Wire
  imports Codec
begin

text \<open>
  The consensus structures of \<^verbatim>\<open>crates/hns-primitives/src/lib.rs\<close> and their wire format:
  outpoints, witnesses, addresses, covenants, outputs, inputs, transactions, headers and blocks.
  A \<^verbatim>\<open>read_from\<close> is a reader of the codec theory, a \<^verbatim>\<open>write_to\<close> the bytes it appends.  Every
  structure is an instance of the \<open>codec\<close> contract on its well-formed values, so decoding
  inverts encoding and accepts no second encoding of a value; this includes the guards that
  reject impossible element counts before allocation.
\<close>

subsection \<open>Limits\<close>

definition header_size :: nat where "header_size = 236"
definition max_block_weight :: nat where "max_block_weight = 4000000"
definition max_tx_size :: nat where "max_tx_size = 1000000"
definition max_resource_size :: nat where "max_resource_size = 512"
definition max_script_stack :: nat where "max_script_stack = 1000"
definition max_address_hash_size :: nat where "max_address_hash_size = 40"
definition min_address_hash_size :: nat where "min_address_hash_size = 2"
definition max_name_size :: nat where "max_name_size = 63"
definition min_transaction_bytes :: nat where "min_transaction_bytes = 4 + 1 + 1 + 4"
definition min_transaction_input_bytes :: nat where "min_transaction_input_bytes = 32 + 4 + 4 + 1"
definition min_transaction_output_bytes :: nat where
  "min_transaction_output_bytes = 8 + 1 + 1 + min_address_hash_size + 1 + 1"

lemmas wire_limits = header_size_def max_block_weight_def max_tx_size_def max_resource_size_def
  max_script_stack_def max_address_hash_size_def min_address_hash_size_def max_name_size_def
  min_transaction_bytes_def min_transaction_input_bytes_def min_transaction_output_bytes_def

definition zero_hash :: bytes where "zero_hash = replicate 32 0"

lemma length_zero_hash [simp]: "length zero_hash = 32"
  by (simp add: zero_hash_def)

subsection \<open>Outpoints and witnesses\<close>

record outpoint =
  op_txid :: bytes
  op_index :: u32

definition outpoint_null :: outpoint where
  "outpoint_null = \<lparr>op_txid = zero_hash, op_index = - 1\<rparr>"

definition outpoint_is_null :: "outpoint \<Rightarrow> bool" where
  "outpoint_is_null p \<longleftrightarrow> op_index p = - 1 \<and> op_txid p = zero_hash"

definition read_outpoint :: "reader \<Rightarrow> primitive_error + outpoint \<times> reader" where
  "read_outpoint r =
     and_then (read_hash r) (\<lambda>(txid, r).
     and_then (read_u32 r) (\<lambda>(index, r).
     Inr (\<lparr>op_txid = txid, op_index = index\<rparr>, r)))"

definition write_outpoint :: "outpoint \<Rightarrow> bytes" where
  "write_outpoint p = write_bytes (op_txid p) @ write_u32 (op_index p)"

definition outpoint_ok :: "outpoint \<Rightarrow> bool" where
  "outpoint_ok p \<longleftrightarrow> length (op_txid p) = 32"

type_synonym witness = "bytes list"

definition read_witness :: "reader \<Rightarrow> primitive_error + witness \<times> reader" where
  "read_witness r =
     and_then (read_varint_usize ''witness items'' r) (\<lambda>(count, r).
     if count > max_script_stack
     then Inl (LimitExceeded ''witness items'' max_script_stack count)
     else read_many (read_varbytes max_tx_size ''witness item'') count r)"

definition write_witness :: "witness \<Rightarrow> bytes" where
  "write_witness items =
     write_varint (word_of_nat (length items)) @ concat (map write_varbytes items)"

definition items_ok :: "bytes list \<Rightarrow> bool" where
  "items_ok items \<longleftrightarrow> length items \<le> max_script_stack \<and> (\<forall>i \<in> set items. length i \<le> max_tx_size)"

subsection \<open>Addresses\<close>

record address =
  addr_version :: u8
  addr_hash :: bytes

definition address_validate :: "address \<Rightarrow> primitive_error + unit" where
  "address_validate a =
     (if addr_version a > 31 then Inl (InvalidAddress ''version exceeds 31'')
      else if \<not> (min_address_hash_size \<le> length (addr_hash a) \<and>
                 length (addr_hash a) \<le> max_address_hash_size)
      then Inl (InvalidAddress ''hash length is outside 2..=40'')
      else if addr_version a = 0 \<and> length (addr_hash a) \<noteq> 20 \<and> length (addr_hash a) \<noteq> 32
      then Inl (InvalidAddress ''version 0 witness program must be 20 or 32 bytes'')
      else Inr ())"

definition address_new :: "u8 \<Rightarrow> bytes \<Rightarrow> primitive_error + address" where
  "address_new version h =
     (let a = \<lparr>addr_version = version, addr_hash = h\<rparr>
      in and_then (address_validate a) (\<lambda>_. Inr a))"

definition read_address :: "reader \<Rightarrow> primitive_error + address \<times> reader" where
  "read_address r =
     and_then (read_u8 r) (\<lambda>(version, r).
     and_then (read_u8 r) (\<lambda>(size, r).
     and_then (read_vec (unat size) r) (\<lambda>(h, r).
     and_then (address_new version h) (\<lambda>a. Inr (a, r)))))"

definition write_address :: "address \<Rightarrow> bytes" where
  "write_address a =
     write_u8 (addr_version a) @ write_u8 (word_of_nat (length (addr_hash a))) @
     write_bytes (addr_hash a)"

definition is_nulldata :: "address \<Rightarrow> bool" where
  "is_nulldata a \<longleftrightarrow> addr_version a = 31"

definition address_is_unspendable :: "address \<Rightarrow> bool" where
  "address_is_unspendable a \<longleftrightarrow> is_nulldata a"

definition address_ok :: "address \<Rightarrow> bool" where
  "address_ok a \<longleftrightarrow> address_validate a = Inr ()"

subsection \<open>Covenants\<close>

datatype covenant_kind =
    CovNone | CovClaim | CovOpen | CovBid | CovReveal | CovRedeem | CovRegister | CovUpdate
  | CovRenew | CovTransfer | CovFinalize | CovRevoke | CovUnknown u8

fun kind_is_name :: "covenant_kind \<Rightarrow> bool" where
  "kind_is_name CovNone = False"
| "kind_is_name (CovUnknown _) = False"
| "kind_is_name _ = True"

fun kind_is_linked :: "covenant_kind \<Rightarrow> bool" where
  "kind_is_linked CovReveal = True"
| "kind_is_linked CovRedeem = True"
| "kind_is_linked CovRegister = True"
| "kind_is_linked CovUpdate = True"
| "kind_is_linked CovRenew = True"
| "kind_is_linked CovTransfer = True"
| "kind_is_linked CovFinalize = True"
| "kind_is_linked CovRevoke = True"
| "kind_is_linked _ = False"

definition kind_is_unspendable :: "covenant_kind \<Rightarrow> bool" where
  "kind_is_unspendable k \<longleftrightarrow> k = CovRevoke"

definition kind_from_u8 :: "u8 \<Rightarrow> covenant_kind" where
  "kind_from_u8 v =
     (if v = 0 then CovNone else if v = 1 then CovClaim else if v = 2 then CovOpen
      else if v = 3 then CovBid else if v = 4 then CovReveal else if v = 5 then CovRedeem
      else if v = 6 then CovRegister else if v = 7 then CovUpdate else if v = 8 then CovRenew
      else if v = 9 then CovTransfer else if v = 10 then CovFinalize
      else if v = 11 then CovRevoke else CovUnknown v)"

fun kind_as_u8 :: "covenant_kind \<Rightarrow> u8" where
  "kind_as_u8 CovNone = 0"
| "kind_as_u8 CovClaim = 1"
| "kind_as_u8 CovOpen = 2"
| "kind_as_u8 CovBid = 3"
| "kind_as_u8 CovReveal = 4"
| "kind_as_u8 CovRedeem = 5"
| "kind_as_u8 CovRegister = 6"
| "kind_as_u8 CovUpdate = 7"
| "kind_as_u8 CovRenew = 8"
| "kind_as_u8 CovTransfer = 9"
| "kind_as_u8 CovFinalize = 10"
| "kind_as_u8 CovRevoke = 11"
| "kind_as_u8 (CovUnknown v) = v"

fun kind_ok :: "covenant_kind \<Rightarrow> bool" where
  "kind_ok (CovUnknown v) \<longleftrightarrow> 11 < v"
| "kind_ok _ \<longleftrightarrow> True"

record covenant =
  cov_kind :: covenant_kind
  cov_items :: "bytes list"

definition cov_item :: "covenant \<Rightarrow> nat \<Rightarrow> bytes option" where
  "cov_item c i = get (cov_items c) i"

definition cov_item_u8 :: "covenant \<Rightarrow> nat \<Rightarrow> u8 option" where
  "cov_item_u8 c i =
     Option.bind (cov_item c i) (\<lambda>item. if length item = 1 then Some (item ! 0) else None)"

definition cov_item_u32 :: "covenant \<Rightarrow> nat \<Rightarrow> u32 option" where
  "cov_item_u32 c i =
     Option.bind (cov_item c i) (\<lambda>item. if length item = 4 then Some (from_le_bytes item) else None)"

definition cov_item_hash :: "covenant \<Rightarrow> nat \<Rightarrow> bytes option" where
  "cov_item_hash c i =
     Option.bind (cov_item c i) (\<lambda>item. if length item = 32 then Some item else None)"

definition read_covenant :: "reader \<Rightarrow> primitive_error + covenant \<times> reader" where
  "read_covenant r =
     and_then (read_u8 r) (\<lambda>(k, r).
     and_then (read_varint_usize ''covenant items'' r) (\<lambda>(item_count, r).
     if item_count > max_script_stack
     then Inl (LimitExceeded ''covenant items'' max_script_stack item_count)
     else and_then (read_many (read_varbytes max_tx_size ''covenant item'') item_count r) (\<lambda>(items, r).
     Inr (\<lparr>cov_kind = kind_from_u8 k, cov_items = items\<rparr>, r))))"

definition write_covenant :: "covenant \<Rightarrow> bytes" where
  "write_covenant c =
     write_u8 (kind_as_u8 (cov_kind c)) @ write_varint (word_of_nat (length (cov_items c))) @
     concat (map write_varbytes (cov_items c))"

definition covenant_decode :: "bytes \<Rightarrow> primitive_error + covenant" where
  "covenant_decode raw =
     and_then (reader_new raw max_tx_size) (\<lambda>r.
     and_then (read_covenant r) (\<lambda>(c, r).
     and_then (ensure_finished r) (\<lambda>_. Inr c)))"

definition covenant_encode :: "covenant \<Rightarrow> bytes" where
  "covenant_encode c = write_covenant c"

definition covenant_ok :: "covenant \<Rightarrow> bool" where
  "covenant_ok c \<longleftrightarrow> kind_ok (cov_kind c) \<and> items_ok (cov_items c)"

subsection \<open>Outputs, inputs and transactions\<close>

record txout =
  out_value :: u64
  out_address :: address
  out_covenant :: covenant

definition output_is_unspendable :: "txout \<Rightarrow> bool" where
  "output_is_unspendable out \<longleftrightarrow>
     address_is_unspendable (out_address out) \<or> kind_is_unspendable (cov_kind (out_covenant out))"

definition read_output :: "reader \<Rightarrow> primitive_error + txout \<times> reader" where
  "read_output r =
     and_then (read_u64 r) (\<lambda>(v, r).
     and_then (read_address r) (\<lambda>(a, r).
     and_then (read_covenant r) (\<lambda>(c, r).
     Inr (\<lparr>out_value = v, out_address = a, out_covenant = c\<rparr>, r))))"

definition write_output :: "txout \<Rightarrow> bytes" where
  "write_output out =
     write_u64 (out_value out) @ write_address (out_address out) @ write_covenant (out_covenant out)"

definition output_decode :: "bytes \<Rightarrow> primitive_error + txout" where
  "output_decode raw =
     and_then (reader_new raw max_tx_size) (\<lambda>r.
     and_then (read_output r) (\<lambda>(out, r).
     and_then (ensure_finished r) (\<lambda>_. Inr out)))"

definition output_encode :: "txout \<Rightarrow> bytes" where
  "output_encode out = write_output out"

definition output_ok :: "txout \<Rightarrow> bool" where
  "output_ok out \<longleftrightarrow> address_ok (out_address out) \<and> covenant_ok (out_covenant out)"

record txin =
  in_prevout :: outpoint
  in_sequence :: u32
  in_witness :: witness

definition read_input :: "reader \<Rightarrow> primitive_error + txin \<times> reader" where
  "read_input r =
     and_then (read_outpoint r) (\<lambda>(p, r).
     and_then (read_u32 r) (\<lambda>(s, r).
     Inr (\<lparr>in_prevout = p, in_sequence = s, in_witness = []\<rparr>, r)))"

definition write_input :: "txin \<Rightarrow> bytes" where
  "write_input i = write_outpoint (in_prevout i) @ write_u32 (in_sequence i)"

record transaction =
  tx_version :: u32
  tx_inputs :: "txin list"
  tx_outputs :: "txout list"
  tx_locktime :: u32

text \<open>The second pass over the inputs that fills in their witnesses.\<close>

fun read_witnesses :: "txin list \<Rightarrow> reader \<Rightarrow> primitive_error + txin list \<times> reader" where
  "read_witnesses [] r = Inr ([], r)"
| "read_witnesses (i # is) r =
     and_then (read_witness r) (\<lambda>(w, r).
     and_then (read_witnesses is r) (\<lambda>(is, r). Inr (i\<lparr>in_witness := w\<rparr> # is, r)))"

definition read_transaction :: "reader \<Rightarrow> primitive_error + transaction \<times> reader" where
  "read_transaction r =
     and_then (read_u32 r) (\<lambda>(version, r).
     and_then (read_varint_usize ''transaction inputs'' r) (\<lambda>(input_count, r).
     and_then (ensure_count_fits_remaining r input_count min_transaction_input_bytes
                 ''transaction inputs'') (\<lambda>_.
     and_then (read_many read_input input_count r) (\<lambda>(inputs, r).
     and_then (read_varint_usize ''transaction outputs'' r) (\<lambda>(output_count, r).
     and_then (ensure_count_fits_remaining r output_count min_transaction_output_bytes
                 ''transaction outputs'') (\<lambda>_.
     and_then (read_many read_output output_count r) (\<lambda>(outputs, r).
     and_then (read_u32 r) (\<lambda>(locktime, r).
     and_then (read_witnesses inputs r) (\<lambda>(inputs, r).
     Inr (\<lparr>tx_version = version, tx_inputs = inputs, tx_outputs = outputs, tx_locktime = locktime\<rparr>,
          r))))))))))"

definition write_transaction_base :: "transaction \<Rightarrow> bytes" where
  "write_transaction_base tx =
     write_u32 (tx_version tx) @
     write_varint (word_of_nat (length (tx_inputs tx))) @ concat (map write_input (tx_inputs tx)) @
     write_varint (word_of_nat (length (tx_outputs tx))) @ concat (map write_output (tx_outputs tx)) @
     write_u32 (tx_locktime tx)"

definition witness_encode :: "transaction \<Rightarrow> bytes" where
  "witness_encode tx = concat (map (\<lambda>i. write_witness (in_witness i)) (tx_inputs tx))"

definition write_transaction :: "transaction \<Rightarrow> bytes" where
  "write_transaction tx =
     write_transaction_base tx @ concat (map (\<lambda>i. write_witness (in_witness i)) (tx_inputs tx))"

definition transaction_decode :: "bytes \<Rightarrow> primitive_error + transaction" where
  "transaction_decode raw =
     and_then (reader_new raw max_tx_size) (\<lambda>r.
     and_then (read_transaction r) (\<lambda>(tx, r).
     and_then (ensure_finished r) (\<lambda>_. Inr tx)))"

definition transaction_encode :: "transaction \<Rightarrow> bytes" where
  "transaction_encode tx = write_transaction tx"

definition base_encode :: "transaction \<Rightarrow> bytes" where
  "base_encode tx = write_transaction_base tx"

definition tx_base_size :: "transaction \<Rightarrow> nat" where
  "tx_base_size tx = length (base_encode tx)"

definition tx_witness_size :: "transaction \<Rightarrow> nat" where
  "tx_witness_size tx = length (witness_encode tx)"

definition input_ok :: "txin \<Rightarrow> bool" where
  "input_ok i \<longleftrightarrow> outpoint_ok (in_prevout i) \<and> items_ok (in_witness i)"

definition transaction_ok :: "transaction \<Rightarrow> bool" where
  "transaction_ok tx \<longleftrightarrow> list_all input_ok (tx_inputs tx) \<and> list_all output_ok (tx_outputs tx)"

record coin =
  coin_outpoint :: outpoint
  coin_value :: u64
  coin_height :: u32
  coin_coinbase :: bool
  coin_address :: address
  coin_covenant :: covenant

subsection \<open>Headers and blocks\<close>

record header =
  hdr_nonce :: u32
  hdr_time :: u64
  hdr_prev_block :: bytes
  hdr_tree_root :: bytes
  hdr_extra_nonce :: bytes
  hdr_reserved_root :: bytes
  hdr_witness_root :: bytes
  hdr_merkle_root :: bytes
  hdr_version :: u32
  hdr_bits :: u32
  hdr_mask :: bytes

definition read_header :: "reader \<Rightarrow> primitive_error + header \<times> reader" where
  "read_header r =
     and_then (read_u32 r) (\<lambda>(nonce, r).
     and_then (read_u64 r) (\<lambda>(time, r).
     and_then (read_hash r) (\<lambda>(prev_block, r).
     and_then (read_hash r) (\<lambda>(tree_root, r).
     and_then (read_nonce r) (\<lambda>(extra_nonce, r).
     and_then (read_hash r) (\<lambda>(reserved_root, r).
     and_then (read_hash r) (\<lambda>(witness_root, r).
     and_then (read_hash r) (\<lambda>(merkle_root, r).
     and_then (read_u32 r) (\<lambda>(version, r).
     and_then (read_u32 r) (\<lambda>(bits, r).
     and_then (read_hash r) (\<lambda>(mask, r).
     Inr (\<lparr>hdr_nonce = nonce, hdr_time = time, hdr_prev_block = prev_block,
           hdr_tree_root = tree_root, hdr_extra_nonce = extra_nonce,
           hdr_reserved_root = reserved_root, hdr_witness_root = witness_root,
           hdr_merkle_root = merkle_root, hdr_version = version, hdr_bits = bits,
           hdr_mask = mask\<rparr>, r))))))))))))"

definition write_header :: "header \<Rightarrow> bytes" where
  "write_header h =
     write_u32 (hdr_nonce h) @ write_u64 (hdr_time h) @ write_bytes (hdr_prev_block h) @
     write_bytes (hdr_tree_root h) @ write_bytes (hdr_extra_nonce h) @
     write_bytes (hdr_reserved_root h) @ write_bytes (hdr_witness_root h) @
     write_bytes (hdr_merkle_root h) @ write_u32 (hdr_version h) @ write_u32 (hdr_bits h) @
     write_bytes (hdr_mask h)"

definition header_decode :: "bytes \<Rightarrow> primitive_error + header" where
  "header_decode raw =
     (if length raw \<noteq> header_size
      then Inl (InvalidLength ''header'' header_size (length raw))
      else
        and_then (reader_new raw header_size) (\<lambda>r.
        and_then (read_header r) (\<lambda>(h, r).
        and_then (ensure_finished r) (\<lambda>_. Inr h))))"

definition header_encode :: "header \<Rightarrow> bytes" where
  "header_encode h = write_header h"

definition header_ok :: "header \<Rightarrow> bool" where
  "header_ok h \<longleftrightarrow> length (hdr_prev_block h) = 32 \<and> length (hdr_tree_root h) = 32 \<and>
     length (hdr_extra_nonce h) = nonce_size \<and> length (hdr_reserved_root h) = 32 \<and>
     length (hdr_witness_root h) = 32 \<and> length (hdr_merkle_root h) = 32 \<and>
     length (hdr_mask h) = 32"

record block =
  blk_header :: header
  blk_transactions :: "transaction list"

definition read_block :: "reader \<Rightarrow> primitive_error + block \<times> reader" where
  "read_block r =
     and_then (read_header r) (\<lambda>(h, r).
     and_then (read_varint_usize ''block transactions'' r) (\<lambda>(transaction_count, r).
     and_then (ensure_count_fits_remaining r transaction_count min_transaction_bytes
                 ''block transactions'') (\<lambda>_.
     and_then (read_many read_transaction transaction_count r) (\<lambda>(transactions, r).
     Inr (\<lparr>blk_header = h, blk_transactions = transactions\<rparr>, r)))))"

definition write_block :: "block \<Rightarrow> bytes" where
  "write_block b =
     write_header (blk_header b) @ write_varint (word_of_nat (length (blk_transactions b))) @
     concat (map write_transaction (blk_transactions b))"

definition block_decode :: "bytes \<Rightarrow> primitive_error + block" where
  "block_decode raw =
     and_then (reader_new raw max_block_weight) (\<lambda>r.
     and_then (read_block r) (\<lambda>(b, r).
     and_then (ensure_finished r) (\<lambda>_. Inr b)))"

definition block_encode :: "block \<Rightarrow> bytes" where
  "block_encode b = write_block b"

definition block_ok :: "block \<Rightarrow> bool" where
  "block_ok b \<longleftrightarrow> header_ok (blk_header b) \<and> list_all transaction_ok (blk_transactions b)"

subsection \<open>Codec instances\<close>

lemmas wire_decodes = int_decodes hash_codec.decodes nonce_codec.decodes vec_codec.decodes
  varint_usize_codec.decodes varbytes_codec.decodes

interpretation outpoint_codec: codec read_outpoint write_outpoint outpoint_ok
  by unfold_locales
    (auto simp: read_outpoint_def write_outpoint_def outpoint_ok_def wire_decodes and_then_eq_Inr
      dest!: hash_codec.encodes u32_codec.encodes)

interpretation items_codec:
  codec "read_many (read_varbytes max_tx_size ctx) n" "\<lambda>xs. concat (map write_varbytes xs)"
    "\<lambda>xs. length xs = n \<and> (\<forall>x \<in> set xs. length x \<le> max_tx_size)" for ctx n
  by (rule varbytes_codec.many)

lemma max_script_stack_usize: "n \<le> max_script_stack \<Longrightarrow> n \<le> usize_max"
  by (simp add: max_script_stack_def usize_max_def)

interpretation witness_codec: codec read_witness write_witness items_ok
  by unfold_locales
    (auto simp: read_witness_def write_witness_def items_ok_def wire_decodes items_codec.decodes
      and_then_eq_Inr max_script_stack_usize not_less split: if_splits
      dest!: varint_usize_codec.encodes items_codec.encodes)

lemma address_ok_iff: "address_ok a \<longleftrightarrow> addr_version a \<le> 31 \<and>
    2 \<le> length (addr_hash a) \<and> length (addr_hash a) \<le> 40 \<and>
    (addr_version a = 0 \<longrightarrow> length (addr_hash a) = 20 \<or> length (addr_hash a) = 32)"
  by (auto simp: address_ok_def address_validate_def wire_limits not_less split: if_splits)

lemma address_new_eq: "address_new v h = Inr a \<longleftrightarrow>
    a = \<lparr>addr_version = v, addr_hash = h\<rparr> \<and> address_ok a"
  by (auto simp: address_new_def Let_def and_then_eq_Inr address_ok_def)

lemma unat_hash_length: "n \<le> 40 \<Longrightarrow> unat (word_of_nat n :: u8) = n"
  by (simp add: unat_of_nat)

interpretation address_codec: codec read_address write_address address_ok
proof (unfold_locales, goal_cases)
  case (1 a pre s)
  then have "address_new (addr_version a) (addr_hash a) = Inr a" by (simp add: address_new_eq)
  with 1 show ?case
    by (simp add: read_address_def write_address_def wire_decodes address_ok_iff unat_hash_length)
next
  case (2 pre s a r')
  then show ?case
    by (auto simp: read_address_def write_address_def and_then_eq_Inr address_new_eq
        dest!: u8_codec.encodes vec_codec.encodes)
qed

lemma kind_as_from_u8 [simp]: "kind_as_u8 (kind_from_u8 v) = v"
  by (simp add: kind_from_u8_def)

lemma kind_from_as_u8: "kind_ok k \<Longrightarrow> kind_from_u8 (kind_as_u8 k) = k"
  by (cases k) (auto simp: kind_from_u8_def word_less_nat_alt)

lemma kind_ok_from_u8: "kind_ok (kind_from_u8 v)"
  by (auto simp: kind_from_u8_def word_less_nat_alt word_unat_eq_iff) presburger

interpretation covenant_codec: codec read_covenant write_covenant covenant_ok
  by unfold_locales
    (auto simp: read_covenant_def write_covenant_def covenant_ok_def items_ok_def wire_decodes
      items_codec.decodes and_then_eq_Inr max_script_stack_usize not_less kind_from_as_u8
      kind_ok_from_u8 split: if_splits
      dest!: u8_codec.encodes varint_usize_codec.encodes items_codec.encodes)

interpretation output_codec: codec read_output write_output output_ok
  by unfold_locales
    (auto simp: read_output_def write_output_def output_ok_def wire_decodes address_codec.decodes
      covenant_codec.decodes and_then_eq_Inr
      dest!: u64_codec.encodes address_codec.encodes covenant_codec.encodes)

text \<open>An input on the wire carries no witness; the second pass of the transaction reads it.\<close>

interpretation input_codec: codec read_input write_input
    "\<lambda>i. outpoint_ok (in_prevout i) \<and> in_witness i = []"
  by unfold_locales
    (auto simp: read_input_def write_input_def wire_decodes outpoint_codec.decodes and_then_eq_Inr
      dest!: u32_codec.encodes outpoint_codec.encodes)

interpretation header_codec: codec read_header write_header header_ok
  by unfold_locales
    (auto simp: read_header_def write_header_def header_ok_def wire_decodes and_then_eq_Inr
      dest!: u32_codec.encodes u64_codec.encodes hash_codec.encodes nonce_codec.encodes)

subsection \<open>Transactions and blocks\<close>

lemma ensure_count_reader_at:
  "0 < m \<Longrightarrow> c * m \<le> length s \<Longrightarrow> ensure_count_fits_remaining (reader_at pre s) c m ctx = Inr ()"
  by (simp add: ensure_count_fits_remaining_def Let_def not_less div_less_iff_less_mult)

lemma length_concat_map_ge:
  "(\<And>x. x \<in> set xs \<Longrightarrow> k \<le> length (f x)) \<Longrightarrow> length xs * k \<le> length (concat (map f xs))"
  by (induction xs) (auto simp: add_mono)

lemma length_write_input: "outpoint_ok (in_prevout i) \<Longrightarrow> length (write_input i) = 40"
  by (simp add: write_input_def write_outpoint_def outpoint_ok_def int_codec_simps)

lemma length_write_witness: "1 \<le> length (write_witness w)"
  using length_write_varint_pos [of "word_of_nat (length w)"]
  unfolding write_witness_def length_append by linarith

lemma length_write_output: "output_ok out \<Longrightarrow> 14 \<le> length (write_output out)"
proof -
  assume "output_ok out"
  then have "2 \<le> length (addr_hash (out_address out))" by (simp add: output_ok_def address_ok_iff)
  then have "4 \<le> length (write_address (out_address out))"
    by (simp add: write_address_def int_codec_simps)
  moreover have "2 \<le> length (write_covenant (out_covenant out))"
    using length_write_varint_pos [of "word_of_nat (length (cov_items (out_covenant out)))"]
    unfolding write_covenant_def length_append write_u8_def list.size by linarith
  ultimately show ?thesis by (simp add: write_output_def int_codec_simps)
qed

definition strip_witness :: "txin \<Rightarrow> txin" where
  "strip_witness i = i\<lparr>in_witness := []\<rparr>"

lemma strip_witness_simps [simp]:
  "write_input (strip_witness i) = write_input i"
  "in_prevout (strip_witness i) = in_prevout i"
  "in_witness (strip_witness i) = []"
  "(strip_witness i)\<lparr>in_witness := in_witness i\<rparr> = i"
  "strip_witness (i\<lparr>in_witness := w\<rparr>) = strip_witness i"
  by (simp_all add: strip_witness_def write_input_def)

lemma witnesses_decodes:
  assumes "\<forall>i \<in> set is. items_ok (in_witness i)"
    and "length pre + length (concat (map (\<lambda>i. write_witness (in_witness i)) is)) + length s \<le> usize_max"
  shows "read_witnesses (map strip_witness is)
      (reader_at pre (concat (map (\<lambda>i. write_witness (in_witness i)) is) @ s)) =
    Inr (is, reader_at (pre @ concat (map (\<lambda>i. write_witness (in_witness i)) is)) s)"
  using assms by (induction "is" arbitrary: pre) (simp_all add: witness_codec.decodes)

lemma witnesses_encodes:
  assumes "read_witnesses js (reader_at pre s) = Inr (is, r')"
  shows "\<exists>s'. s = concat (map (\<lambda>i. write_witness (in_witness i)) is) @ s' \<and>
    r' = reader_at (pre @ concat (map (\<lambda>i. write_witness (in_witness i)) is)) s' \<and>
    map strip_witness is = map strip_witness js \<and> (\<forall>i \<in> set is. items_ok (in_witness i))"
  using assms
proof (induction js arbitrary: pre s "is" r')
  case (Cons j js)
  from Cons.prems obtain w r1 ks where w: "read_witness (reader_at pre s) = Inr (w, r1)"
    and ks: "read_witnesses js r1 = Inr (ks, r')" and "is": "is = j\<lparr>in_witness := w\<rparr> # ks"
    by (auto simp: and_then_eq_Inr)
  from witness_codec.encodes [OF w] obtain s1 where
    s1: "s = write_witness w @ s1" "r1 = reader_at (pre @ write_witness w) s1" "items_ok w" by blast
  from Cons.IH [OF ks [unfolded s1(2)]] s1 "is" show ?case by auto
qed simp

interpretation inputs_codec: codec "read_many read_input n" "\<lambda>is. concat (map write_input is)"
    "\<lambda>is. length is = n \<and> (\<forall>i \<in> set is. outpoint_ok (in_prevout i) \<and> in_witness i = [])" for n
  by (rule input_codec.many)

interpretation outputs_codec: codec "read_many read_output n" "\<lambda>outs. concat (map write_output outs)"
    "\<lambda>outs. length outs = n \<and> (\<forall>out \<in> set outs. output_ok out)" for n
  by (rule output_codec.many)

lemma min_bytes_pos: "0 < min_transaction_bytes" "0 < min_transaction_input_bytes"
  "0 < min_transaction_output_bytes"
  by (simp_all add: wire_limits)

lemma concat_map_strip: "concat (map write_input (map strip_witness is)) = concat (map write_input is)"
  by (simp add: o_def)

lemma inputs_room:
  assumes "list_all input_ok is"
  shows "length is * min_transaction_input_bytes \<le> length (concat (map write_input is)) +
    length (concat (map (\<lambda>i. write_witness (in_witness i)) is))"
proof -
  have "length is * 40 \<le> length (concat (map write_input is))"
    using assms by (intro length_concat_map_ge) (auto simp: list_all_iff input_ok_def length_write_input)
  moreover have "length is * 1 \<le> length (concat (map (\<lambda>i. write_witness (in_witness i)) is))"
    by (intro length_concat_map_ge length_write_witness)
  ultimately show ?thesis by (simp add: wire_limits)
qed

lemma outputs_room:
  "list_all output_ok outs \<Longrightarrow>
    length outs * min_transaction_output_bytes \<le> length (concat (map write_output outs))"
  using length_concat_map_ge [of outs 14 write_output]
  by (simp add: wire_limits list_all_iff length_write_output)

lemma transaction_decodes:
  assumes "transaction_ok tx" and "length pre + length (write_transaction tx) + length s \<le> usize_max"
  shows "read_transaction (reader_at pre (write_transaction tx @ s)) =
    Inr (tx, reader_at (pre @ write_transaction tx) s)"
proof -
  let ?is = "tx_inputs tx" and ?os = "tx_outputs tx"
  let ?w = "concat (map (\<lambda>i. write_witness (in_witness i)) ?is)"
  let ?i = "concat (map write_input ?is)" and ?o = "concat (map write_output ?os)"
  have ok: "list_all input_ok ?is" "list_all output_ok ?os"
    using assms(1) by (simp_all add: transaction_ok_def)
  note room = inputs_room [OF ok(1)] outputs_room [OF ok(2)]
  have len: "length ?is \<le> usize_max" "length ?os \<le> usize_max"
    using room assms(2)
    by (simp_all add: write_transaction_def write_transaction_base_def wire_limits)
  have inputs: "read_many read_input (length ?is) (reader_at q (?i @ t)) = Inr (map strip_witness ?is, reader_at (q @ ?i) t)"
    if "length q + length ?i + length t \<le> usize_max" for q t
    using inputs_codec.decodes [of "map strip_witness ?is" "length ?is" q t] that ok(1)
    by (simp add: concat_map_strip list_all_iff input_ok_def o_def)
  have outputs: "read_many read_output (length ?os) (reader_at q (?o @ t)) = Inr (?os, reader_at (q @ ?o) t)"
    if "length q + length ?o + length t \<le> usize_max" for q t
    using outputs_codec.decodes [of ?os "length ?os" q t] that ok(2) by (simp add: list_all_iff)
  have witnesses: "read_witnesses (map strip_witness ?is) (reader_at q (?w @ t)) = Inr (?is, reader_at (q @ ?w) t)"
    if "length q + length ?w + length t \<le> usize_max" for q t
    using witnesses_decodes [of ?is q t] that ok(1) by (simp add: list_all_iff input_ok_def)
  show ?thesis
    using assms(2) room len
    by (simp add: read_transaction_def write_transaction_def write_transaction_base_def wire_decodes
        ensure_count_reader_at min_bytes_pos inputs outputs witnesses)
qed

lemma transaction_encodes:
  assumes "read_transaction (reader_at pre s) = Inr (tx, r')"
  shows "\<exists>s'. s = write_transaction tx @ s' \<and> r' = reader_at (pre @ write_transaction tx) s' \<and>
    transaction_ok tx"
proof -
  from assms obtain js s1 where js: "\<forall>j \<in> set js. outpoint_ok (in_prevout j) \<and> in_witness j = []"
    and s: "s = write_u32 (tx_version tx) @ write_varint (word_of_nat (length js)) @
      concat (map write_input js) @ write_varint (word_of_nat (length (tx_outputs tx))) @
      concat (map write_output (tx_outputs tx)) @ write_u32 (tx_locktime tx) @ s1"
    and outs: "\<forall>out \<in> set (tx_outputs tx). output_ok out"
    and w: "read_witnesses js (reader_at (pre @ write_u32 (tx_version tx) @
      write_varint (word_of_nat (length js)) @ concat (map write_input js) @
      write_varint (word_of_nat (length (tx_outputs tx))) @
      concat (map write_output (tx_outputs tx)) @ write_u32 (tx_locktime tx)) s1) =
      Inr (tx_inputs tx, r')"
    by (auto simp: read_transaction_def and_then_eq_Inr dest!: u32_codec.encodes
        varint_usize_codec.encodes inputs_codec.encodes outputs_codec.encodes)
  from witnesses_encodes [OF w] obtain s2 where
    s1: "s1 = concat (map (\<lambda>i. write_witness (in_witness i)) (tx_inputs tx)) @ s2"
    and r': "r' = reader_at ((pre @ write_u32 (tx_version tx) @
      write_varint (word_of_nat (length js)) @ concat (map write_input js) @
      write_varint (word_of_nat (length (tx_outputs tx))) @
      concat (map write_output (tx_outputs tx)) @ write_u32 (tx_locktime tx)) @
      concat (map (\<lambda>i. write_witness (in_witness i)) (tx_inputs tx))) s2"
    and strip: "map strip_witness (tx_inputs tx) = map strip_witness js"
    and items: "\<forall>i \<in> set (tx_inputs tx). items_ok (in_witness i)" by blast
  have len: "length js = length (tx_inputs tx)" using strip by (metis length_map)
  have inputs: "concat (map write_input js) = concat (map write_input (tx_inputs tx))"
    by (metis concat_map_strip strip)
  have "outpoint_ok (in_prevout i)" if "i \<in> set (tx_inputs tx)" for i
  proof -
    from that have "strip_witness i \<in> set (map strip_witness js)" by (simp flip: strip)
    then obtain j where "j \<in> set js" "strip_witness i = strip_witness j" by auto
    then show ?thesis using js by (metis strip_witness_simps(2))
  qed
  with items outs have "transaction_ok tx" by (simp add: transaction_ok_def list_all_iff input_ok_def)
  with s s1 r' show ?thesis
    by (simp add: write_transaction_def write_transaction_base_def len inputs)
qed

interpretation transaction_codec: codec read_transaction write_transaction transaction_ok
  by unfold_locales (auto simp: transaction_decodes dest: transaction_encodes)

interpretation transactions_codec: codec "read_many read_transaction n"
    "\<lambda>txs. concat (map write_transaction txs)"
    "\<lambda>txs. length txs = n \<and> (\<forall>tx \<in> set txs. transaction_ok tx)" for n
  by (rule transaction_codec.many)

lemma length_write_transaction: "min_transaction_bytes \<le> length (write_transaction tx)"
proof -
  have u32: "length (write_u32 v) = 4" for v by (simp add: write_u32_def)
  show ?thesis
    using u32 [of "tx_version tx"] u32 [of "tx_locktime tx"]
      length_write_varint_pos [of "word_of_nat (length (tx_inputs tx))"]
      length_write_varint_pos [of "word_of_nat (length (tx_outputs tx))"]
    unfolding write_transaction_def write_transaction_base_def length_append wire_limits
    by linarith
qed

lemma transactions_room:
  "length txs * min_transaction_bytes \<le> length (concat (map write_transaction txs))"
  by (intro length_concat_map_ge length_write_transaction)

interpretation block_codec: codec read_block write_block block_ok
proof (unfold_locales, goal_cases)
  case (1 b pre s)
  note room = transactions_room [of "blk_transactions b"]
  then have "length (blk_transactions b) \<le> usize_max"
    using 1(2) by (simp add: write_block_def wire_limits)
  with 1 room show ?case
    by (simp add: read_block_def write_block_def block_ok_def list_all_iff header_codec.decodes
        wire_decodes ensure_count_reader_at min_bytes_pos transactions_codec.decodes)
next
  case (2 pre s b r')
  then show ?case
    by (auto simp: read_block_def write_block_def block_ok_def list_all_iff and_then_eq_Inr
        dest!: header_codec.encodes varint_usize_codec.encodes transactions_codec.encodes)
qed

subsection \<open>Properties\<close>

lemmas wire_usize = wire_limits usize_max_def

lemma length_write_header: "header_ok h \<Longrightarrow> length (write_header h) = header_size"
  by (simp add: write_header_def header_ok_def int_codec_simps nonce_size_def header_size_def)

lemma header_decode_eq: "header_decode raw = Inr h \<longleftrightarrow> raw = header_encode h \<and> header_ok h"
proof -
  have "header_size \<le> usize_max" by (simp add: wire_usize)
  from header_codec.whole [OF this, of raw h] show ?thesis
    by (auto simp: header_decode_def header_encode_def length_write_header)
qed

text \<open>
  C13: a transaction is accepted by the decoder exactly when the bytes are the encoding of a
  well-formed transaction (32-byte previous ids, at most 1000 witness and covenant items of at
  most one million bytes each, addresses that pass validation, canonical covenant kinds) of at
  most one million bytes, and then the decoder returns that transaction: encoding and decoding
  are inverse to each other and no transaction has a second accepted encoding.
\<close>

theorem transaction_decode_canonical:
  "transaction_decode raw = Inr tx \<longleftrightarrow>
    raw = transaction_encode tx \<and> transaction_ok tx \<and> length raw \<le> max_tx_size"
proof -
  have "max_tx_size \<le> usize_max" by (simp add: wire_usize)
  from transaction_codec.whole [OF this, of raw tx] show ?thesis
    by (auto simp: transaction_decode_def transaction_encode_def)
qed

lemma block_decode_iff:
  "block_decode raw = Inr b \<longleftrightarrow> raw = block_encode b \<and> block_ok b \<and> length raw \<le> max_block_weight"
proof -
  have "max_block_weight \<le> usize_max" by (simp add: wire_usize)
  from block_codec.whole [OF this, of raw b] show ?thesis
    by (auto simp: block_decode_def block_encode_def)
qed

text \<open>
  C14: blocks and headers are decoded canonically as well: decoding succeeds exactly on the
  encodings of well-formed values (a header of exactly 236 bytes; a block of at most 4000000
  bytes), so a block is determined by its bytes and its bytes by the block.
\<close>

theorem block_decode_canonical:
  "(block_decode raw = Inr b \<longleftrightarrow>
      raw = block_encode b \<and> block_ok b \<and> length raw \<le> max_block_weight) \<and>
   (header_decode raw = Inr h \<longleftrightarrow> raw = header_encode h \<and> header_ok h \<and> length raw = header_size)"
  by (rule conjI [OF block_decode_iff]) (auto simp: header_decode_eq header_encode_def length_write_header)

lemma length_write_transaction_split:
  "length (write_transaction tx) = tx_base_size tx + tx_witness_size tx"
  by (simp add: write_transaction_def tx_base_size_def tx_witness_size_def base_encode_def
      witness_encode_def)

end
