(* ===== verification/Hashing.thy ===== *)
theory Hashing
  imports Wire Compact_Target
begin

unbundle bit_operations_syntax

text \<open>
  Hash commitments: the header hashes and transaction ids of
  \<^verbatim>\<open>crates/hns-primitives/src/lib.rs\<close> and the Merkle roots and size accounting of
  \<^verbatim>\<open>crates/hns-consensus/src/lib.rs\<close>.  The hash functions are parameters: \<open>H\<close> is BLAKE2b-256,
  \<open>H512\<close> is BLAKE2b-512 and \<open>S\<close> is SHA3-256; the streaming wrappers hash the concatenation of
  their parts.  All that is used of them is the length of their output.  The binding theorems
  name the colliding pair: if two values have the same commitment then they are equal, or two
  different byte strings that were hashed while computing the two commitments have the same hash.
\<close>

definition blake2b_256_many :: "(bytes \<Rightarrow> bytes) \<Rightarrow> bytes list \<Rightarrow> bytes" where
  "blake2b_256_many H parts = H (concat parts)"

definition sha3_256_many :: "(bytes \<Rightarrow> bytes) \<Rightarrow> bytes list \<Rightarrow> bytes" where
  "sha3_256_many S parts = S (concat parts)"

subsection \<open>Header hashes\<close>

definition subheader :: "header \<Rightarrow> bytes" where
  "subheader h =
     write_bytes (hdr_extra_nonce h) @ write_bytes (hdr_reserved_root h) @
     write_bytes (hdr_witness_root h) @ write_bytes (hdr_merkle_root h) @
     write_u32 (hdr_version h) @ write_u32 (hdr_bits h)"

definition sub_hash :: "(bytes \<Rightarrow> bytes) \<Rightarrow> header \<Rightarrow> bytes" where
  "sub_hash H h = H (subheader h)"

definition mask_hash :: "(bytes \<Rightarrow> bytes) \<Rightarrow> header \<Rightarrow> bytes" where
  "mask_hash H h = blake2b_256_many H [hdr_prev_block h, hdr_mask h]"

definition commit_hash :: "(bytes \<Rightarrow> bytes) \<Rightarrow> header \<Rightarrow> bytes" where
  "commit_hash H h = blake2b_256_many H [sub_hash H h, mask_hash H h]"

definition padding :: "header \<Rightarrow> nat \<Rightarrow> bytes" where
  "padding h n =
     map (\<lambda>i. hdr_prev_block h ! (i mod 32) XOR hdr_tree_root h ! (i mod 32)) [0..<n]"

definition preheader :: "(bytes \<Rightarrow> bytes) \<Rightarrow> header \<Rightarrow> bytes" where
  "preheader H h =
     write_u32 (hdr_nonce h) @ write_u64 (hdr_time h) @ write_bytes (padding h 20) @
     write_bytes (hdr_prev_block h) @ write_bytes (hdr_tree_root h) @
     write_bytes (commit_hash H h)"

definition share_hash :: "(bytes \<Rightarrow> bytes) \<Rightarrow> (bytes \<Rightarrow> bytes) \<Rightarrow> (bytes \<Rightarrow> bytes) \<Rightarrow> header \<Rightarrow> bytes" where
  "share_hash H H512 S h =
     (let left = H512 (preheader H h);
          right = sha3_256_many S [preheader H h, padding h 8]
      in blake2b_256_many H [left, padding h 32, right])"

definition pow_hash :: "(bytes \<Rightarrow> bytes) \<Rightarrow> (bytes \<Rightarrow> bytes) \<Rightarrow> (bytes \<Rightarrow> bytes) \<Rightarrow> header \<Rightarrow> bytes" where
  "pow_hash H H512 S h = map2 (\<lambda>b m. b XOR m) (share_hash H H512 S h) (hdr_mask h)"

definition header_hash :: "(bytes \<Rightarrow> bytes) \<Rightarrow> (bytes \<Rightarrow> bytes) \<Rightarrow> (bytes \<Rightarrow> bytes) \<Rightarrow> header \<Rightarrow> bytes" where
  "header_hash H H512 S h = pow_hash H H512 S h"

definition verify_pow :: "(bytes \<Rightarrow> bytes) \<Rightarrow> (bytes \<Rightarrow> bytes) \<Rightarrow> (bytes \<Rightarrow> bytes) \<Rightarrow> header \<Rightarrow> bool" where
  "verify_pow H H512 S h = is_met_by (compact_from_bits (hdr_bits h)) (pow_hash H H512 S h)"

subsection \<open>Transaction hashes\<close>

definition txid :: "(bytes \<Rightarrow> bytes) \<Rightarrow> transaction \<Rightarrow> bytes" where
  "txid H tx = H (base_encode tx)"

definition witness_data_hash :: "(bytes \<Rightarrow> bytes) \<Rightarrow> transaction \<Rightarrow> bytes" where
  "witness_data_hash H tx = H (witness_encode tx)"

definition witness_hash :: "(bytes \<Rightarrow> bytes) \<Rightarrow> transaction \<Rightarrow> bytes" where
  "witness_hash H tx = blake2b_256_many H [txid H tx, witness_data_hash H tx]"

subsection \<open>Merkle roots\<close>

text \<open>One pass over the chunks of two nodes; a lone last node is paired with the sentinel.\<close>

fun merkle_level :: "(bytes \<Rightarrow> bytes) \<Rightarrow> bytes list \<Rightarrow> bytes list" where
  "merkle_level H [] = []"
| "merkle_level H [a] = [blake2b_256_many H [[0x01], a, H []]]"
| "merkle_level H (a # b # nodes) = blake2b_256_many H [[0x01], a, b] # merkle_level H nodes"

lemma length_merkle_level: "length (merkle_level H nodes) = (length nodes + 1) div 2"
  by (induction H nodes rule: merkle_level.induct) auto

function merkle_loop :: "(bytes \<Rightarrow> bytes) \<Rightarrow> bytes list \<Rightarrow> bytes" where
  "merkle_loop H nodes =
     (if length nodes > 1 then merkle_loop H (merkle_level H nodes) else nodes ! 0)"
  by auto

termination merkle_loop
  by (relation "measure (\<lambda>(H, nodes). length nodes)") (auto simp: length_merkle_level)

declare merkle_loop.simps [simp del]

definition merkle_root :: "(bytes \<Rightarrow> bytes) \<Rightarrow> bytes list \<Rightarrow> bytes" where
  "merkle_root H hashes =
     (let nodes = map (\<lambda>h. blake2b_256_many H [[0x00], h]) hashes
      in if nodes = [] then H [] else merkle_loop H nodes)"

definition block_merkle_root :: "(bytes \<Rightarrow> bytes) \<Rightarrow> block \<Rightarrow> bytes" where
  "block_merkle_root H b = merkle_root H (map (txid H) (blk_transactions b))"

definition block_witness_root :: "(bytes \<Rightarrow> bytes) \<Rightarrow> block \<Rightarrow> bytes" where
  "block_witness_root H b = merkle_root H (map (witness_hash H) (blk_transactions b))"

subsection \<open>Sizes and weights\<close>

definition witness_scale_factor :: nat where "witness_scale_factor = 4"

definition varint_size :: "u64 \<Rightarrow> nat" where
  "varint_size v = (if v \<le> 0xfc then 1 else if v \<le> 0xffff then 3 else if v \<le> 0xffffffff then 5 else 9)"

definition block_base_size :: "block \<Rightarrow> nat" where
  "block_base_size b =
     header_size + varint_size (word_of_nat (length (blk_transactions b))) +
     sum_list (map tx_base_size (blk_transactions b))"

definition block_witness_size :: "block \<Rightarrow> nat" where
  "block_witness_size b = sum_list (map tx_witness_size (blk_transactions b))"

definition block_weight :: "block \<Rightarrow> nat" where
  "block_weight b =
     usize_sat_add (usize_sat_mul (block_base_size b) witness_scale_factor) (block_witness_size b)"

definition transaction_weight :: "transaction \<Rightarrow> nat" where
  "transaction_weight tx =
     usize_sat_add (usize_sat_mul (tx_base_size tx) witness_scale_factor) (tx_witness_size tx)"

definition witness_size :: "witness \<Rightarrow> nat" where
  "witness_size w = length (write_witness w)"

subsection \<open>Collisions\<close>

definition collision :: "(bytes \<Rightarrow> bytes) \<Rightarrow> bytes set \<Rightarrow> bytes set \<Rightarrow> bool" where
  "collision H A B \<longleftrightarrow> (\<exists>p \<in> A. \<exists>q \<in> B. p \<noteq> q \<and> H p = H q)"

lemma collisionI: "H p = H q \<Longrightarrow> p \<in> A \<Longrightarrow> q \<in> B \<Longrightarrow> \<not> collision H A B \<Longrightarrow> p = q"
  by (auto simp: collision_def)

lemma collision_mono: "collision H A B \<Longrightarrow> A \<subseteq> A' \<Longrightarrow> B \<subseteq> B' \<Longrightarrow> collision H A' B'"
  by (auto simp: collision_def)

text \<open>The byte strings hashed by BLAKE2b-256 for a header, for a transaction and in a Merkle tree.\<close>

definition header_inputs :: "(bytes \<Rightarrow> bytes) \<Rightarrow> (bytes \<Rightarrow> bytes) \<Rightarrow> (bytes \<Rightarrow> bytes) \<Rightarrow> header \<Rightarrow> bytes set"
where
  "header_inputs H H512 S h =
     {subheader h, hdr_prev_block h @ hdr_mask h, sub_hash H h @ mask_hash H h,
      H512 (preheader H h) @ padding h 32 @ sha3_256_many S [preheader H h, padding h 8]}"

definition tx_hash_inputs :: "(bytes \<Rightarrow> bytes) \<Rightarrow> transaction \<Rightarrow> bytes set" where
  "tx_hash_inputs H tx =
     {base_encode tx, witness_encode tx, txid H tx @ witness_data_hash H tx}"

text \<open>The Merkle tree as a tree: its shape, its hash and the strings hashed for its nodes.\<close>

datatype mtree = MSentinel | MLeaf bytes | MBranch mtree mtree

fun tree_input :: "(bytes \<Rightarrow> bytes) \<Rightarrow> mtree \<Rightarrow> bytes" where
  "tree_input H MSentinel = []"
| "tree_input H (MLeaf h) = 0x00 # h"
| "tree_input H (MBranch l r) = 0x01 # H (tree_input H l) @ H (tree_input H r)"

fun subtrees :: "mtree \<Rightarrow> mtree set" where
  "subtrees (MBranch l r) = insert (MBranch l r) (subtrees l \<union> subtrees r)"
| "subtrees t = {t}"

fun leaves :: "mtree \<Rightarrow> bytes list" where
  "leaves MSentinel = []"
| "leaves (MLeaf h) = [h]"
| "leaves (MBranch l r) = leaves l @ leaves r"

fun tree_level :: "mtree list \<Rightarrow> mtree list" where
  "tree_level [] = []"
| "tree_level [a] = [MBranch a MSentinel]"
| "tree_level (a # b # ts) = MBranch a b # tree_level ts"

lemma length_tree_level: "length (tree_level ts) = (length ts + 1) div 2"
  by (induction ts rule: tree_level.induct) auto

function tree_loop :: "mtree list \<Rightarrow> mtree" where
  "tree_loop ts = (if length ts > 1 then tree_loop (tree_level ts) else ts ! 0)"
  by auto

termination tree_loop
  by (relation "measure length") (auto simp: length_tree_level)

declare tree_loop.simps [simp del]

definition merkle_tree :: "bytes list \<Rightarrow> mtree" where
  "merkle_tree hs = (if hs = [] then MSentinel else tree_loop (map MLeaf hs))"

definition merkle_inputs :: "(bytes \<Rightarrow> bytes) \<Rightarrow> bytes list \<Rightarrow> bytes set" where
  "merkle_inputs H hs = tree_input H ` subtrees (merkle_tree hs)"

abbreviation tree_hash :: "(bytes \<Rightarrow> bytes) \<Rightarrow> mtree \<Rightarrow> bytes" where
  "tree_hash H t \<equiv> H (tree_input H t)"

lemma merkle_level_tree: "merkle_level H (map (tree_hash H) ts) = map (tree_hash H) (tree_level ts)"
  by (induction ts rule: tree_level.induct) (simp_all add: blake2b_256_many_def)

lemma merkle_loop_tree: "ts \<noteq> [] \<Longrightarrow> merkle_loop H (map (tree_hash H) ts) = tree_hash H (tree_loop ts)"
proof (induction ts rule: tree_loop.induct)
  case (1 ts)
  show ?case
  proof (cases "length ts > 1")
    case True
    then have "tree_level ts \<noteq> []" using length_tree_level [of ts] by auto
    with 1 True show ?thesis
      by (subst merkle_loop.simps, subst tree_loop.simps) (simp add: merkle_level_tree)
  next
    case False
    with 1 show ?thesis
      by (subst merkle_loop.simps, subst tree_loop.simps) (simp add: nth_map)
  qed
qed

lemma merkle_root_tree: "merkle_root H hs = tree_hash H (merkle_tree hs)"
proof (cases "hs = []")
  case False
  then show ?thesis
    using merkle_loop_tree [of "map MLeaf hs" H]
    by (simp add: merkle_root_def merkle_tree_def blake2b_256_many_def o_def)
qed (simp add: merkle_root_def merkle_tree_def)

lemma leaves_level: "concat (map leaves (tree_level ts)) = concat (map leaves ts)"
  by (induction ts rule: tree_level.induct) auto

lemma leaves_loop: "ts \<noteq> [] \<Longrightarrow> leaves (tree_loop ts) = concat (map leaves ts)"
proof (induction ts rule: tree_loop.induct)
  case (1 ts)
  show ?case
  proof (cases "length ts > 1")
    case True
    then have "tree_level ts \<noteq> []" using length_tree_level [of ts] by auto
    with 1 True show ?thesis by (subst tree_loop.simps) (simp add: leaves_level)
  next
    case False
    with 1 show ?thesis by (subst tree_loop.simps) (cases ts; simp)
  qed
qed

lemma leaves_merkle_tree: "leaves (merkle_tree hs) = hs"
  by (cases "hs = []") (simp_all add: merkle_tree_def leaves_loop o_def)

lemma subtrees_refl [simp]: "t \<in> subtrees t"
  by (cases t) auto

lemma tree_input_eq:
  "tree_hash H t = tree_hash H u \<Longrightarrow>
    \<not> collision H (tree_input H ` subtrees t) (tree_input H ` subtrees u) \<Longrightarrow>
    tree_input H t = tree_input H u"
  by (erule collisionI) auto

lemma tree_hash_inj:
  assumes len: "\<And>b. length (H b) = 32"
  shows "tree_hash H t = tree_hash H u \<Longrightarrow>
    \<not> collision H (tree_input H ` subtrees t) (tree_input H ` subtrees u) \<Longrightarrow> t = u"
proof (induction t arbitrary: u)
  case (MBranch l r)
  have eq: "tree_input H (MBranch l r) = tree_input H u"
    using MBranch.prems by (rule tree_input_eq)
  then obtain l' r' where u: "u = MBranch l' r'" by (cases u) auto
  have "tree_hash H l = tree_hash H l'" "tree_hash H r = tree_hash H r'"
    using eq len by (simp_all add: u)
  moreover have "\<not> collision H (tree_input H ` subtrees l) (tree_input H ` subtrees l')"
    "\<not> collision H (tree_input H ` subtrees r) (tree_input H ` subtrees r')"
    using MBranch.prems(2) by (auto simp: u collision_def)
  ultimately show ?case using MBranch.IH u by blast
next
  case MSentinel
  then show ?case using tree_input_eq [OF MSentinel.prems] by (cases u) auto
next
  case (MLeaf h)
  then show ?case using tree_input_eq [OF MLeaf.prems] by (cases u) auto
qed

lemma merkle_root_inj:
  assumes "\<And>b. length (H b) = 32" and "merkle_root H xs = merkle_root H ys"
    and "\<not> collision H (merkle_inputs H xs) (merkle_inputs H ys)"
  shows "xs = ys"
proof -
  have "merkle_tree xs = merkle_tree ys"
    using assms unfolding merkle_root_tree merkle_inputs_def by (rule tree_hash_inj)
  then show ?thesis by (metis leaves_merkle_tree)
qed

subsection \<open>What a header hash commits to\<close>

lemma length_padding [simp]: "length (padding h n) = n"
  by (simp add: padding_def)

lemma commit_hash_inj:
  assumes len: "\<And>b. length (H b) = 32" and ok: "header_ok g" "header_ok h"
    and eq: "commit_hash H g = commit_hash H h"
    and nc: "\<not> collision H (header_inputs H H512 S g) (header_inputs H H512 S h)"
  shows "subheader g = subheader h" and "hdr_mask g = hdr_mask h"
proof -
  have "sub_hash H g @ mask_hash H g = sub_hash H h @ mask_hash H h"
    using eq by - (rule collisionI [OF _ _ _ nc], auto simp: commit_hash_def blake2b_256_many_def header_inputs_def)
  then have sub: "sub_hash H g = sub_hash H h" and mask: "mask_hash H g = mask_hash H h"
    using len by (simp_all add: sub_hash_def mask_hash_def blake2b_256_many_def)
  show "subheader g = subheader h"
    using sub by - (rule collisionI [OF _ _ _ nc], auto simp: sub_hash_def header_inputs_def)
  have "hdr_prev_block g @ hdr_mask g = hdr_prev_block h @ hdr_mask h"
    using mask by - (rule collisionI [OF _ _ _ nc], auto simp: mask_hash_def blake2b_256_many_def header_inputs_def)
  then show "hdr_mask g = hdr_mask h" using ok by (simp add: header_ok_def)
qed

lemma to_le_bytes_inj: "8 dvd LENGTH('a::len) \<Longrightarrow> to_le_bytes v = to_le_bytes w \<longleftrightarrow> v = (w :: 'a word)"
  by (metis from_le_to_le_bytes)

lemma share_hash_inj:
  assumes len: "\<And>b. length (H b) = 32" "\<And>b. length (H512 b) = 64" and ok: "header_ok g" "header_ok h"
    and eq: "share_hash H H512 S g = share_hash H H512 S h"
    and nc: "\<not> collision H (header_inputs H H512 S g) (header_inputs H H512 S h)"
    and nc512: "\<not> collision H512 {preheader H g} {preheader H h}"
  shows "g = h"
proof -
  have "H512 (preheader H g) @ padding g 32 @ sha3_256_many S [preheader H g, padding g 8] =
      H512 (preheader H h) @ padding h 32 @ sha3_256_many S [preheader H h, padding h 8]"
    using eq by - (rule collisionI [OF _ _ _ nc], auto simp: share_hash_def Let_def blake2b_256_many_def header_inputs_def)
  then have "H512 (preheader H g) = H512 (preheader H h)" using len(2) by simp
  then have pre: "preheader H g = preheader H h" by (rule collisionI [OF _ _ _ nc512]) simp_all
  then have base: "hdr_nonce g = hdr_nonce h" "hdr_time g = hdr_time h"
    "hdr_prev_block g = hdr_prev_block h" "hdr_tree_root g = hdr_tree_root h"
    "commit_hash H g = commit_hash H h"
    using ok by (simp_all add: preheader_def int_codec_simps header_ok_def to_le_bytes_inj)
  have "subheader g = subheader h" "hdr_mask g = hdr_mask h"
    using commit_hash_inj [OF len(1) ok base(5) nc] .
  then show ?thesis
    using ok base by (simp add: subheader_def int_codec_simps header_ok_def nonce_size_def to_le_bytes_inj)
qed

subsection \<open>What a witness root commits to\<close>

definition transaction_fits :: "transaction \<Rightarrow> bool" where
  "transaction_fits tx \<longleftrightarrow> transaction_ok tx \<and> length (write_transaction tx) \<le> usize_max"

lemma witness_hash_inj:
  assumes len: "\<And>b. length (H b) = 32" and fits: "transaction_fits t" "transaction_fits u"
    and eq: "witness_hash H t = witness_hash H u"
    and nc: "\<not> collision H (tx_hash_inputs H t) (tx_hash_inputs H u)"
  shows "t = u"
proof -
  have "txid H t @ witness_data_hash H t = txid H u @ witness_data_hash H u"
    using eq by - (rule collisionI [OF _ _ _ nc], auto simp: witness_hash_def blake2b_256_many_def tx_hash_inputs_def)
  then have ids: "txid H t = txid H u" "witness_data_hash H t = witness_data_hash H u"
    using len by (simp_all add: txid_def witness_data_hash_def)
  have "base_encode t = base_encode u"
    using ids(1) by - (rule collisionI [OF _ _ _ nc], auto simp: txid_def tx_hash_inputs_def)
  moreover have "witness_encode t = witness_encode u"
    using ids(2) by - (rule collisionI [OF _ _ _ nc], auto simp: witness_data_hash_def tx_hash_inputs_def)
  ultimately have "write_transaction t = write_transaction u"
    by (simp add: write_transaction_def base_encode_def witness_encode_def)
  then show ?thesis
    using transaction_codec.prefix_free [of t u "[]" "[]"] fits by (simp add: transaction_fits_def)
qed

definition block_hash_inputs :: "(bytes \<Rightarrow> bytes) \<Rightarrow> block \<Rightarrow> bytes set" where
  "block_hash_inputs H b =
     merkle_inputs H (map (witness_hash H) (blk_transactions b)) \<union>
     (\<Union>tx \<in> set (blk_transactions b). tx_hash_inputs H tx)"

lemma map_witness_hash_inj:
  assumes len: "\<And>b. length (H b) = 32"
    and "list_all transaction_fits ts" and "list_all transaction_fits us"
    and "map (witness_hash H) ts = map (witness_hash H) us"
    and "\<not> collision H (\<Union>tx \<in> set ts. tx_hash_inputs H tx) (\<Union>tx \<in> set us. tx_hash_inputs H tx)"
  shows "ts = us"
  using assms(2-)
proof (induction ts arbitrary: us)
  case (Cons t ts)
  obtain u us' where us: "us = u # us'" using Cons.prems(3) by (cases us) auto
  have "\<not> collision H (tx_hash_inputs H t) (tx_hash_inputs H u)"
    using Cons.prems(4) by (auto simp: us collision_def)
  then have "t = u" using witness_hash_inj [OF len] Cons.prems by (auto simp: us)
  moreover have "\<not> collision H (\<Union>tx \<in> set ts. tx_hash_inputs H tx) (\<Union>tx \<in> set us'. tx_hash_inputs H tx)"
    using Cons.prems(4) unfolding us by (auto simp: collision_def)
  then have "ts = us'" using Cons by (simp add: us)
  ultimately show ?case by (simp add: us)
qed simp

lemma witness_root_inj:
  assumes len: "\<And>x. length (H x) = 32"
    and "list_all transaction_fits (blk_transactions b)"
    and "list_all transaction_fits (blk_transactions c)"
    and "block_witness_root H b = block_witness_root H c"
  shows "blk_transactions b = blk_transactions c \<or>
    collision H (block_hash_inputs H b) (block_hash_inputs H c)"
proof (rule disjCI)
  assume nc: "\<not> collision H (block_hash_inputs H b) (block_hash_inputs H c)"
  have "map (witness_hash H) (blk_transactions b) = map (witness_hash H) (blk_transactions c)"
    using assms(4) nc unfolding block_witness_root_def
    by (intro merkle_root_inj [OF len]) (auto simp: block_hash_inputs_def collision_def)
  moreover have "\<not> collision H (\<Union>tx \<in> set (blk_transactions b). tx_hash_inputs H tx)
      (\<Union>tx \<in> set (blk_transactions c). tx_hash_inputs H tx)"
    using nc collision_mono unfolding block_hash_inputs_def by blast
  ultimately show "blk_transactions b = blk_transactions c"
    using map_witness_hash_inj [of H, OF len assms(2,3)] by blast
qed

subsection \<open>Properties\<close>

text \<open>
  A function with outputs of a fixed length that is easy to evaluate: it keeps the first \<open>n\<close>
  bytes.  The examples below apply the theorems to it and extract the collision they promise.
\<close>

definition keep_bytes :: "nat \<Rightarrow> bytes \<Rightarrow> bytes" where
  "keep_bytes n b = take n (b @ replicate n 0)"

lemma length_keep_bytes [simp]: "length (keep_bytes n b) = n"
  by (simp add: keep_bytes_def)

definition example_header :: "u32 \<Rightarrow> header" where
  "example_header bits = \<lparr>hdr_nonce = 0, hdr_time = 0, hdr_prev_block = zero_hash,
     hdr_tree_root = zero_hash, hdr_extra_nonce = replicate 24 0, hdr_reserved_root = zero_hash,
     hdr_witness_root = zero_hash, hdr_merkle_root = zero_hash, hdr_version = 0, hdr_bits = bits,
     hdr_mask = zero_hash\<rparr>"

definition example_transaction :: "u32 \<Rightarrow> transaction" where
  "example_transaction locktime = \<lparr>tx_version = 1,
     tx_inputs = [\<lparr>in_prevout = outpoint_null, in_sequence = 0, in_witness = []\<rparr>],
     tx_outputs = [], tx_locktime = locktime\<rparr>"

definition example_block :: "u32 \<Rightarrow> block" where
  "example_block locktime = \<lparr>blk_header = example_header 0,
     blk_transactions = [example_transaction locktime]\<rparr>"

lemma example_transaction_fits: "transaction_fits (example_transaction n)"
proof -
  have ok: "transaction_ok (example_transaction n)"
    by (simp add: transaction_ok_def example_transaction_def input_ok_def outpoint_ok_def outpoint_null_def
        items_ok_def)
  have "length (write_transaction (example_transaction n)) \<le> 4 + 9 + 40 + 9 + 4 + 9"
    using length_write_varint_le [of 1] length_write_varint_le [of 0]
    by (simp add: write_transaction_def write_transaction_base_def example_transaction_def
        write_input_def write_outpoint_def write_witness_def int_codec_simps outpoint_null_def)
  with ok show ?thesis by (simp add: transaction_fits_def usize_max_def)
qed

text \<open>
  C24: the share hash commits to every field of a header.  Two well-formed headers with the same
  share hash are equal, or two different strings hashed for them collide under BLAKE2b-256, or
  their two preheaders collide under BLAKE2b-512.
\<close>

theorem share_hash_binds_header:
  assumes "\<And>b. length (H b) = 32" and "\<And>b. length (H512 b) = 64"
    and "header_ok g" and "header_ok h" and "share_hash H H512 S g = share_hash H H512 S h"
  shows "g = h \<or> collision H (header_inputs H H512 S g) (header_inputs H H512 S h) \<or>
    collision H512 {preheader H g} {preheader H h}"
  using share_hash_inj [OF assms] by blast

theorem share_hash_binds_header_witness:
  "let H = keep_bytes 32; H512 = keep_bytes 64; S = keep_bytes 32 in
   collision H (header_inputs H H512 S (example_header 1)) (header_inputs H H512 S (example_header 2)) \<or>
   collision H512 {preheader H (example_header 1)} {preheader H (example_header 2)}"
proof -
  have "example_header 1 \<noteq> example_header 2" by (simp add: example_header_def)
  moreover have "header_ok (example_header n)" for n
    by (simp add: header_ok_def example_header_def nonce_size_def)
  moreover have "sub_hash (keep_bytes 32) (example_header 1) = sub_hash (keep_bytes 32) (example_header 2)"
    by (simp add: sub_hash_def subheader_def keep_bytes_def example_header_def int_codec_simps)
  then have "share_hash (keep_bytes 32) (keep_bytes 64) (keep_bytes 32) (example_header 1) =
      share_hash (keep_bytes 32) (keep_bytes 64) (keep_bytes 32) (example_header 2)"
    unfolding share_hash_def preheader_def commit_hash_def
    by (simp add: example_header_def mask_hash_def padding_def)
  ultimately show ?thesis
    using share_hash_binds_header [of "keep_bytes 32" "keep_bytes 64" "example_header 1" "example_header 2"
      "keep_bytes 32"] by simp
qed

text \<open>
  C23: the Merkle root binds the whole list of leaves, whatever the two lengths.  Equal roots mean
  equal lists, or an explicit collision between two strings hashed for nodes of the two trees;
  the leaf and branch markers and the sentinel rule out a second list of another shape.
\<close>

theorem merkle_root_binds_leaves:
  assumes "\<And>b. length (H b) = 32" and "merkle_root H xs = merkle_root H ys"
  shows "xs = ys \<or> collision H (merkle_inputs H xs) (merkle_inputs H ys)"
  using merkle_root_inj [OF assms] by blast

theorem merkle_root_binds_leaves_witness:
  "let xs = [replicate 31 0 @ [1]]; ys = [replicate 31 0 @ [2]]; H = keep_bytes 32
   in merkle_root H xs = merkle_root H ys \<and> collision H (merkle_inputs H xs) (merkle_inputs H ys)"
proof -
  have "merkle_root (keep_bytes 32) [replicate 31 0 @ [1]] = merkle_root (keep_bytes 32) [replicate 31 0 @ [2]]"
    by (simp add: merkle_root_def merkle_loop.simps blake2b_256_many_def keep_bytes_def)
  then show ?thesis
    using merkle_root_binds_leaves [of "keep_bytes 32" "[replicate 31 0 @ [1]]" "[replicate 31 0 @ [2]]"]
    by simp
qed

text \<open>
  C25: the witness root of a block binds its transactions with their witnesses.  Two blocks of
  well-formed transactions with the same witness root have the same transactions, in the same
  order, or an explicit collision between two strings hashed for the two blocks.
\<close>

theorem witness_root_binds_transactions:
  assumes len: "\<And>x. length (H x) = 32"
    and "list_all transaction_fits (blk_transactions b)"
    and "list_all transaction_fits (blk_transactions c)"
    and "block_witness_root H b = block_witness_root H c"
  shows "blk_transactions b = blk_transactions c \<or>
    collision H (block_hash_inputs H b) (block_hash_inputs H c)"
  using assms by (rule witness_root_inj)

theorem witness_root_binds_transactions_witness:
  "block_witness_root (keep_bytes 32) (example_block 1) = block_witness_root (keep_bytes 32) (example_block 2) \<and>
   collision (keep_bytes 32) (block_hash_inputs (keep_bytes 32) (example_block 1))
     (block_hash_inputs (keep_bytes 32) (example_block 2))"
proof -
  have root: "block_witness_root (keep_bytes 32) (example_block 1) =
      block_witness_root (keep_bytes 32) (example_block 2)"
  proof -
    have "write_varint 1 = [1]" by code_simp
    then have "txid (keep_bytes 32) (example_transaction n) =
        take 32 (to_le_bytes (1 :: u32) @ [1] @ zero_hash)" for n
      by (simp add: txid_def base_encode_def write_transaction_base_def example_transaction_def
          write_input_def write_outpoint_def outpoint_null_def int_codec_simps keep_bytes_def)
    then show ?thesis
      by (simp add: block_witness_root_def example_block_def witness_hash_def witness_data_hash_def
          witness_encode_def example_transaction_def)
  qed
  have "blk_transactions (example_block 1) \<noteq> blk_transactions (example_block 2)"
    by (simp add: example_block_def example_transaction_def)
  moreover have "list_all transaction_fits (blk_transactions (example_block n))" for n
    by (simp add: example_block_def example_transaction_fits)
  ultimately show ?thesis
    using root witness_root_binds_transactions [of "keep_bytes 32" "example_block 1" "example_block 2"]
    by simp
qed

text \<open>
  C34: size accounting.  For a block with a well-formed header the computed base size and witness size add up to the length of the encoded
  block, and the block weight is three times the base size plus that length, saturating at the
  largest machine word.
\<close>

theorem block_sizes_exact:
  assumes "header_ok (blk_header b)"
  shows "block_base_size b + block_witness_size b = length (block_encode b) \<and>
    block_weight b = min usize_max (3 * block_base_size b + length (block_encode b))"
proof -
  have varint: "length (write_varint v) = varint_size v" for v
    by (simp add: write_varint_def varint_size_def int_codec_simps)
  have "length (concat (map write_transaction txs)) =
      sum_list (map tx_base_size txs) + sum_list (map tx_witness_size txs)" for txs
    by (induction txs) (simp_all add: length_write_transaction_split)
  then have size: "block_base_size b + block_witness_size b = length (block_encode b)"
    using assms
    by (simp add: block_base_size_def block_witness_size_def block_encode_def write_block_def varint
        length_write_header)
  have "block_weight b = min usize_max (4 * block_base_size b + block_witness_size b)"
    by (simp add: block_weight_def usize_sat_add_def usize_sat_mul_def witness_scale_factor_def
        usize_max_def mult.commute)
  with size show ?thesis by simp
qed

theorem block_sizes_exact_witness:
  "block_base_size (example_block 7) + block_witness_size (example_block 7) =
    length (block_encode (example_block 7))"
proof -
  have "header_ok (blk_header (example_block 7))"
    by (simp add: header_ok_def example_block_def example_header_def nonce_size_def)
  then show ?thesis using block_sizes_exact [of "example_block 7"] by blast
qed

end
