(* ===== verification/Params.thy ===== *)
theory Params
  imports Hashing
begin

unbundle bit_operations_syntax

text \<open>
  Network parameters, issuance and difficulty of \<^verbatim>\<open>crates/hns-consensus/src/lib.rs\<close>: the monetary
  constants, the four networks with their parameter records, the subsidy schedule, the expected
  difficulty bits and their retargeting.  The parameter type of the name rules
  (\<^verbatim>\<open>crates/hns-consensus/src/name.rs\<close>) stands here because the network parameters contain it.
  Hexadecimal constants are parsed by the model of \<^verbatim>\<open>hex32\<close>.
\<close>

subsection \<open>Errors and constants\<close>

datatype consensus_error =
    View string
  | InvalidHeader string
  | InvalidTransaction string
  | InvalidBlock string
  | Authorization string
  | ContextualCovenant string

definition coin_unit :: u64 where "coin_unit = 1000000"
definition max_initial :: u64 where "max_initial = 1360000000 * coin_unit"
definition max_subsidy :: u64 where "max_subsidy = 680000000 * coin_unit"
definition max_money :: u64 where "max_money = 2040000000 * coin_unit"
definition base_reward :: u64 where "base_reward = 2000 * coin_unit"
definition genesis_reward :: u64 where "genesis_reward = base_reward + 2210000"

lemmas money_defs = coin_unit_def max_initial_def max_subsidy_def max_money_def base_reward_def
  genesis_reward_def

subsection \<open>Hexadecimal constants\<close>

definition hex_nibble :: "u8 \<Rightarrow> u8 option" where
  "hex_nibble v =
     (if 48 \<le> v \<and> v \<le> 57 then Some (v - 48)
      else if 97 \<le> v \<and> v \<le> 102 then Some (v - 97 + 10)
      else if 65 \<le> v \<and> v \<le> 70 then Some (v - 65 + 10)
      else None)"

fun hex_pairs :: "u8 list \<Rightarrow> bytes option" where
  "hex_pairs [] = Some []"
| "hex_pairs [_] = None"
| "hex_pairs (a # b # cs) =
     Option.bind (hex_nibble a) (\<lambda>hi. Option.bind (hex_nibble b) (\<lambda>lo.
     map_option (\<lambda>rest. (push_bit 4 hi OR lo) # rest) (hex_pairs cs)))"

text \<open>
  \<^verbatim>\<open>hex32\<close> is evaluated at compile time on literals, where a failed assertion or an invalid digit
  stops the build; the literals below all parse.
\<close>

definition hex32_checked :: "string \<Rightarrow> bytes option" where
  "hex32_checked s = (if length s = 64 then hex_pairs (map of_char s) else None)"

definition hex32 :: "string \<Rightarrow> bytes" where
  "hex32 s = the (hex32_checked s)"

subsection \<open>Networks\<close>

datatype network = Mainnet | Testnet | Regtest | Simnet

fun canonical_id :: "network \<Rightarrow> u8" where
  "canonical_id Mainnet = 0"
| "canonical_id Testnet = 1"
| "canonical_id Regtest = 2"
| "canonical_id Simnet = 3"

definition from_canonical_id :: "u8 \<Rightarrow> network option" where
  "from_canonical_id i =
     (if i = 0 then Some Mainnet else if i = 1 then Some Testnet else if i = 2 then Some Regtest
      else if i = 3 then Some Simnet else None)"

fun claim_prefix :: "network \<Rightarrow> string" where
  "claim_prefix Mainnet = ''hns-claim:''"
| "claim_prefix Testnet = ''hns-testnet:''"
| "claim_prefix Regtest = ''hns-regtest:''"
| "claim_prefix Simnet = ''hns-simnet:''"

definition network_from_str :: "string \<Rightarrow> string + network" where
  "network_from_str v =
     (if v = ''main'' \<or> v = ''mainnet'' then Inr Mainnet
      else if v = ''test'' \<or> v = ''testnet'' then Inr Testnet
      else if v = ''regtest'' then Inr Regtest
      else if v = ''sim'' \<or> v = ''simnet'' then Inr Simnet
      else Inl v)"

fun network_display :: "network \<Rightarrow> string" where
  "network_display Mainnet = ''mainnet''"
| "network_display Testnet = ''testnet''"
| "network_display Regtest = ''regtest''"
| "network_display Simnet = ''simnet''"

record name_params =
  nmp_auction_start :: u32
  nmp_rollout_interval :: u32
  nmp_lockup_period :: u32
  nmp_renewal_window :: u32
  nmp_renewal_period :: u32
  nmp_renewal_maturity :: u32
  nmp_claim_period :: u32
  nmp_alexa_lockup_period :: u32
  nmp_claim_frequency :: u32
  nmp_bidding_period :: u32
  nmp_reveal_period :: u32
  nmp_tree_interval :: u32
  nmp_transfer_lockup :: u32
  nmp_auction_maturity :: u32
  nmp_no_rollout :: bool
  nmp_no_reserved :: bool

record pow_params =
  pow_limit :: bytes
  pow_bits :: u32
  pow_target_window :: u32
  pow_target_spacing :: u32
  pow_target_timespan :: u32
  pow_minimum_actual_timespan :: u32
  pow_maximum_actual_timespan :: u32
  pow_target_reset :: bool
  pow_no_retargeting :: bool

record block_retention_params =
  brp_prune_after_height :: u32
  brp_keep_blocks :: u32

record network_params =
  np_network_id :: u8
  np_packet_magic :: u32
  np_port :: u16
  np_brontide_port :: u16
  np_halving_interval :: u32
  np_coinbase_maturity :: u32
  np_tx_start :: u32
  np_goosig_stop :: u32
  np_deflation_height :: u32
  np_activation_threshold :: u32
  np_miner_window :: u32
  np_block :: block_retention_params
  np_names :: name_params
  np_pow :: pow_params
  np_genesis_hash :: bytes
  np_genesis_time :: u64

definition mainnet_names :: name_params where
  "mainnet_names = \<lparr>nmp_auction_start = 2016, nmp_rollout_interval = 1008, nmp_lockup_period = 4320,
    nmp_renewal_window = 105120, nmp_renewal_period = 26208, nmp_renewal_maturity = 4320,
    nmp_claim_period = 210240, nmp_alexa_lockup_period = 420480, nmp_claim_frequency = 288,
    nmp_bidding_period = 720, nmp_reveal_period = 1440, nmp_tree_interval = 36,
    nmp_transfer_lockup = 288, nmp_auction_maturity = 4176, nmp_no_rollout = False,
    nmp_no_reserved = False\<rparr>"

definition mainnet_pow :: pow_params where
  "mainnet_pow = \<lparr>pow_limit = hex32 ''0000000000ffff00000000000000000000000000000000000000000000000000'',
    pow_bits = 0x1c00ffff, pow_target_window = 144, pow_target_spacing = 600,
    pow_target_timespan = 86400, pow_minimum_actual_timespan = 21600,
    pow_maximum_actual_timespan = 345600, pow_target_reset = False,
    pow_no_retargeting = False\<rparr>"

definition mainnet_params :: network_params where
  "mainnet_params = \<lparr>np_network_id = 0, np_packet_magic = 0x5b6ef2d3, np_port = 12038,
    np_brontide_port = 44806, np_halving_interval = 170000, np_coinbase_maturity = 100,
    np_tx_start = 2016, np_goosig_stop = 56880, np_deflation_height = 61043,
    np_activation_threshold = 1916, np_miner_window = 2016,
    np_block = \<lparr>brp_prune_after_height = 1000, brp_keep_blocks = 288\<rparr>,
    np_names = mainnet_names, np_pow = mainnet_pow,
    np_genesis_hash = hex32 ''5b6ef2d3c1f3cdcadfd9a030ba1811efdd17740f14e166489760741d075992e0'',
    np_genesis_time = 1580745078\<rparr>"

definition testnet_names :: name_params where
  "testnet_names = \<lparr>nmp_auction_start = 36, nmp_rollout_interval = 36, nmp_lockup_period = 36,
    nmp_renewal_window = 4320, nmp_renewal_period = 1008, nmp_renewal_maturity = 144,
    nmp_claim_period = 12960, nmp_alexa_lockup_period = 25920, nmp_claim_frequency = 288,
    nmp_bidding_period = 144, nmp_reveal_period = 288, nmp_tree_interval = 36,
    nmp_transfer_lockup = 288, nmp_auction_maturity = 1008, nmp_no_rollout = False,
    nmp_no_reserved = False\<rparr>"

definition testnet_pow :: pow_params where
  "testnet_pow = \<lparr>pow_limit = hex32 ''00000000ffff0000000000000000000000000000000000000000000000000000'',
    pow_bits = 0x1d00ffff, pow_target_window = 144, pow_target_spacing = 600,
    pow_target_timespan = 86400, pow_minimum_actual_timespan = 21600,
    pow_maximum_actual_timespan = 345600, pow_target_reset = True,
    pow_no_retargeting = False\<rparr>"

definition testnet_params :: network_params where
  "testnet_params = \<lparr>np_network_id = 1, np_packet_magic = 0xb1520dd2, np_port = 13038,
    np_brontide_port = 45806, np_halving_interval = 170000, np_coinbase_maturity = 100,
    np_tx_start = 0, np_goosig_stop = 2880, np_deflation_height = 0,
    np_activation_threshold = 1512, np_miner_window = 2016,
    np_block = \<lparr>brp_prune_after_height = 1000, brp_keep_blocks = 10000\<rparr>,
    np_names = testnet_names, np_pow = testnet_pow,
    np_genesis_hash = hex32 ''b1520dd24372f82ec94ebf8cf9d9b037d419c4aa3575d05dec70aedd1b427901'',
    np_genesis_time = 1580745079\<rparr>"

definition regtest_names :: name_params where
  "regtest_names = \<lparr>nmp_auction_start = 0, nmp_rollout_interval = 2, nmp_lockup_period = 2,
    nmp_renewal_window = 5000, nmp_renewal_period = 2500, nmp_renewal_maturity = 50,
    nmp_claim_period = 250000, nmp_alexa_lockup_period = 500000, nmp_claim_frequency = 0,
    nmp_bidding_period = 5, nmp_reveal_period = 10, nmp_tree_interval = 5,
    nmp_transfer_lockup = 10, nmp_auction_maturity = 65, nmp_no_rollout = False,
    nmp_no_reserved = False\<rparr>"

definition regtest_pow :: pow_params where
  "regtest_pow = \<lparr>pow_limit = hex32 ''7fffff0000000000000000000000000000000000000000000000000000000000'',
    pow_bits = 0x207fffff, pow_target_window = 144, pow_target_spacing = 600,
    pow_target_timespan = 86400, pow_minimum_actual_timespan = 21600,
    pow_maximum_actual_timespan = 345600, pow_target_reset = True, pow_no_retargeting = True\<rparr>"

definition regtest_params :: network_params where
  "regtest_params = \<lparr>np_network_id = 2, np_packet_magic = 0xae3895cf, np_port = 14038,
    np_brontide_port = 46806, np_halving_interval = 2500, np_coinbase_maturity = 2,
    np_tx_start = 0, np_goosig_stop = 0xffffffff, np_deflation_height = 200,
    np_activation_threshold = 108, np_miner_window = 144,
    np_block = \<lparr>brp_prune_after_height = 1000, brp_keep_blocks = 10000\<rparr>,
    np_names = regtest_names, np_pow = regtest_pow,
    np_genesis_hash = hex32 ''ae3895cf597eff05b19e02a70ceeeecb9dc72dbfe6504a50e9343a72f06a87c5'',
    np_genesis_time = 1580745080\<rparr>"

definition simnet_names :: name_params where
  "simnet_names = \<lparr>nmp_auction_start = 0, nmp_rollout_interval = 1, nmp_lockup_period = 1,
    nmp_renewal_window = 2500, nmp_renewal_period = 1250, nmp_renewal_maturity = 25,
    nmp_claim_period = 75000, nmp_alexa_lockup_period = 150000, nmp_claim_frequency = 0,
    nmp_bidding_period = 25, nmp_reveal_period = 50, nmp_tree_interval = 2,
    nmp_transfer_lockup = 5, nmp_auction_maturity = 100, nmp_no_rollout = False,
    nmp_no_reserved = False\<rparr>"

definition simnet_pow :: pow_params where
  "simnet_pow = \<lparr>pow_limit = hex32 ''7fffff0000000000000000000000000000000000000000000000000000000000'',
    pow_bits = 0x207fffff, pow_target_window = 144, pow_target_spacing = 600,
    pow_target_timespan = 86400, pow_minimum_actual_timespan = 21600,
    pow_maximum_actual_timespan = 345600, pow_target_reset = False,
    pow_no_retargeting = False\<rparr>"

definition simnet_params :: network_params where
  "simnet_params = \<lparr>np_network_id = 3, np_packet_magic = 0x0e648edc, np_port = 15038,
    np_brontide_port = 47806, np_halving_interval = 170000, np_coinbase_maturity = 6,
    np_tx_start = 0, np_goosig_stop = 0xffffffff, np_deflation_height = 0,
    np_activation_threshold = 75, np_miner_window = 100,
    np_block = \<lparr>brp_prune_after_height = 1000, brp_keep_blocks = 10000\<rparr>,
    np_names = simnet_names, np_pow = simnet_pow,
    np_genesis_hash = hex32 ''0e648edc9cddb179014658061ea3f666a45cf44881877ae506e6babefbef6992'',
    np_genesis_time = 1580745081\<rparr>"

fun params :: "network \<Rightarrow> network_params" where
  "params Mainnet = mainnet_params"
| "params Testnet = testnet_params"
| "params Regtest = regtest_params"
| "params Simnet = simnet_params"

definition header_default :: header where
  "header_default = \<lparr>hdr_nonce = 0, hdr_time = 0, hdr_prev_block = zero_hash,
     hdr_tree_root = zero_hash, hdr_extra_nonce = replicate nonce_size 0,
     hdr_reserved_root = zero_hash, hdr_witness_root = zero_hash, hdr_merkle_root = zero_hash,
     hdr_version = 0, hdr_bits = 0, hdr_mask = zero_hash\<rparr>"

definition genesis_header :: "network_params \<Rightarrow> header" where
  "genesis_header p = header_default\<lparr>hdr_time := np_genesis_time p,
     hdr_merkle_root := hex32 ''8e4c9756fef2ad10375f360e0560fcc7587eb5223ddf8cd7c7e06e60a1140b15'',
     hdr_witness_root := hex32 ''1a2c60b9439206938f8d7823782abdb8b211a57431e9c9b6a6365d8d42893351'',
     hdr_bits := pow_bits (np_pow p)\<rparr>"

subsection \<open>Subsidy\<close>

text \<open>\<^verbatim>\<open>None\<close> is the panic of the assertion on the interval.\<close>

definition block_subsidy :: "u32 \<Rightarrow> u32 \<Rightarrow> u64 option" where
  "block_subsidy height halving_interval =
     (if halving_interval = 0 then None
      else
        let halvings = height div halving_interval
        in Some (if halvings \<ge> 52 then 0 else drop_bit (unat halvings) base_reward))"

definition params_block_subsidy :: "network_params \<Rightarrow> u32 \<Rightarrow> u64 option" where
  "params_block_subsidy p height = block_subsidy height (np_halving_interval p)"

definition block_reward :: "network_params \<Rightarrow> u32 \<Rightarrow> u64 option" where
  "block_reward p height = (if height = 0 then Some genesis_reward else params_block_subsidy p height)"

subsection \<open>Difficulty\<close>

record difficulty_point =
  dp_height :: u32
  dp_time :: u64
  dp_bits :: u32
  dp_chainwork :: uint256

definition clamp :: "u64 \<Rightarrow> u64 \<Rightarrow> u64 \<Rightarrow> u64" where
  "clamp v lo hi = (if v < lo then lo else if v > hi then hi else v)"

definition retarget_bits ::
  "pow_params \<Rightarrow> difficulty_point \<Rightarrow> difficulty_point \<Rightarrow> consensus_error + u32" where
  "retarget_bits pow fst_point lst_point =
     (if dp_height lst_point \<le> dp_height fst_point
      then Inl (InvalidHeader ''difficulty points are not height ordered'')
      else
        and_then (ok_or (uint256_checked_sub (dp_chainwork lst_point) (dp_chainwork fst_point))
          (InvalidHeader ''difficulty chainwork regressed'')) (\<lambda>work_delta.
        and_then (ok_or (uint256_checked_mul_u64 work_delta (ucast (pow_target_spacing pow)))
          (InvalidHeader ''difficulty work calculation overflowed'')) (\<lambda>scaled_work.
        let actual_timespan =
              clamp (sat_sub (dp_time lst_point) (dp_time fst_point))
                (ucast (pow_minimum_actual_timespan pow)) (ucast (pow_maximum_actual_timespan pow))
        in
        and_then (ok_or (uint256_div_u64 scaled_work actual_timespan)
          (InvalidHeader ''invalid difficulty timespan'')) (\<lambda>work.
        if work = uint256_zero then Inr (pow_bits pow)
        else
          and_then (ok_or (target_for_work work)
            (InvalidHeader ''invalid difficulty work target'')) (\<lambda>target.
          if \<not> bytes_le target (pow_limit pow) then Inr (pow_bits pow)
          else Inr (compact_from_target target))))))"

definition expected_next_bits ::
  "pow_params \<Rightarrow> u64 \<Rightarrow> difficulty_point \<Rightarrow> difficulty_point option \<Rightarrow> difficulty_point option \<Rightarrow>
   consensus_error + u32" where
  "expected_next_bits pow next_time previous first_suitable last_suitable =
     (if pow_no_retargeting pow then Inr (pow_bits pow)
      else if pow_target_reset pow \<and>
        next_time > sat_add (dp_time previous) (sat_mul (ucast (pow_target_spacing pow)) 2)
      then Inr (pow_bits pow)
      else if dp_height previous < sat_add (pow_target_window pow) 2
      then if dp_bits previous \<noteq> pow_bits pow
           then Inl (InvalidHeader ''unexpected early-chain difficulty bits'')
           else Inr (pow_bits pow)
      else
        and_then (ok_or first_suitable
          (InvalidHeader ''missing first suitable difficulty block'')) (\<lambda>fst_point.
        and_then (ok_or last_suitable
          (InvalidHeader ''missing last suitable difficulty block'')) (\<lambda>lst_point.
        retarget_bits pow fst_point lst_point)))"

subsection \<open>Issuance\<close>

definition subsidy_nat :: "nat \<Rightarrow> nat \<Rightarrow> nat" where
  "subsidy_nat interval h = (if 52 \<le> h div interval then 0 else 2000000000 div 2 ^ (h div interval))"

lemma unat_base_reward: "unat base_reward = 2000000000"
  by (simp add: money_defs)

lemma block_subsidy_nat:
  assumes "i \<noteq> 0"
  shows "\<exists>s. block_subsidy h i = Some s \<and> unat s = subsidy_nat (unat i) (unat h)"
proof -
  have "unat (h div i) = unat h div unat i" by (simp add: unat_div_distrib)
  then show ?thesis
    using assms
    by (simp add: block_subsidy_def Let_def subsidy_nat_def word_le_nat_alt unat_drop_bit unat_base_reward)
qed

lemma sum_div_blocks:
  fixes f :: "nat \<Rightarrow> nat"
  assumes "0 < i"
  shows "(\<Sum>h < n * i. f (h div i)) = i * (\<Sum>k < n. f k)"
proof -
  have "(\<Sum>h \<in> {m * i..<m * i + i}. f (h div i)) = i * f m" for m
  proof -
    have "h div i = m" if "h \<in> {m * i..<m * i + i}" for h
      using that assms by (intro div_nat_eqI) (auto simp: mult.commute)
    then have "(\<Sum>h \<in> {m * i..<m * i + i}. f (h div i)) = (\<Sum>h \<in> {m * i..<m * i + i}. f m)"
      by (intro sum.cong) auto
    then show ?thesis by simp
  qed
  moreover have "(\<Sum>h < n * i. f (h div i)) = (\<Sum>m < n. \<Sum>h \<in> {m * i..<m * i + i}. f (h div i))"
    by (rule sum.nat_group [symmetric])
  ultimately show ?thesis by (simp add: sum_distrib_left)
qed

lemma halvings_total: "(\<Sum>k < 52. 2000000000 div 2 ^ k :: nat) = 3999999987"
  by (simp add: lessThan_nat_numeral)

lemma subsidy_total:
  assumes "0 < i" and "52 * i \<le> 2 ^ 32"
  shows "(\<Sum>h < 2 ^ 32. subsidy_nat i h) = i * 3999999987"
proof -
  have "(\<Sum>h < 2 ^ 32. subsidy_nat i h) = (\<Sum>h < 52 * i. subsidy_nat i h)"
  proof (rule sum.mono_neutral_right)
    show "\<forall>h \<in> {..<2 ^ 32} - {..<52 * i}. subsidy_nat i h = 0"
      using assms(1) by (auto simp: subsidy_nat_def less_eq_div_iff_mult_less_eq not_less)
  qed (use assms(2) in auto)
  also have "\<dots> = (\<Sum>h < 52 * i. (\<lambda>k. if 52 \<le> k then 0 else 2000000000 div 2 ^ k) (h div i))"
    by (simp add: subsidy_nat_def)
  also have "\<dots> = i * (\<Sum>k < 52. if 52 \<le> k then 0 else 2000000000 div 2 ^ k)"
    by (rule sum_div_blocks [OF assms(1)])
  also have "(\<Sum>k < 52. if 52 \<le> k then 0 else 2000000000 div 2 ^ k :: nat) = 3999999987"
    using halvings_total by simp
  finally show ?thesis .
qed

lemma reward_total:
  assumes "np_halving_interval p = i" and "i \<noteq> 0" and "52 * unat i \<le> 2 ^ 32"
  shows "(\<Sum>h < 2 ^ 32. unat (the (block_reward p (word_of_nat h)))) = unat i * 3999999987 + 2210000"
proof -
  have reward: "unat (the (block_reward p (word_of_nat h))) =
      subsidy_nat (unat i) h + (if h = 0 then 2210000 else 0)" if "h < 2 ^ 32" for h
  proof -
    have h: "unat (word_of_nat h :: u32) = h" using that by (simp add: unat_of_nat)
    then have "(word_of_nat h :: u32) = 0 \<longleftrightarrow> h = 0" by (metis unat_0 unat_eq_zero)
    with block_subsidy_nat [OF assms(2), of "word_of_nat h"] h show ?thesis
      by (auto simp: block_reward_def params_block_subsidy_def assms(1) money_defs subsidy_nat_def)
  qed
  have "(\<Sum>h < 2 ^ 32. unat (the (block_reward p (word_of_nat h)))) =
      (\<Sum>h < 2 ^ 32. subsidy_nat (unat i) h + (if h = 0 then 2210000 else 0))"
    by (rule sum.cong) (simp_all add: reward del: power_numeral)
  also have "\<dots> = (\<Sum>h < 2 ^ 32. subsidy_nat (unat i) h) +
      (\<Sum>h \<in> {..<2 ^ 32 :: nat}. if h = 0 then 2210000 else (0 :: nat))"
    by (rule sum.distrib)
  also have "(\<Sum>h \<in> {..<2 ^ 32 :: nat}. if h = 0 then 2210000 else (0 :: nat)) = 2210000"
    by (subst sum.delta) simp_all
  finally show ?thesis using subsidy_total [of "unat i"] assms(2,3) by (simp add: unat_gt_0)
qed

text \<open>
  C8: the reward schedule issues a fixed total.  Summed over every height a block can have, the
  block rewards of the main, test and simulation networks are exactly \<^verbatim>\<open>MAX_SUBSIDY\<close> (the odd
  2210000 units of the genesis reward make up for the rounding of 52 halvings), and with
  \<^verbatim>\<open>MAX_INITIAL\<close> they reach exactly \<^verbatim>\<open>MAX_MONEY\<close>; the regression network issues less.
\<close>

theorem total_issuance_exact:
  "(\<Sum>h < 2 ^ 32. unat (the (block_reward (params n) (word_of_nat h)))) =
     (if n = Regtest then 10000002177500 else unat max_subsidy) \<and>
   unat max_initial + unat max_subsidy = unat max_money"
proof
  show "unat max_initial + unat max_subsidy = unat max_money"
    by (simp add: money_defs)
next
  show "(\<Sum>h < 2 ^ 32. unat (the (block_reward (params n) (word_of_nat h)))) =
     (if n = Regtest then 10000002177500 else unat max_subsidy)"
    using reward_total [of "params n" 170000] reward_total [of "params n" 2500]
    by (cases n) (simp_all add: mainnet_params_def testnet_params_def regtest_params_def
      simnet_params_def money_defs)
qed


subsection \<open>Difficulty on numbers\<close>

definition point_ok :: "difficulty_point \<Rightarrow> bool" where
  "point_ok p \<longleftrightarrow> uint256_ok (dp_chainwork p)"

definition retarget_span :: "pow_params \<Rightarrow> difficulty_point \<Rightarrow> difficulty_point \<Rightarrow> nat" where
  "retarget_span pow a b =
     (let span = unat (dp_time b) - unat (dp_time a);
          lo = unat (pow_minimum_actual_timespan pow); hi = unat (pow_maximum_actual_timespan pow)
      in if span < lo then lo else min span hi)"

definition retarget_work :: "pow_params \<Rightarrow> difficulty_point \<Rightarrow> difficulty_point \<Rightarrow> nat" where
  "retarget_work pow a b =
     (be_val (dp_chainwork b) - be_val (dp_chainwork a)) * unat (pow_target_spacing pow)
       div retarget_span pow a b"

lemma unat_ucast_32_64 [simp]: "unat (ucast (x :: u32) :: u64) = unat x"
  by transfer (simp add: take_bit_eq_mod nat_mod_distrib)

lemma unat_clamp_span:
  "unat (clamp (sat_sub (dp_time b) (dp_time a)) (ucast (pow_minimum_actual_timespan pow))
     (ucast (pow_maximum_actual_timespan pow))) = retarget_span pow a b"
proof -
  have "unat (sat_sub (dp_time b) (dp_time a)) = unat (dp_time b) - unat (dp_time a)"
    by (auto simp: sat_sub_def unat_sub word_le_nat_alt)
  then show ?thesis
    by (auto simp: clamp_def retarget_span_def Let_def word_less_nat_alt min_def)
qed

lemma be_val_new_target: "be_val (u256 (2 ^ 256 div w - 1)) = 2 ^ 256 div w - 1"
proof -
  have "x - 1 < m" if "x \<le> m" "0 < m" for x m :: nat using that by linarith
  from this [OF div_le_dividend [of "2 ^ 256" w]] have "2 ^ 256 div w - 1 < (2 :: nat) ^ 256" by simp
  then show ?thesis unfolding be_val_u256 by (rule mod_less)
qed

lemma retarget_bits_spec:
  assumes "point_ok a" and "point_ok b" and "length (pow_limit pow) = 32"
    and "dp_height a < dp_height b" and "be_val (dp_chainwork a) \<le> be_val (dp_chainwork b)"
    and "(be_val (dp_chainwork b) - be_val (dp_chainwork a)) * unat (pow_target_spacing pow) < 2 ^ 256"
    and "0 < retarget_span pow a b"
  shows "retarget_bits pow a b = Inr
    (let w = retarget_work pow a b
     in if w = 0 \<or> be_val (pow_limit pow) < 2 ^ 256 div w - 1 then pow_bits pow
        else compact_from_target (u256 (2 ^ 256 div w - 1)))"
proof -
  define span where "span = clamp (sat_sub (dp_time b) (dp_time a))
    (ucast (pow_minimum_actual_timespan pow)) (ucast (pow_maximum_actual_timespan pow))"
  define x where "x = (be_val (dp_chainwork b) - be_val (dp_chainwork a)) * unat (pow_target_spacing pow)"
  define w where "w = retarget_work pow a b"
  have cw: "uint256_ok (dp_chainwork a)" "uint256_ok (dp_chainwork b)"
    using assms(1,2) by (simp_all add: point_ok_def)
  have span: "unat span = retarget_span pow a b" unfolding span_def by (rule unat_clamp_span)
  then have nz: "span \<noteq> 0" using assms(7) by auto
  have delta: "be_val (dp_chainwork b) - be_val (dp_chainwork a) < 2 ^ 256"
    using uint256_less [OF cw(2)] by (rule le_less_trans [OF diff_le_self])
  have w: "w = x div unat span" by (simp add: w_def x_def retarget_work_def span)
  have "w \<le> x" unfolding w by (rule div_le_dividend)
  also have "x < 2 ^ 256" using assms(6) by (simp only: x_def)
  finally have wv: "be_val (u256 w) = w" unfolding be_val_u256 by (rule mod_less)
  have "uint256_checked_sub (dp_chainwork b) (dp_chainwork a) =
      Some (u256 (be_val (dp_chainwork b) - be_val (dp_chainwork a)))"
    by (simp add: uint256_checked_sub_spec cw assms(5))
  moreover have "uint256_checked_mul_u64 (u256 (be_val (dp_chainwork b) - be_val (dp_chainwork a)))
      (ucast (pow_target_spacing pow)) = Some (u256 x)"
    using assms(6) mod_less [OF delta]
    by (simp only: uint256_checked_mul_u64_spec uint256_ok_u256 be_val_u256 unat_ucast_32_64 x_def if_True)
  moreover have "uint256_div_u64 (u256 x) span = Some (u256 w)"
    using nz mod_less [OF \<open>x < 2 ^ 256\<close>]
    by (simp only: uint256_div_u64_spec uint256_ok_u256 be_val_u256 w if_False)
  moreover have "u256 w = uint256_zero \<longleftrightarrow> w = 0"
    using u256_inject [of w 0] \<open>w \<le> x\<close> \<open>x < 2 ^ 256\<close> by (simp add: uint256_zero_eq)
  moreover have "target_for_work (u256 w) = (if w = 0 then None else Some (u256 (2 ^ 256 div w - 1)))"
    by (simp only: target_for_work_spec uint256_ok_u256 wv)
  moreover have "bytes_le (u256 (2 ^ 256 div w - 1)) (pow_limit pow) \<longleftrightarrow> 2 ^ 256 div w - 1 \<le> be_val (pow_limit pow)"
    by (simp only: bytes_le_iff_be_val length_u256 assms(3) be_val_new_target)
  ultimately show ?thesis
    using assms(4) unfolding retarget_bits_def w_def [symmetric] span_def [symmetric]
    by (simp add: ok_or_def not_le Let_def del: power_numeral)
qed


lemma retarget_bits_cases:
  assumes "point_ok a" and "point_ok b" and "retarget_bits pow a b = Inr bits"
  obtains "bits = pow_bits pow"
  | t where "uint256_ok t" and "bytes_le t (pow_limit pow)" and "bits = compact_from_target t"
proof -
  have cw: "uint256_ok (dp_chainwork a)" "uint256_ok (dp_chainwork b)"
    using assms(1,2) by (simp_all add: point_ok_def)
  from assms(3) consider "bits = pow_bits pow"
    | d s w t m where "uint256_checked_sub (dp_chainwork b) (dp_chainwork a) = Some d"
        "uint256_checked_mul_u64 d (ucast (pow_target_spacing pow)) = Some s"
        "uint256_div_u64 s m = Some w" "target_for_work w = Some t"
        "bytes_le t (pow_limit pow)" "bits = compact_from_target t"
    by (auto simp: retarget_bits_def and_then_eq_Inr ok_or_def Let_def split: if_splits option.splits)
  then show thesis
  proof cases
    case (2 d s w t m)
    then have "uint256_ok d" using cw by (auto simp: uint256_checked_sub_spec split: if_splits)
    with 2(2) have "uint256_ok s" by (auto simp: uint256_checked_mul_u64_spec split: if_splits)
    with 2(3) have "uint256_ok w" by (auto simp: uint256_div_u64_spec split: if_splits)
    with 2(4) have "uint256_ok t" by (auto simp: target_for_work_spec split: if_splits)
    with 2(5,6) that(2) show thesis by blast
  qed (rule that(1))
qed

lemma np_pow_params [simp]:
  "np_pow mainnet_params = mainnet_pow" "np_pow testnet_params = testnet_pow"
  "np_pow regtest_params = regtest_pow" "np_pow simnet_params = simnet_pow"
  by (simp_all add: mainnet_params_def testnet_params_def regtest_params_def simnet_params_def)

lemmas pow_params_defs = mainnet_pow_def testnet_pow_def regtest_pow_def simnet_pow_def

lemma pow_limit_bytes:
  "pow_limit mainnet_pow = [0, 0, 0, 0, 0, 255, 255] @ replicate 25 0"
  "pow_limit testnet_pow = [0, 0, 0, 0, 255, 255] @ replicate 26 0"
  "pow_limit regtest_pow = [127, 255, 255] @ replicate 29 0"
  "pow_limit simnet_pow = [127, 255, 255] @ replicate 29 0"
  by code_simp+

lemma pow_limit_bits:
  "compact_from_bits (pow_bits (np_pow (params n))) =
     \<lparr>ct_bytes = pow_limit (np_pow (params n)), ct_negative = False, ct_overflow = False\<rparr>"
  by (cases n; simp only: params.simps np_pow_params pow_limit_bytes; code_simp)

lemma length_pow_limit: "length (pow_limit (np_pow (params n))) = 32"
  by (cases n) (simp_all add: pow_limit_bytes)

lemma pow_timing:
  "pow_target_spacing (np_pow (params n)) = 600 \<and>
   pow_minimum_actual_timespan (np_pow (params n)) = 21600 \<and>
   pow_maximum_actual_timespan (np_pow (params n)) = 345600"
  by (cases n) (simp_all add: pow_params_defs)

lemma retarget_span_network:
  "retarget_span (np_pow (params n)) a b = max 21600 (min (unat (dp_time b) - unat (dp_time a)) 345600)"
  by (auto simp: retarget_span_def pow_timing Let_def)

lemma retarget_network:
  assumes "point_ok a" and "point_ok b"
    and "dp_height a < dp_height b" and "be_val (dp_chainwork a) \<le> be_val (dp_chainwork b)"
    and "be_val (dp_chainwork b) < 2 ^ 224"
  shows "let pow = np_pow (params n); span = unat (dp_time b) - unat (dp_time a);
      w = (be_val (dp_chainwork b) - be_val (dp_chainwork a)) * 600 div max 21600 (min span 345600)
    in retarget_bits pow a b = Inr
      (if w = 0 \<or> be_val (pow_limit pow) < 2 ^ 256 div w - 1 then pow_bits pow
       else compact_from_target (u256 (2 ^ 256 div w - 1)))"
proof -
  have u: "unat (pow_target_spacing (np_pow (params n))) = 600" by (simp add: pow_timing)
  have pos: "0 < retarget_span (np_pow (params n)) a b" by (simp add: retarget_span_network)
  have "(x - y) * 600 < 2 ^ 256" if "x < 2 ^ 224" for x y :: nat
    using that by simp
  from this [OF assms(5)] have
    "(be_val (dp_chainwork b) - be_val (dp_chainwork a)) * unat (pow_target_spacing (np_pow (params n))) < 2 ^ 256"
    unfolding u .
  from retarget_bits_spec [OF assms(1,2) length_pow_limit assms(3,4) this pos] show ?thesis
    unfolding Let_def retarget_work_def retarget_span_network u .
qed

text \<open>Two points 144 blocks and a day apart, with work \<open>2 ^ 44\<close> in every block.\<close>

definition example_points :: "difficulty_point \<times> difficulty_point" where
  "example_points =
    (\<lparr>dp_height = 1000, dp_time = 1600000000, dp_bits = 0x1b0fffff, dp_chainwork = u256 (1000 * 2 ^ 44)\<rparr>,
     \<lparr>dp_height = 1144, dp_time = 1600086400, dp_bits = 0x1b0fffff, dp_chainwork = u256 (1144 * 2 ^ 44)\<rparr>)"

lemma example_points_ok: "point_ok (fst example_points)" "point_ok (snd example_points)"
  by (simp_all add: example_points_def point_ok_def)

lemma expected_bits_limit:
  assumes "pred_option point_ok first_suitable" and "pred_option point_ok last_suitable"
    and "expected_next_bits (np_pow (params n)) t previous first_suitable last_suitable = Inr bits"
  shows "let c = compact_from_bits bits; limit = pow_limit (np_pow (params n))
    in \<not> ct_negative c \<and> \<not> ct_overflow c \<and> be_val (ct_bytes c) \<le> be_val limit \<and>
      ct_bytes (compact_from_bits (pow_bits (np_pow (params n)))) = limit"
proof -
  from assms consider "bits = pow_bits (np_pow (params n))"
    | a b where "point_ok a" "point_ok b" "retarget_bits (np_pow (params n)) a b = Inr bits"
    by (auto simp: expected_next_bits_def and_then_eq_Inr ok_or_def split: if_splits option.splits)
  then consider "bits = pow_bits (np_pow (params n))"
    | x where "uint256_ok x" "bytes_le x (pow_limit (np_pow (params n)))" "bits = compact_from_target x"
    by cases (auto elim: retarget_bits_cases)
  then show ?thesis
  proof cases
    case 1
    then show ?thesis by (simp add: pow_limit_bits)
  next
    case (2 x)
    then have "be_val x \<le> be_val (pow_limit (np_pow (params n)))"
      by (simp add: bytes_le_iff_be_val length_pow_limit uint256_ok_def)
    with compact_decode_le [OF 2(1)] 2(3) show ?thesis by (auto simp: pow_limit_bits Let_def)
  qed
qed

text \<open>
  C19: no network ever asks for less work than its limit allows.  Whatever the next block's time and
  the points the retarget looks at, the bits expected of the next block decode to a number that is
  not negative, does not overflow and is not above the proof-of-work limit; the bits of the limit
  itself decode to exactly the limit.
\<close>

theorem expected_bits_within_limit:
  assumes "pred_option point_ok first_suitable" and "pred_option point_ok last_suitable"
    and "expected_next_bits (np_pow (params n)) t previous first_suitable last_suitable = Inr bits"
  shows "let c = compact_from_bits bits; limit = pow_limit (np_pow (params n))
    in \<not> ct_negative c \<and> \<not> ct_overflow c \<and> be_val (ct_bytes c) \<le> be_val limit \<and>
      ct_bytes (compact_from_bits (pow_bits (np_pow (params n)))) = limit"
  using assms by (rule expected_bits_limit)

theorem expected_bits_within_limit_witness:
  "let f = fst example_points; l = snd example_points
   in \<exists>bits. expected_next_bits (np_pow (params Mainnet)) 1600090000 l (Some f) (Some l) = Inr bits \<and>
     be_val (ct_bytes (compact_from_bits bits)) \<le> be_val (pow_limit mainnet_pow)"
proof -
  let ?f = "fst example_points" and ?l = "snd example_points"
  have "expected_next_bits (np_pow (params Mainnet)) 1600090000 ?l (Some ?f) (Some ?l) =
      retarget_bits (np_pow (params Mainnet)) ?f ?l"
    by (simp add: expected_next_bits_def mainnet_params_def mainnet_pow_def example_points_def sat_add_def)
  moreover obtain bits where "retarget_bits (np_pow (params Mainnet)) ?f ?l = Inr bits"
    using retarget_network [OF example_points_ok, of Mainnet]
    by (simp add: example_points_def be_val_u256 Let_def)
  ultimately have "expected_next_bits (np_pow (params Mainnet)) 1600090000 ?l (Some ?f) (Some ?l) = Inr bits"
    by simp
  moreover from expected_bits_within_limit [OF _ _ this] example_points_ok
  have "be_val (ct_bytes (compact_from_bits bits)) \<le> be_val (pow_limit mainnet_pow)"
    by (simp add: Let_def mainnet_params_def)
  ultimately show ?thesis by (auto simp: Let_def)
qed

text \<open>
  C20: the retarget formula.  Between two suitable points with increasing height and chainwork, the
  new target is \<open>2 ^ 256 div w - 1\<close>, capped by the limit, where \<open>w\<close> is the work done between the points
  times the block spacing, divided by the time between them; that time is kept between the minimal and the maximal timespan.
\<close>

theorem retarget_exact:
  assumes "point_ok a" and "point_ok b"
    and "dp_height a < dp_height b" and "be_val (dp_chainwork a) \<le> be_val (dp_chainwork b)"
    and "be_val (dp_chainwork b) < 2 ^ 224"
  shows "let pow = np_pow (params n); span = unat (dp_time b) - unat (dp_time a);
      w = (be_val (dp_chainwork b) - be_val (dp_chainwork a)) * 600 div max 21600 (min span 345600)
    in retarget_bits pow a b = Inr
      (if w = 0 \<or> be_val (pow_limit pow) < 2 ^ 256 div w - 1 then pow_bits pow
       else compact_from_target (u256 (2 ^ 256 div w - 1)))"
  using assms by (rule retarget_network)

theorem retarget_exact_witness:
  "retarget_bits (np_pow (params Mainnet)) (fst example_points) (snd example_points) =
     Inr (compact_from_target (u256 (2 ^ 212 - 1)))"
proof -
  have "be_val (pow_limit (np_pow (params Mainnet))) = 0xffff * 2 ^ 200"
    by (simp only: params.simps np_pow_params pow_limit_bytes be_val_append be_val_replicate_0) simp
  then show ?thesis
    using retarget_exact [OF example_points_ok, of Mainnet]
    by (simp add: example_points_def be_val_u256 Let_def)
qed

end
