(* ===== verification/Deployment.thy ===== *)
theory Deployment
  imports Params
begin

unbundle bit_operations_syntax

text \<open>
  Versionbits deployments and checkpoints, \<^verbatim>\<open>crates/hns-consensus/src/deployment.rs\<close>: the deployment
  tables of the networks, the threshold state machine both as the scan of a whole history and as
  the cached state that advances one block at a time, the block version, the deployment state with
  its stored form, the checkpoint tables with their binary search, and the policy that decides
  which validation stages a checkpointed block may skip.
\<close>

subsection \<open>Deployments\<close>

datatype deployment_id = Hardening | IcannLockup | Airstop | TestDummy

record deployment =
  dep_id :: deployment_id
  dep_bit :: u8
  dep_start_time :: u64
  dep_timeout :: u64
  dep_threshold :: "u32 option"
  dep_window :: "u32 option"
  dep_required :: bool
  dep_force :: bool

fun deployment_id_name :: "deployment_id \<Rightarrow> string" where
  "deployment_id_name Hardening = ''hardening''"
| "deployment_id_name IcannLockup = ''icannlockup''"
| "deployment_id_name Airstop = ''airstop''"
| "deployment_id_name TestDummy = ''testdummy''"

definition deployment_name :: "deployment \<Rightarrow> string" where
  "deployment_name d = deployment_id_name (dep_id d)"

definition effective_threshold :: "deployment \<Rightarrow> u32 \<Rightarrow> u32" where
  "effective_threshold d activation_threshold =
     (case dep_threshold d of Some threshold \<Rightarrow> threshold | None \<Rightarrow> activation_threshold)"

definition effective_window :: "deployment \<Rightarrow> u32 \<Rightarrow> u32" where
  "effective_window d miner_window =
     (case dep_window d of Some window \<Rightarrow> window | None \<Rightarrow> miner_window)"

record checkpoint =
  cp_height :: u32
  cp_hash :: bytes

datatype thresh_state = Defined | Started | LockedIn | Active | Failed

fun threshold_to_u8 :: "thresh_state \<Rightarrow> u8" where
  "threshold_to_u8 Defined = 0"
| "threshold_to_u8 Started = 1"
| "threshold_to_u8 LockedIn = 2"
| "threshold_to_u8 Active = 3"
| "threshold_to_u8 Failed = 4"

definition threshold_from_u8 :: "u8 \<Rightarrow> thresh_state option" where
  "threshold_from_u8 v =
     (if v = 0 then Some Defined else if v = 1 then Some Started else if v = 2 then Some LockedIn
      else if v = 3 then Some Active else if v = 4 then Some Failed else None)"

record deployment_history_entry =
  dhe_version :: u32
  dhe_median_time_past :: u64

record deployment_period =
  dper_median_time_past :: u64
  dper_signalling_blocks :: u32

datatype deployment_error =
    EmptyHistory
  | ZeroWindow
  | ThresholdExceedsWindow u32 u32
  | WindowTooLarge
  | InvalidBit u8
  | InvalidCachedState u8
  | MissingCompletedPeriod u32
  | SignallingCountExceedsWindow u32 u32
  | UnknownCheckpoint u32
  | CheckpointMismatch u32

subsection \<open>Script and name flags\<close>

text \<open>The newtypes \<^verbatim>\<open>ScriptFlags\<close> and \<^verbatim>\<open>NameFlags\<close> are the 32-bit words they wrap.\<close>

definition verify_minimal_data :: u32 where "verify_minimal_data = push_bit 1 1"
definition verify_discourage_upgradable_nops :: u32 where
  "verify_discourage_upgradable_nops = push_bit 2 1"
definition verify_discourage_upgradable_witness_program :: u32 where
  "verify_discourage_upgradable_witness_program = push_bit 3 1"
definition verify_minimal_if :: u32 where "verify_minimal_if = push_bit 4 1"
definition verify_nullfail :: u32 where "verify_nullfail = push_bit 5 1"

definition script_flags_mandatory :: u32 where
  "script_flags_mandatory = verify_minimal_data OR verify_minimal_if OR verify_nullfail"

definition script_flags_standard :: u32 where
  "script_flags_standard = script_flags_mandatory OR verify_discourage_upgradable_nops OR
     verify_discourage_upgradable_witness_program"

definition flags_contains :: "u32 \<Rightarrow> u32 \<Rightarrow> bool" where
  "flags_contains flags other \<longleftrightarrow> flags AND other = other"

definition name_flags_hardened :: u32 where "name_flags_hardened = push_bit 0 1"
definition name_flags_lockup :: u32 where "name_flags_lockup = push_bit 1 1"

subsection \<open>The deployment state\<close>

record deployment_state =
  ds_script_flags :: u32
  ds_lock_flags :: u32
  ds_name_flags :: u32
  ds_has_airstop :: bool
  ds_states :: "thresh_state list"

fun deployment_index :: "deployment_id \<Rightarrow> nat" where
  "deployment_index Hardening = 0"
| "deployment_index IcannLockup = 1"
| "deployment_index Airstop = 2"
| "deployment_index TestDummy = 3"

definition ds_state :: "deployment_state \<Rightarrow> deployment_id \<Rightarrow> thresh_state" where
  "ds_state s i = ds_states s ! deployment_index i"

definition from_states :: "thresh_state list \<Rightarrow> deployment_state" where
  "from_states states =
     \<lparr>ds_script_flags = script_flags_mandatory,
      ds_lock_flags = 0,
      ds_name_flags = (if states ! 0 = Active then name_flags_hardened else 0) OR
        (if states ! 1 = Active then name_flags_lockup else 0),
      ds_has_airstop = (states ! 2 = Active),
      ds_states = states\<rparr>"

definition with_state :: "deployment_state \<Rightarrow> deployment_id \<Rightarrow> thresh_state \<Rightarrow> deployment_state" where
  "with_state s i state = from_states ((ds_states s)[deployment_index i := state])"

definition encode_states :: "deployment_state \<Rightarrow> bytes" where
  "encode_states s = map threshold_to_u8 (ds_states s)"

definition decode_states :: "bytes \<Rightarrow> deployment_error + deployment_state" where
  "decode_states bytes =
     map_sum id from_states
       (fold_res (\<lambda>(i, value) states.
          and_then (ok_or (threshold_from_u8 value) (InvalidCachedState value)) (\<lambda>state.
          Inr (states[i := state])))
        (enumerate 0 bytes) (replicate 4 Defined))"

subsection \<open>The threshold state machine\<close>

definition deployment_parameters :: "u32 \<Rightarrow> u32 \<Rightarrow> deployment \<Rightarrow> deployment_error + u32 \<times> u32" where
  "deployment_parameters activation_threshold miner_window d =
     (let window = effective_window d miner_window;
          threshold = effective_threshold d activation_threshold
      in if window = 0 then Inl ZeroWindow
         else if threshold > window then Inl (ThresholdExceedsWindow threshold window)
         else if dep_bit d \<ge> 32 then Inl (InvalidBit (dep_bit d))
         else Inr (window, threshold))"

definition signals :: "u32 \<Rightarrow> deployment_history_entry list \<Rightarrow> nat" where
  "signals signal entries = length (filter (\<lambda>e. dhe_version e AND signal \<noteq> 0) entries)"

definition threshold_step ::
  "deployment \<Rightarrow> nat \<Rightarrow> u32 \<Rightarrow> deployment_history_entry list \<Rightarrow> nat \<Rightarrow> thresh_state \<Rightarrow> thresh_state"
where
  "threshold_step d window threshold history period state =
     (let end = (period + 1) * window - 1;
          time = dhe_median_time_past (history ! end)
      in case state of
        Defined \<Rightarrow> (if time \<ge> dep_timeout d then Failed
                    else if time \<ge> dep_start_time d then Started else Defined)
      | Started \<Rightarrow> (if time \<ge> dep_timeout d then Failed
                    else
                      let start = end + 1 - window;
                          count = signals (push_bit (unat (dep_bit d)) 1)
                            (take (end + 1 - start) (drop start history))
                      in if count \<ge> unat threshold then LockedIn else Started)
      | LockedIn \<Rightarrow> Active
      | Active \<Rightarrow> Active
      | Failed \<Rightarrow> Failed)"

definition threshold_state ::
  "u32 \<Rightarrow> u32 \<Rightarrow> deployment \<Rightarrow> deployment_history_entry list \<Rightarrow> deployment_error + thresh_state" where
  "threshold_state activation_threshold miner_window d history =
     (if history = [] then Inl EmptyHistory
      else
        and_then (deployment_parameters activation_threshold miner_window d) (\<lambda>(window, threshold).
        let completed_periods = length history div unat window
        in Inr (fold (threshold_step d (unat window) threshold history) [0..<completed_periods] Defined)))"

definition advance_threshold_state ::
  "u32 \<Rightarrow> u32 \<Rightarrow> deployment \<Rightarrow> u32 \<Rightarrow> thresh_state \<Rightarrow> deployment_period option \<Rightarrow>
   deployment_error + thresh_state" where
  "advance_threshold_state activation_threshold miner_window d next_height previous period =
     and_then (deployment_parameters activation_threshold miner_window d) (\<lambda>(window, threshold).
     if next_height mod window \<noteq> 0 then Inr previous
     else
       and_then (ok_or period (MissingCompletedPeriod next_height)) (\<lambda>period.
       if dper_signalling_blocks period > window
       then Inl (SignallingCountExceedsWindow (dper_signalling_blocks period) window)
       else
         Inr (let time = dper_median_time_past period in
           case previous of
             Defined \<Rightarrow> (if time \<ge> dep_timeout d then Failed
                         else if time \<ge> dep_start_time d then Started else Defined)
           | Started \<Rightarrow> (if time \<ge> dep_timeout d then Failed
                         else if dper_signalling_blocks period \<ge> threshold then LockedIn else Started)
           | LockedIn \<Rightarrow> Active
           | Active \<Rightarrow> Active
           | Failed \<Rightarrow> Failed)))"

definition compute_block_version ::
  "u32 \<Rightarrow> u32 \<Rightarrow> deployment list \<Rightarrow> deployment_history_entry list \<Rightarrow> deployment_error + u32" where
  "compute_block_version activation_threshold miner_window deployments history =
     fold_res (\<lambda>d version.
       and_then (threshold_state activation_threshold miner_window d history) (\<lambda>state.
       Inr (if state \<in> {Started, LockedIn} then version OR push_bit (unat (dep_bit d)) 1 else version)))
     deployments 0"

definition compute_block_version_from_state ::
  "deployment list \<Rightarrow> deployment_state \<Rightarrow> deployment_error + u32" where
  "compute_block_version_from_state deployments state =
     fold_res (\<lambda>d version.
       if dep_bit d \<ge> 32 then Inl (InvalidBit (dep_bit d))
       else Inr (if ds_state state (dep_id d) \<in> {Started, LockedIn}
                 then version OR push_bit (unat (dep_bit d)) 1 else version))
     deployments 0"

subsection \<open>The tables of the networks\<close>

definition common_deployments :: "deployment list" where
  "common_deployments =
    [\<lparr>dep_id = Hardening, dep_bit = 0, dep_start_time = 1581638400, dep_timeout = 1707868800,
       dep_threshold = None, dep_window = None, dep_required = False, dep_force = False\<rparr>,
     \<lparr>dep_id = IcannLockup, dep_bit = 1, dep_start_time = 1691625600, dep_timeout = 1703980800,
       dep_threshold = None, dep_window = None, dep_required = False, dep_force = False\<rparr>,
     \<lparr>dep_id = Airstop, dep_bit = 2, dep_start_time = 1751328000, dep_timeout = 1759881600,
       dep_threshold = None, dep_window = None, dep_required = False, dep_force = False\<rparr>,
     \<lparr>dep_id = TestDummy, dep_bit = 28, dep_start_time = 1199145601, dep_timeout = 1230767999,
       dep_threshold = None, dep_window = None, dep_required = False, dep_force = True\<rparr>]"

definition regtest_deployments :: "deployment list" where
  "regtest_deployments =
    [common_deployments ! 0, common_deployments ! 1, common_deployments ! 2,
     \<lparr>dep_id = TestDummy, dep_bit = 28, dep_start_time = 0, dep_timeout = 4294967295,
       dep_threshold = None, dep_window = None, dep_required = False, dep_force = True\<rparr>]"

definition checkpoint_entry :: "u32 \<Rightarrow> string \<Rightarrow> checkpoint" where
  "checkpoint_entry height hash = \<lparr>cp_height = height, cp_hash = hex32 hash\<rparr>"

definition mainnet_checkpoints :: "checkpoint list" where
  "mainnet_checkpoints =
    [checkpoint_entry 1008 ''0000000000001013c28fa079b545fb805f04c496687799b98e35e83cbbb8953e'',
     checkpoint_entry 2016 ''0000000000000424ee6c2a5d6e0da5edfc47a4a10328c1792056ee48303c3e40'',
     checkpoint_entry 10000 ''00000000000001a86811a6f520bf67cefa03207dc84fd315f58153b28694ec51'',
     checkpoint_entry 20000 ''0000000000000162c7ac70a582256f59c189b5c90d8e9861b3f374ed714c58de'',
     checkpoint_entry 30000 ''0000000000000004f790862846b23c3a81585aea0fa79a7d851b409e027bcaa7'',
     checkpoint_entry 40000 ''0000000000000002966206a40b10a575cb46531253b08dae8e1b356cfa277248'',
     checkpoint_entry 50000 ''00000000000000020c7447e7139feeb90549bfc77a7f18d4ff28f327c04f8d6e'',
     checkpoint_entry 56880 ''0000000000000001d4ef9ea6908bb4eb970d556bd07cbd7d06a634e1cd5bbf4e'',
     checkpoint_entry 61043 ''00000000000000015b84385e0307370f8323420eaa27ef6e407f2d3162f1fd05'',
     checkpoint_entry 100000 ''000000000000000136d7d3efa688072f40d9fdd71bd47bb961694c0f38950246'',
     checkpoint_entry 130000 ''0000000000000005ee5106df9e48bcd232a1917684ac344b35ddd9b9e4101096'',
     checkpoint_entry 160000 ''00000000000000021e723ce5aedc021ab4f85d46a6914e40148f01986baa46c9'',
     checkpoint_entry 200000 ''000000000000000181ebc18d6c34442ffef3eedca90c57ca8ecc29016a1cfe16'',
     checkpoint_entry 225000 ''00000000000000021f0be013ebad018a9ef97c8501766632f017a778781320d5'',
     checkpoint_entry 258026 ''0000000000000004963d20732c58e5a91cb7e1b61ec6709d031f1a5ca8c55b95'']"

fun deployments :: "network \<Rightarrow> deployment list" where
  "deployments Regtest = regtest_deployments"
| "deployments Mainnet = common_deployments"
| "deployments Testnet = common_deployments"
| "deployments Simnet = common_deployments"

fun checkpoints :: "network \<Rightarrow> checkpoint list" where
  "checkpoints Mainnet = mainnet_checkpoints"
| "checkpoints Testnet = []"
| "checkpoints Regtest = []"
| "checkpoints Simnet = []"

definition network_checkpoint :: "network \<Rightarrow> u32 \<Rightarrow> checkpoint option" where
  "network_checkpoint n height =
     map_option (\<lambda>i. checkpoints n ! i) (binary_search_by_key cp_height (checkpoints n) height)"

fun last_checkpoint :: "network \<Rightarrow> u32" where
  "last_checkpoint Mainnet = 258026"
| "last_checkpoint Testnet = 0"
| "last_checkpoint Regtest = 0"
| "last_checkpoint Simnet = 0"

definition verify_checkpoint :: "network \<Rightarrow> bool \<Rightarrow> u32 \<Rightarrow> bytes \<Rightarrow> bool" where
  "verify_checkpoint n enabled height hash \<longleftrightarrow> \<not> enabled \<or>
     (case network_checkpoint n height of None \<Rightarrow> True | Some expected \<Rightarrow> cp_hash expected = hash)"

definition network_deployment_state ::
  "network \<Rightarrow> deployment_history_entry list \<Rightarrow> deployment_error + deployment_state" where
  "network_deployment_state n history =
     map_sum id from_states
       (fold_res (\<lambda>d states.
          and_then (threshold_state (np_activation_threshold (params n)) (np_miner_window (params n)) d
            history) (\<lambda>state.
          Inr (states[deployment_index (dep_id d) := state])))
        (deployments n) (replicate 4 Defined))"

subsection \<open>Historical validation\<close>

definition is_hsd_historical_height :: "network \<Rightarrow> bool \<Rightarrow> u32 \<Rightarrow> bool" where
  "is_hsd_historical_height n checkpoints_enabled height \<longleftrightarrow>
     checkpoints_enabled \<and> height \<le> last_checkpoint n"

definition is_hsd_historical_block :: "network \<Rightarrow> bool \<Rightarrow> u32 \<Rightarrow> bool" where
  "is_hsd_historical_block n checkpoints_enabled height \<longleftrightarrow>
     height \<noteq> 0 \<and> is_hsd_historical_height n checkpoints_enabled height"

record historical_script_policy =
  hsp_network :: network
  hsp_checkpoints_enabled :: bool
  hsp_verified_through :: "u32 option"

definition policy_new :: "network \<Rightarrow> bool \<Rightarrow> historical_script_policy" where
  "policy_new n checkpoints_enabled =
     \<lparr>hsp_network = n, hsp_checkpoints_enabled = checkpoints_enabled, hsp_verified_through = None\<rparr>"

definition with_verified_checkpoint ::
  "historical_script_policy \<Rightarrow> u32 \<Rightarrow> bytes \<Rightarrow> deployment_error + historical_script_policy" where
  "with_verified_checkpoint p height hash =
     and_then (ok_or (network_checkpoint (hsp_network p) height) (UnknownCheckpoint height)) (\<lambda>cp.
     if cp_hash cp \<noteq> hash then Inl (CheckpointMismatch height)
     else Inr (p\<lparr>hsp_verified_through :=
       Some (case hsp_verified_through p of None \<Rightarrow> height | Some current \<Rightarrow> max current height)\<rparr>))"

definition may_assume_scripts :: "historical_script_policy \<Rightarrow> u32 \<Rightarrow> bool" where
  "may_assume_scripts p height \<longleftrightarrow>
     is_hsd_historical_block (hsp_network p) (hsp_checkpoints_enabled p) height \<and>
     (case hsp_verified_through p of Some verified \<Rightarrow> height \<le> verified | None \<Rightarrow> False)"

definition requires_script_verification :: "historical_script_policy \<Rightarrow> u32 \<Rightarrow> bool" where
  "requires_script_verification p height \<longleftrightarrow> \<not> may_assume_scripts p height"

record historical_validation_plan =
  hvp_historical :: bool
  hvp_body_sanity :: bool
  hvp_body_commitments :: bool
  hvp_name_limits :: bool
  hvp_header_context :: bool
  hvp_deployment_state :: bool
  hvp_absolute_finality :: bool
  hvp_transaction_start :: bool
  hvp_coinbase_height :: bool
  hvp_claim_airdrop_sanity :: bool
  hvp_claim_airdrop_cryptography :: bool
  hvp_block_sigops :: bool
  hvp_sequence_locks :: bool
  hvp_input_values :: bool
  hvp_covenant_links :: bool
  hvp_contextual_covenants :: bool
  hvp_bid_redeem_context :: bool
  hvp_scripts :: bool
  hvp_coinbase_reward :: bool

definition plan_full :: historical_validation_plan where
  "plan_full = \<lparr>hvp_historical = False,
    hvp_body_sanity = True,
    hvp_body_commitments = True,
    hvp_name_limits = True,
    hvp_header_context = True,
    hvp_deployment_state = True,
    hvp_absolute_finality = True,
    hvp_transaction_start = True,
    hvp_coinbase_height = True,
    hvp_claim_airdrop_sanity = True,
    hvp_claim_airdrop_cryptography = True,
    hvp_block_sigops = True,
    hvp_sequence_locks = True,
    hvp_input_values = True,
    hvp_covenant_links = True,
    hvp_contextual_covenants = True,
    hvp_bid_redeem_context = True,
    hvp_scripts = True,
    hvp_coinbase_reward = True\<rparr>"

definition plan_hsd_checkpointed :: historical_validation_plan where
  "plan_hsd_checkpointed = \<lparr>hvp_historical = True,
    hvp_body_sanity = False,
    hvp_body_commitments = True,
    hvp_name_limits = True,
    hvp_header_context = True,
    hvp_deployment_state = True,
    hvp_absolute_finality = True,
    hvp_transaction_start = True,
    hvp_coinbase_height = True,
    hvp_claim_airdrop_sanity = True,
    hvp_claim_airdrop_cryptography = False,
    hvp_block_sigops = False,
    hvp_sequence_locks = False,
    hvp_input_values = False,
    hvp_covenant_links = False,
    hvp_contextual_covenants = True,
    hvp_bid_redeem_context = False,
    hvp_scripts = False,
    hvp_coinbase_reward = False\<rparr>"

definition validation_plan :: "historical_script_policy \<Rightarrow> u32 \<Rightarrow> historical_validation_plan" where
  "validation_plan p height = (if may_assume_scripts p height then plan_hsd_checkpointed else plan_full)"


subsection \<open>The scan of a history and the cached state\<close>

definition period_time :: "nat \<Rightarrow> deployment_history_entry list \<Rightarrow> nat \<Rightarrow> u64" where
  "period_time w history p = dhe_median_time_past (history ! ((p + 1) * w - 1))"

definition period_signals :: "deployment \<Rightarrow> nat \<Rightarrow> deployment_history_entry list \<Rightarrow> nat \<Rightarrow> nat" where
  "period_signals d w history p = signals (push_bit (unat (dep_bit d)) 1) (take w (drop (p * w) history))"

definition threshold_run ::
  "deployment \<Rightarrow> nat \<Rightarrow> u32 \<Rightarrow> deployment_history_entry list \<Rightarrow> nat \<Rightarrow> thresh_state" where
  "threshold_run d w t history n = fold (threshold_step d w t history) [0..<n] Defined"

lemma threshold_run_simps [simp]:
  "threshold_run d w t history 0 = Defined"
  "threshold_run d w t history (Suc n) = threshold_step d w t history n (threshold_run d w t history n)"
  by (simp_all add: threshold_run_def)

lemma threshold_step_period:
  assumes "0 < w"
  shows "threshold_step d w t history p s =
     (let time = period_time w history p in case s of
        Defined \<Rightarrow> (if time \<ge> dep_timeout d then Failed
                    else if time \<ge> dep_start_time d then Started else Defined)
      | Started \<Rightarrow> (if time \<ge> dep_timeout d then Failed
                    else if period_signals d w history p \<ge> unat t then LockedIn else Started)
      | LockedIn \<Rightarrow> Active
      | Active \<Rightarrow> Active
      | Failed \<Rightarrow> Failed)"
proof -
  have "(p + 1) * w - 1 + 1 - w = p * w" "(p + 1) * w - 1 + 1 - p * w = w" using assms by auto
  then show ?thesis
    by (cases s) (simp_all add: threshold_step_def period_time_def period_signals_def Let_def)
qed

lemma signals_le: "period_signals d w history p \<le> w"
proof -
  have "period_signals d w history p \<le> length (take w (drop (p * w) history))"
    unfolding period_signals_def signals_def by (rule length_filter_le)
  also have "\<dots> \<le> w" by simp
  finally show ?thesis .
qed

lemma deployment_parameters_eq_Inr:
  "deployment_parameters a m d = Inr (w, t) \<longleftrightarrow> w = effective_window d m \<and> t = effective_threshold d a \<and>
     w \<noteq> 0 \<and> t \<le> w \<and> dep_bit d < 32"
  by (auto simp: deployment_parameters_def Let_def not_le not_less)

text \<open>
  What the node does block by block: at every height it advances the cached state, and at the end
  of a window it passes the median time of the last block and the number of signalling blocks.
\<close>

definition completed_period :: "u32 \<Rightarrow> deployment \<Rightarrow> deployment_history_entry list \<Rightarrow> nat \<Rightarrow> deployment_period option" where
  "completed_period m d history h =
     (let w = unat (effective_window d m)
      in if h mod w = 0
         then Some \<lparr>dper_median_time_past = period_time w history (h div w - 1),
           dper_signalling_blocks = word_of_nat (period_signals d w history (h div w - 1))\<rparr>
         else None)"

primrec cached_state ::
  "u32 \<Rightarrow> u32 \<Rightarrow> deployment \<Rightarrow> deployment_history_entry list \<Rightarrow> nat \<Rightarrow> deployment_error + thresh_state" where
  "cached_state a m d history 0 = Inr Defined"
| "cached_state a m d history (Suc h) =
     and_then (cached_state a m d history h) (\<lambda>previous.
     advance_threshold_state a m d (word_of_nat (Suc h)) previous (completed_period m d history (Suc h)))"

lemma threshold_state_run:
  assumes "history \<noteq> []" and "deployment_parameters a m d = Inr (w, t)"
  shows "threshold_state a m d history =
    Inr (threshold_run d (unat w) t history (length history div unat w))"
  using assms by (simp add: threshold_state_def threshold_run_def Let_def)

lemma height_mod_eq_0:
  assumes "h < 2 ^ 32"
  shows "word_of_nat h mod w = (0 :: u32) \<longleftrightarrow> h mod unat w = 0"
proof -
  have "unat (word_of_nat h :: u32) = h" using assms by (simp add: unat_of_nat)
  then have "unat (word_of_nat h mod w :: u32) = h mod unat w" by (simp only: unat_mod_distrib)
  then show ?thesis by (metis unat_0 unat_eq_zero)
qed

lemma advance_between:
  assumes "deployment_parameters a m d = Inr (w, t)" and "h < 2 ^ 32" and "h mod unat w \<noteq> 0"
  shows "advance_threshold_state a m d (word_of_nat h) s period = Inr s"
  using assms by (simp only: advance_threshold_state_def height_mod_eq_0 and_then.simps) simp

lemma advance_boundary:
  assumes "deployment_parameters a m d = Inr (w, t)" and "Suc h < 2 ^ 32" and "Suc h mod unat w = 0"
  shows "advance_threshold_state a m d (word_of_nat (Suc h)) s (completed_period m d history (Suc h)) =
    Inr (threshold_step d (unat w) t history (h div unat w) s)"
proof -
  define W where "W = unat w"
  have w: "w = effective_window d m" "w \<noteq> 0" using assms(1) by (auto simp: deployment_parameters_eq_Inr)
  then have W: "0 < W" by (simp add: W_def unat_gt_0)
  have per: "Suc h div W - 1 = h div W" using assms(3) by (simp add: W_def div_Suc)
  have z: "word_of_nat (Suc h) mod w = (0 :: u32)" by (simp only: height_mod_eq_0 [OF assms(2)] assms(3))
  let ?c = "period_signals d W history (h div W)"
  have "?c \<le> W" by (rule signals_le)
  moreover have "W < 2 ^ 32" using unat_less_2_32 [of w] by (simp add: W_def)
  ultimately have c: "unat (word_of_nat ?c :: u32) = ?c" by (simp add: unat_of_nat)
  then have "\<not> w < word_of_nat ?c" using \<open>?c \<le> W\<close> by (simp add: word_less_nat_alt W_def)
  moreover have "t \<le> word_of_nat ?c \<longleftrightarrow> unat t \<le> ?c" using c by (simp add: word_le_nat_alt)
  moreover have "completed_period m d history (Suc h) =
      Some \<lparr>dper_median_time_past = period_time W history (h div W), dper_signalling_blocks = word_of_nat ?c\<rparr>"
    unfolding completed_period_def w(1) [symmetric] W_def [symmetric] Let_def per
    using assms(3) by (simp only: W_def simp_thms if_True)
  ultimately show ?thesis
    unfolding advance_threshold_state_def assms(1) W_def [symmetric] threshold_step_period [OF W]
    using z by (simp only: and_then.simps prod.case ok_or_simps deployment_period.simps if_False simp_thms)
qed

lemma cached_state_run:
  assumes "deployment_parameters a m d = Inr (w, t)" and "h < 2 ^ 32"
  shows "cached_state a m d history h = Inr (threshold_run d (unat w) t history (h div unat w))"
  using assms(2)
proof (induction h)
  case (Suc h)
  then have IH: "cached_state a m d history h = Inr (threshold_run d (unat w) t history (h div unat w))"
    by simp
  show ?case
  proof (cases "Suc h mod unat w = 0")
    case True
    then have "Suc h div unat w = Suc (h div unat w)" by (simp add: div_Suc)
    then show ?thesis using advance_boundary [OF assms(1) Suc.prems True] IH by simp
  next
    case False
    then have "Suc h div unat w = h div unat w" by (simp add: div_Suc)
    then show ?thesis using advance_between [OF assms(1) Suc.prems False] IH by simp
  qed
qed simp

text \<open>
  C21: the two computations of a deployment state agree.  Advancing the cached state block by block
  from the genesis block, with the completed period supplied at every window boundary, gives the
  state (or the parameter error) that the scan of the whole history gives.
\<close>

theorem threshold_state_incremental:
  assumes "history \<noteq> []" and "length history < 2 ^ 32"
  shows "cached_state a m d history (length history) = threshold_state a m d history"
proof (cases "deployment_parameters a m d")
  case (Inl e)
  have "cached_state a m d history (Suc n) = Inl e" for n
    by (induction n) (simp_all add: advance_threshold_state_def Inl)
  with assms(1) show ?thesis
    by (cases history) (simp_all add: threshold_state_def Inl del: cached_state.simps)
next
  case (Inr p)
  then obtain w t where "deployment_parameters a m d = Inr (w, t)" by (cases p) simp
  from cached_state_run [OF this assms(2)] threshold_state_run [OF assms(1) this] show ?thesis by simp
qed


text \<open>A regression test chain whose first 300 blocks all signal for the dummy deployment.\<close>

definition example_history :: "deployment_history_entry list" where
  "example_history = replicate 300 \<lparr>dhe_version = 0x10000000, dhe_median_time_past = 1600000000\<rparr>"

theorem threshold_state_incremental_witness:
  "cached_state 108 144 (regtest_deployments ! 3) example_history 300 =
     threshold_state 108 144 (regtest_deployments ! 3) example_history"
  using threshold_state_incremental [of example_history 108 144 "regtest_deployments ! 3"]
  by (simp add: example_history_def)

subsection \<open>Activation\<close>

lemma run_started:
  assumes "0 < w" and "threshold_run d w t history n = Started"
  shows "\<exists>q < n. dep_start_time d \<le> period_time w history q"
  using assms(2)
proof (induction n)
  case (Suc n)
  then show ?case
    by (cases "threshold_run d w t history n")
      (auto simp: threshold_step_period [OF assms(1)] Let_def less_Suc_eq split: if_splits)
qed simp

definition locked_in_at :: "deployment \<Rightarrow> nat \<Rightarrow> u32 \<Rightarrow> deployment_history_entry list \<Rightarrow> nat \<Rightarrow> bool" where
  "locked_in_at d w t history p \<longleftrightarrow> period_time w history p < dep_timeout d \<and>
     unat t \<le> period_signals d w history p \<and> (\<exists>q < p. dep_start_time d \<le> period_time w history q)"

lemma run_locked_in:
  assumes "0 < w" and "threshold_run d w t history n \<in> {LockedIn, Active}"
  shows "\<exists>p < n. locked_in_at d w t history p"
  using assms(2)
proof (induction n)
  case (Suc n)
  show ?case
  proof (cases "threshold_run d w t history n")
    case Started
    then show ?thesis
      using run_started [OF assms(1) Started] Suc.prems
      by (auto simp: threshold_step_period [OF assms(1)] locked_in_at_def Let_def not_le split: if_splits)
  qed (use Suc in \<open>auto simp: threshold_step_period [OF assms(1)] Let_def less_Suc_eq split: if_splits\<close>)
qed simp

lemma run_settles:
  assumes "0 < w" and "p < n" and "dep_timeout d \<le> period_time w history p"
  shows "threshold_run d w t history n \<in> {LockedIn, Active, Failed} \<and>
    (Suc p < n \<longrightarrow> threshold_run d w t history n \<noteq> LockedIn)"
  using assms(2)
proof (induction n)
  case (Suc n)
  show ?case
  proof (cases "p = n")
    case True
    then show ?thesis using assms(3)
      by (cases "threshold_run d w t history n") (auto simp: threshold_step_period [OF assms(1)] Let_def)
  next
    case False
    with Suc show ?thesis
      by (cases "threshold_run d w t history n")
        (auto simp: threshold_step_period [OF assms(1)] Let_def)
  qed
qed simp

lemma run_active_stable:
  assumes "0 < w" and "threshold_run d w t history n \<in> {Active, Failed}" and "n \<le> m"
  shows "threshold_run d w t history m = threshold_run d w t history n"
  using assms(3)
proof (induction rule: dec_induct)
  case (step k)
  with assms(2) show ?case by (auto simp: threshold_step_period [OF assms(1)])
qed simp

lemma run_prefix:
  assumes "0 < w" and "n * w \<le> length history"
  shows "threshold_run d w t (history @ later) n = threshold_run d w t history n"
  using assms(2)
proof (induction n)
  case (Suc n)
  then have "(n + 1) * w - 1 < length history" "n * w \<le> length history" "n * w + w \<le> length history"
    using assms(1) by simp_all
  then have "period_time w (history @ later) n = period_time w history n"
    "period_signals d w (history @ later) n = period_signals d w history n"
    by (simp_all add: period_time_def period_signals_def nth_append)
  with Suc \<open>n * w \<le> length history\<close> show ?case by (simp add: threshold_step_period [OF assms(1)])
qed simp

text \<open>
  C22: a deployment activates only on signalling and always settles.  If the scan reports a
  deployment locked in or active, then some completed window ended before the timeout with at
  least the threshold of signalling blocks, after an earlier window that ended at or after the
  start time.  Once two windows have completed of which the first ended at or after the timeout,
  the state is active or failed, and it stays what it is when the history grows.
\<close>

theorem threshold_state_activation:
  assumes "deployment_parameters a m d = Inr (w, t)" and "history \<noteq> []"
  shows "\<exists>s. threshold_state a m d history = Inr s \<and>
    (s \<in> {LockedIn, Active} \<longrightarrow> (\<exists>p. (p + 1) * unat w \<le> length history \<and> locked_in_at d (unat w) t history p)) \<and>
    ((\<exists>p. (p + 2) * unat w \<le> length history \<and> dep_timeout d \<le> period_time (unat w) history p) \<longrightarrow>
       s \<in> {Active, Failed} \<and> threshold_state a m d (history @ later) = Inr s)"
proof -
  define n where "n = length history div unat w"
  define s where "s = threshold_run d (unat w) t history n"
  have w: "0 < unat w" using assms(1) by (auto simp: deployment_parameters_eq_Inr unat_gt_0)
  have lt: "k * unat w \<le> length history \<longleftrightarrow> k \<le> n" for k
    unfolding n_def using w by (simp add: less_eq_div_iff_mult_less_eq)
  have "s \<in> {LockedIn, Active} \<Longrightarrow> \<exists>p. (p + 1) * unat w \<le> length history \<and> locked_in_at d (unat w) t history p"
    using run_locked_in [OF w, of d t history n] by (auto simp only: lt s_def Suc_eq_plus1 [symmetric] Suc_le_eq)
  moreover have "threshold_state a m d (history @ later) = Inr s \<and> s \<in> {Active, Failed}"
    if "(p + 2) * unat w \<le> length history" "dep_timeout d \<le> period_time (unat w) history p" for p
  proof -
    have p: "p + 2 \<le> n" using that(1) by (simp only: lt)
    with run_settles [OF w _ that(2), of n t] have s: "s \<in> {Active, Failed}" by (auto simp: s_def)
    have "n * unat w \<le> length history" by (simp only: lt order_refl)
    from run_prefix [OF w this] have "threshold_run d (unat w) t (history @ later) n = s" by (simp add: s_def)
    moreover have "n \<le> length (history @ later) div unat w" by (simp add: n_def div_le_mono)
    ultimately have "threshold_run d (unat w) t (history @ later) (length (history @ later) div unat w) = s"
      using run_active_stable [OF w, of d t "history @ later" n] s by simp
    with threshold_state_run [OF _ assms(1), of "history @ later"] assms(2) s show ?thesis by simp
  qed
  ultimately show ?thesis using threshold_state_run [OF assms(2,1)] unfolding s_def n_def by blast
qed


text \<open>A deployment with windows of four blocks: started, locked in, active; the third window times out.\<close>

definition example_deployment :: deployment where
  "example_deployment = (regtest_deployments ! 3)\<lparr>dep_window := Some 4, dep_threshold := Some 3\<rparr>"

definition example_windows :: "deployment_history_entry list" where
  "example_windows =
     replicate 8 \<lparr>dhe_version = 0x10000000, dhe_median_time_past = 1600000000\<rparr> @
     replicate 8 \<lparr>dhe_version = 0, dhe_median_time_past = 4294967295\<rparr>"

theorem threshold_state_activation_witness:
  "\<exists>s. threshold_state 108 144 example_deployment example_windows = Inr s \<and> s \<in> {Active, Failed} \<and>
     threshold_state 108 144 example_deployment (example_windows @ example_history) = Inr s"
proof -
  have "deployment_parameters 108 144 example_deployment = Inr (4, 3)" by code_simp
  from threshold_state_activation [OF this, of example_windows example_history]
  obtain s where "threshold_state 108 144 example_deployment example_windows = Inr s"
    and settled: "(\<exists>p. (p + 2) * unat (4 :: u32) \<le> length example_windows \<and>
       dep_timeout example_deployment \<le> period_time (unat (4 :: u32)) example_windows p) \<longrightarrow>
       s \<in> {Active, Failed} \<and> threshold_state 108 144 example_deployment (example_windows @ example_history) = Inr s"
    by (auto simp: example_windows_def)
  moreover have "(2 + 2) * unat (4 :: u32) \<le> length example_windows \<and>
       dep_timeout example_deployment \<le> period_time (unat (4 :: u32)) example_windows 2" by code_simp
  ultimately show ?thesis by blast
qed

subsection \<open>Versions and stored states\<close>

lemma threshold_state_bit: "threshold_state a m d history = Inr s \<Longrightarrow> dep_bit d < 32"
  by (auto simp: threshold_state_def and_then_eq_Inr deployment_parameters_eq_Inr split: if_splits)

lemma deployments_cases:
  obtains d0 d1 d2 d3 where "deployments n = [d0, d1, d2, d3]" and "dep_id d0 = Hardening"
    and "dep_id d1 = IcannLockup" and "dep_id d2 = Airstop" and "dep_id d3 = TestDummy"
  by (cases n) (auto simp: regtest_deployments_def common_deployments_def)

lemma ds_states_from_states [simp]: "ds_states (from_states states) = states"
  by (simp add: from_states_def)

text \<open>
  The version a block signals is the same whether it is computed from the whole history or from
  the deployment state of the tip, errors included.
\<close>

theorem block_version_from_state:
  "compute_block_version (np_activation_threshold (params n)) (np_miner_window (params n)) (deployments n)
     history =
   and_then (network_deployment_state n history) (compute_block_version_from_state (deployments n))"
proof -
  obtain d0 d1 d2 d3 where "deployments n = [d0, d1, d2, d3]" "dep_id d0 = Hardening"
    "dep_id d1 = IcannLockup" "dep_id d2 = Airstop" "dep_id d3 = TestDummy"
    by (rule deployments_cases)
  then show ?thesis
    unfolding compute_block_version_def network_deployment_state_def compute_block_version_from_state_def
    by (cases "threshold_state (np_activation_threshold (params n)) (np_miner_window (params n)) d0 history";
        cases "threshold_state (np_activation_threshold (params n)) (np_miner_window (params n)) d1 history";
        cases "threshold_state (np_activation_threshold (params n)) (np_miner_window (params n)) d2 history";
        cases "threshold_state (np_activation_threshold (params n)) (np_miner_window (params n)) d3 history")
      (auto simp: ds_state_def numeral_2_eq_2 numeral_3_eq_3 dest!: threshold_state_bit)
qed

lemma threshold_from_to_u8 [simp]: "threshold_from_u8 v = Some s \<longleftrightarrow> v = threshold_to_u8 s"
  by (cases s) (auto simp: threshold_from_u8_def)

lemma threshold_to_u8_inject [simp]: "threshold_to_u8 s = threshold_to_u8 s' \<longleftrightarrow> s = s'"
  by (cases s; cases s') simp_all

lemma length_4_cases: "length xs = 4 \<longleftrightarrow> (\<exists>a b c d. xs = [a, b, c, d])"
  by (auto simp: numeral_eq_Suc length_Suc_conv)

text \<open>
  Stored deployment states.  Four stored bytes decode exactly when every one of them is the code
  of a threshold state; the result is the deployment state of these four states, and it is stored
  as the same bytes.
\<close>

theorem decode_states_exact:
  assumes "length bytes = 4"
  shows "decode_states bytes = Inr s \<longleftrightarrow> encode_states s = bytes \<and> s = from_states (ds_states s)"
proof -
  obtain a b c d where "bytes = [a, b, c, d]" using assms by (auto simp: length_4_cases)
  then have "decode_states bytes = Inr s \<longleftrightarrow>
      (\<exists>s0 s1 s2 s3. bytes = map threshold_to_u8 [s0, s1, s2, s3] \<and> s = from_states [s0, s1, s2, s3])"
    by (auto simp: decode_states_def map_sum_eq_Inr and_then_eq_Inr numeral_eq_Suc)
  moreover have "length (ds_states s) = 4" if "encode_states s = bytes"
    using that assms by (metis encode_states_def length_map)
  ultimately show ?thesis
    by (auto simp: encode_states_def length_4_cases)
qed

theorem decode_states_exact_witness:
  "decode_states [3, 1, 4, 0] = Inr (from_states [Active, Started, Failed, Defined])"
  by (subst decode_states_exact) (simp_all add: encode_states_def)

subsection \<open>Checkpoints\<close>

lemma checkpoints_sorted: "sorted_wrt (\<lambda>a b. cp_height a < cp_height b) (checkpoints n)"
  by (cases n) (simp_all add: mainnet_checkpoints_def checkpoint_entry_def)

lemma checkpoints_below_last: "c \<in> set (checkpoints n) \<Longrightarrow> cp_height c \<le> last_checkpoint n"
  by (cases n) (auto simp: mainnet_checkpoints_def checkpoint_entry_def)

lemma network_checkpoint_iff:
  "network_checkpoint n h = Some c \<longleftrightarrow> c \<in> set (checkpoints n) \<and> cp_height c = h"
  unfolding network_checkpoint_def
  by (auto simp: binary_search_by_key_iff [OF checkpoints_sorted] in_set_conv_nth)

text \<open>
  The policies a node can hold: a fresh one, and one that was shown the hash of a checkpoint.  The
  set collects what was shown.
\<close>

inductive policy_reachable ::
  "network \<Rightarrow> bool \<Rightarrow> (u32 \<times> bytes) set \<Rightarrow> historical_script_policy \<Rightarrow> bool" for n enabled where
  fresh: "policy_reachable n enabled {} (policy_new n enabled)"
| shown: "policy_reachable n enabled V (p :: historical_script_policy) \<Longrightarrow>
    with_verified_checkpoint p height hash = Inr p' \<Longrightarrow>
    policy_reachable n enabled (insert (height, hash) V) p'"

definition shown_ok :: "network \<Rightarrow> (u32 \<times> bytes) set \<Rightarrow> bool" where
  "shown_ok n V \<longleftrightarrow> (\<forall>(h, x) \<in> V. \<exists>c \<in> set (checkpoints n). cp_height c = h \<and> cp_hash c = x)"

lemma policy_reachable_invariant:
  assumes "policy_reachable n enabled V p"
  shows "hsp_network p = n \<and> hsp_checkpoints_enabled p = enabled \<and> shown_ok n V \<and>
    (\<forall>h. (case hsp_verified_through p of Some v \<Rightarrow> h \<le> v | None \<Rightarrow> False) \<longleftrightarrow> (\<exists>(c, x) \<in> V. h \<le> c))"
  using assms
proof induction
  case (shown V p height hash p')
  from shown(2) obtain c where c: "network_checkpoint (hsp_network p) height = Some c" "cp_hash c = hash"
    and p': "p' = p\<lparr>hsp_verified_through :=
       Some (case hsp_verified_through p of None \<Rightarrow> height | Some current \<Rightarrow> max current height)\<rparr>"
    by (auto simp: with_verified_checkpoint_def and_then_eq_Inr split: if_splits)
  have "\<exists>c \<in> set (checkpoints n). cp_height c = height \<and> cp_hash c = hash"
    using c shown.IH by (auto simp: network_checkpoint_iff)
  with shown.IH have "shown_ok n (insert (height, hash) V)" by (simp add: shown_ok_def)
  with shown.IH show ?case
    by (auto simp: p' le_max_iff_disj split: option.splits)
qed (simp add: policy_new_def shown_ok_def)

text \<open>
  C30: the historical fast path is fail-closed.  A policy that started fresh and was shown some
  checkpoint hashes lets a block skip the script checks exactly when checkpoints are enabled, the
  block is not the genesis block, and it is at or below a checkpoint of the network whose recorded
  hash was shown; every other block gets the full plan, and body commitments, name limits,
  header context and contextual covenants are checked under either plan.
\<close>

theorem historical_policy_fail_closed:
  assumes "policy_reachable n enabled V p"
  shows "let allowed = (enabled \<and> h \<noteq> 0 \<and>
      (\<exists>c \<in> set (checkpoints n). (cp_height c, cp_hash c) \<in> V \<and> h \<le> cp_height c))
    in may_assume_scripts p h = allowed \<and> requires_script_verification p h = (\<not> allowed) \<and>
      validation_plan p h = (if allowed then plan_hsd_checkpointed else plan_full)"
proof -
  from policy_reachable_invariant [OF assms]
  have inv: "hsp_network p = n" "hsp_checkpoints_enabled p = enabled" "shown_ok n V"
    "(case hsp_verified_through p of Some v \<Rightarrow> h \<le> v | None \<Rightarrow> False) \<longleftrightarrow> (\<exists>(c, x) \<in> V. h \<le> c)"
    by simp_all
  have "(\<exists>(c, x) \<in> V. h \<le> c) \<longleftrightarrow>
      (\<exists>c \<in> set (checkpoints n). (cp_height c, cp_hash c) \<in> V \<and> h \<le> cp_height c)" (is "_ \<longleftrightarrow> ?shown")
    using inv(3) unfolding shown_ok_def by fastforce
  moreover have "?shown \<Longrightarrow> h \<le> last_checkpoint n"
    using checkpoints_below_last order_trans by blast
  ultimately have "may_assume_scripts p h \<longleftrightarrow> enabled \<and> h \<noteq> 0 \<and> ?shown"
    unfolding may_assume_scripts_def is_hsd_historical_block_def is_hsd_historical_height_def inv by blast
  then show ?thesis
    unfolding validation_plan_def requires_script_verification_def Let_def by simp
qed

lemma example_policy:
  "policy_reachable Mainnet True {(1008, cp_hash (mainnet_checkpoints ! 0))}
     \<lparr>hsp_network = Mainnet, hsp_checkpoints_enabled = True, hsp_verified_through = Some 1008\<rparr>"
proof -
  have "network_checkpoint Mainnet 1008 = Some (mainnet_checkpoints ! 0)"
    unfolding network_checkpoint_iff by (simp add: mainnet_checkpoints_def checkpoint_entry_def)
  then have "with_verified_checkpoint (policy_new Mainnet True) 1008 (cp_hash (mainnet_checkpoints ! 0)) =
      Inr \<lparr>hsp_network = Mainnet, hsp_checkpoints_enabled = True, hsp_verified_through = Some 1008\<rparr>"
    by (simp add: with_verified_checkpoint_def policy_new_def)
  from policy_reachable.shown [OF policy_reachable.fresh this] show ?thesis by simp
qed

theorem historical_policy_fail_closed_witness:
  "let p = \<lparr>hsp_network = Mainnet, hsp_checkpoints_enabled = True, hsp_verified_through = Some 1008\<rparr>
   in validation_plan p 1000 = plan_hsd_checkpointed \<and> validation_plan p 1009 = plan_full"
  using historical_policy_fail_closed [OF example_policy, of 1000]
    historical_policy_fail_closed [OF example_policy, of 1009]
  by (simp add: Let_def mainnet_checkpoints_def checkpoint_entry_def)

text \<open>
  Checkpoints.  The binary search over the table of a network returns a checkpoint exactly when
  the table has one at that height, so with checkpoints enabled a hash is accepted exactly when no
  checkpoint of the network at that height has another hash.
\<close>

theorem checkpoint_lookup_exact:
  "(network_checkpoint n h = Some c) = (c \<in> set (checkpoints n) \<and> cp_height c = h) \<and>
   verify_checkpoint n enabled h hash =
     (\<not> (enabled \<and> (\<exists>c. c \<in> set (checkpoints n) \<and> cp_height c = h \<and> cp_hash c \<noteq> hash)))"
proof -
  have "verify_checkpoint n enabled h hash \<longleftrightarrow>
      \<not> (enabled \<and> (\<exists>c. network_checkpoint n h = Some c \<and> cp_hash c \<noteq> hash))"
    by (auto simp: verify_checkpoint_def split: option.splits)
  then show ?thesis by (auto simp: network_checkpoint_iff)
qed

end
