(* ===== verification/Resource.thy ===== *)
theory Resource
  imports Wire
begin

unbundle bit_operations_syntax

text \<open>
  The DNS resource a name carries, \<^verbatim>\<open>Resource\<close> of \<^verbatim>\<open>crates/hns-primitives/src/lib.rs\<close>: the decoder
  that splits the raw bytes into records, the typed decoder, and the two readers of DNS names, one
  that skips a name and one that follows compression pointers.
\<close>

subsection \<open>Records\<close>

datatype resource_record_kind =
  Ds | Ns | Glue4 | Glue6 | Synth4 | Synth6 | Txt | UnknownRecord u8

definition record_kind_from_u8 :: "u8 \<Rightarrow> resource_record_kind" where
  "record_kind_from_u8 v =
     (if v = 0 then Ds else if v = 1 then Ns else if v = 2 then Glue4 else if v = 3 then Glue6
      else if v = 4 then Synth4 else if v = 5 then Synth6 else if v = 6 then Txt
      else UnknownRecord v)"

fun record_kind_as_u8 :: "resource_record_kind \<Rightarrow> u8" where
  "record_kind_as_u8 Ds = 0"
| "record_kind_as_u8 Ns = 1"
| "record_kind_as_u8 Glue4 = 2"
| "record_kind_as_u8 Glue6 = 3"
| "record_kind_as_u8 Synth4 = 4"
| "record_kind_as_u8 Synth6 = 5"
| "record_kind_as_u8 Txt = 6"
| "record_kind_as_u8 (UnknownRecord v) = v"

record resource_record =
  rr_kind :: resource_record_kind
  rr_payload :: bytes

record resource =
  rs_raw :: bytes
  rs_records :: "resource_record list"

datatype decoded_resource_record =
    DecodedDs u16 u8 u8 bytes
  | DecodedNs string
  | DecodedGlue4 string bytes
  | DecodedGlue6 string bytes
  | DecodedSynth4 bytes
  | DecodedSynth6 bytes
  | DecodedTxt "bytes list"
  | DecodedUnknown u8 bytes

subsection \<open>Names\<close>

function dns_payload_loop :: "nat \<Rightarrow> reader \<Rightarrow> primitive_error + unit \<times> reader" where
  "dns_payload_loop labels r =
     (if labels + 1 > 128 then Inl (InvalidResource ''dns name has too many labels'')
      else
        and_then (read_u8 r) (\<lambda>(len, r).
        if len AND 0xc0 = 0xc0 then and_then (read_u8 r) (\<lambda>(_, r). Inr ((), r))
        else if len AND 0xc0 \<noteq> 0 then Inl (InvalidResource ''invalid dns label prefix'')
        else if len = 0 then Inr ((), r)
        else if len > 63 then Inl (InvalidResource ''dns label exceeds 63 bytes'')
        else and_then (read_vec (unat len) r) (\<lambda>(_, r). dns_payload_loop (labels + 1) r)))"
  by pat_completeness auto
termination
  by (relation "measure (\<lambda>(labels, r). 129 - labels)") auto

declare dns_payload_loop.simps [simp del]

definition read_dns_name_payload :: "reader \<Rightarrow> primitive_error + unit \<times> reader" where
  "read_dns_name_payload r = dns_payload_loop 0 r"

text \<open>
  What the pointer-following reader threads through its calls.  The table of followed offsets has
  one entry for every position of a resource; a pointer is only looked up when it lies inside the
  reader's bytes, and these are at most as many.
\<close>

record dns_progress =
  dn_labels :: "bytes list"
  dn_followed :: "bool list"
  dn_pointers :: nat
  dn_wire_len :: nat

function read_dns_name_labels :: "dns_progress \<Rightarrow> reader \<Rightarrow> primitive_error + dns_progress \<times> reader" where
  "read_dns_name_labels st r =
     (if length (dn_labels st) \<ge> 128 then Inl (InvalidResource ''dns name has too many labels'')
      else
        and_then (read_u8 r) (\<lambda>(len, r).
        if len AND 0xc0 = 0xc0 then
          and_then (read_u8 r) (\<lambda>(low, r).
          let offset = push_bit 8 (unat (len AND 0x3f)) OR unat low;
              pointer_position = rd_offset r - 2
          in if offset \<ge> pointer_position \<or> offset \<ge> length (rd_bytes r)
             then Inl (InvalidResource ''dns compression pointer is not backward'')
             else if dn_followed st ! offset \<or> dn_pointers st \<ge> 128
             then Inl (InvalidResource ''dns compression pointer loop'')
             else
               and_then (read_dns_name_labels
                 (st\<lparr>dn_followed := (dn_followed st)[offset := True], dn_pointers := dn_pointers st + 1\<rparr>)
                 (r\<lparr>rd_offset := offset\<rparr>)) (\<lambda>(st, _).
               Inr (st, r)))
        else if len AND 0xc0 \<noteq> 0 then Inl (InvalidResource ''invalid dns label prefix'')
        else if len = 0 then Inr (st, r)
        else if len > 63 then Inl (InvalidResource ''dns label exceeds 63 bytes'')
        else
          and_then (read_vec (unat len) r) (\<lambda>(label, r).
          and_then (ok_or (usize_checked_add (dn_wire_len st) (length label + 1)) IntegerOverflow)
            (\<lambda>wire_len.
          if wire_len > 255 then Inl (InvalidResource ''dns name exceeds 255 bytes'')
          else read_dns_name_labels
            (st\<lparr>dn_wire_len := wire_len, dn_labels := dn_labels st @ [label]\<rparr>) r))))"
  by pat_completeness auto
termination
  by (relation "measure (\<lambda>(st, r). (128 - length (dn_labels st)) + (128 - dn_pointers st))") auto

declare read_dns_name_labels.simps [simp del]

text \<open>The presentation of a label byte: itself, or a backslash and three decimal digits.\<close>

definition plain_label_byte :: "u8 \<Rightarrow> bool" where
  "plain_label_byte b \<longleftrightarrow> 97 \<le> b \<and> b \<le> 122 \<or> 65 \<le> b \<and> b \<le> 90 \<or> 48 \<le> b \<and> b \<le> 57 \<or> b = 45 \<or> b = 95"

definition decimal_digit :: "nat \<Rightarrow> char" where
  "decimal_digit d = char_of (48 + d mod 10)"

definition present_byte :: "u8 \<Rightarrow> string" where
  "present_byte b =
     (if plain_label_byte b then [char_of (unat b)]
      else [CHR 0x5C, decimal_digit (unat b div 100), decimal_digit (unat b div 10), decimal_digit (unat b)])"

definition present_label :: "bytes \<Rightarrow> string" where
  "present_label label = concat (map present_byte label) @ ''.''"

definition present_name :: "bytes list \<Rightarrow> string" where
  "present_name labels = (if labels = [] then ''.'' else concat (map present_label labels))"

definition read_dns_name :: "reader \<Rightarrow> primitive_error + string \<times> reader" where
  "read_dns_name r =
     and_then (read_dns_name_labels
       \<lparr>dn_labels = [], dn_followed = replicate max_resource_size False, dn_pointers = 0, dn_wire_len = 1\<rparr> r)
       (\<lambda>(st, r). Inr (present_name (dn_labels st), r))"

subsection \<open>Decoding\<close>

fun skip_payload :: "resource_record_kind \<Rightarrow> reader \<Rightarrow> primitive_error + unit \<times> reader" where
  "skip_payload Ds r =
     and_then (read_u16_be r) (\<lambda>(_, r).
     and_then (read_u8 r) (\<lambda>(_, r).
     and_then (read_u8 r) (\<lambda>(_, r).
     and_then (read_u8 r) (\<lambda>(digest_len, r).
     and_then (read_vec (unat digest_len) r) (\<lambda>(_, r). Inr ((), r))))))"
| "skip_payload Ns r = read_dns_name_payload r"
| "skip_payload Glue4 r =
     and_then (read_dns_name_payload r) (\<lambda>(_, r).
     and_then (read_vec 4 r) (\<lambda>(_, r). Inr ((), r)))"
| "skip_payload Glue6 r =
     and_then (read_dns_name_payload r) (\<lambda>(_, r).
     and_then (read_vec 16 r) (\<lambda>(_, r). Inr ((), r)))"
| "skip_payload Synth4 r = and_then (read_vec 4 r) (\<lambda>(_, r). Inr ((), r))"
| "skip_payload Synth6 r = and_then (read_vec 16 r) (\<lambda>(_, r). Inr ((), r))"
| "skip_payload Txt r =
     and_then (read_u8 r) (\<lambda>(count, r).
     and_then (read_many (\<lambda>r. and_then (read_u8 r) (\<lambda>(len, r). read_vec (unat len) r)) (unat count) r)
       (\<lambda>(_, r). Inr ((), r)))"
| "skip_payload (UnknownRecord _) r = and_then (read_vec (remaining r) r) (\<lambda>(_, r). Inr ((), r))"

fun read_typed_record ::
  "resource_record_kind \<Rightarrow> reader \<Rightarrow> primitive_error + decoded_resource_record \<times> reader" where
  "read_typed_record Ds r =
     and_then (read_u16_be r) (\<lambda>(key_tag, r).
     and_then (read_u8 r) (\<lambda>(algorithm, r).
     and_then (read_u8 r) (\<lambda>(digest_type, r).
     and_then (read_u8 r) (\<lambda>(digest_len, r).
     and_then (read_vec (unat digest_len) r) (\<lambda>(digest, r).
     Inr (DecodedDs key_tag algorithm digest_type digest, r))))))"
| "read_typed_record Ns r = and_then (read_dns_name r) (\<lambda>(ns, r). Inr (DecodedNs ns, r))"
| "read_typed_record Glue4 r =
     and_then (read_dns_name r) (\<lambda>(ns, r).
     and_then (read_array 4 r) (\<lambda>(addr, r). Inr (DecodedGlue4 ns addr, r)))"
| "read_typed_record Glue6 r =
     and_then (read_dns_name r) (\<lambda>(ns, r).
     and_then (read_array 16 r) (\<lambda>(addr, r). Inr (DecodedGlue6 ns addr, r)))"
| "read_typed_record Synth4 r = and_then (read_array 4 r) (\<lambda>(addr, r). Inr (DecodedSynth4 addr, r))"
| "read_typed_record Synth6 r = and_then (read_array 16 r) (\<lambda>(addr, r). Inr (DecodedSynth6 addr, r))"
| "read_typed_record Txt r =
     and_then (read_u8 r) (\<lambda>(count, r).
     and_then (read_many (\<lambda>r. and_then (read_u8 r) (\<lambda>(len, r). read_vec (unat len) r)) (unat count) r)
       (\<lambda>(txt, r). Inr (DecodedTxt txt, r)))"
| "read_typed_record (UnknownRecord k) r =
     and_then (read_vec (remaining r) r) (\<lambda>(payload, r). Inr (DecodedUnknown k payload, r))"

subsection \<open>Reads move forward\<close>

text \<open>A read keeps the bytes and does not move back; it ends inside the bytes.\<close>

definition moves :: "reader \<Rightarrow> reader \<Rightarrow> bool" where
  "moves r r' \<longleftrightarrow> rd_bytes r' = rd_bytes r \<and> rd_offset r \<le> rd_offset r' \<and>
     (rd_offset r \<le> length (rd_bytes r) \<longrightarrow> rd_offset r' \<le> length (rd_bytes r))"

lemma moves_refl [simp]: "moves r r"
  by (simp add: moves_def)

lemma moves_trans: "moves r r' \<Longrightarrow> moves r' r'' \<Longrightarrow> moves r r''"
  by (auto simp: moves_def)

lemma read_exact_moves: "read_exact n r = Inr (bs, r') \<Longrightarrow> moves r r' \<and> rd_offset r' = rd_offset r + n"
  by (auto simp: read_exact_def moves_def usize_checked_add_def and_then_eq_Inr split: if_splits)

lemma read_u8_moves: "read_u8 r = Inr (b, r') \<Longrightarrow> moves r r' \<and> rd_offset r' = rd_offset r + 1"
  by (auto simp: read_u8_def and_then_eq_Inr dest: read_exact_moves)

lemma read_u8_remaining: "read_u8 r = Inr (b, r') \<Longrightarrow> moves r' r'' \<Longrightarrow> 0 < remaining r \<Longrightarrow> remaining r'' < remaining r"
  by (drule read_u8_moves) (auto simp: moves_def remaining_def)

lemma dns_payload_loop_Inr:
  "dns_payload_loop labels r = Inr (u, r') \<longleftrightarrow> labels < 128 \<and> (\<exists>len r1. read_u8 r = Inr (len, r1) \<and>
     (if len AND 0xc0 = 0xc0 then \<exists>low. read_u8 r1 = Inr (low, r')
      else len AND 0xc0 = 0 \<and> (if len = 0 then r' = r1
        else len \<le> 63 \<and> (\<exists>label r2. read_vec (unat len) r1 = Inr (label, r2) \<and>
          dns_payload_loop (labels + 1) r2 = Inr (u, r')))))"
proof (cases "read_u8 r")
  case (Inl e)
  then show ?thesis by (subst dns_payload_loop.simps) auto
next
  case (Inr p)
  then obtain len r1 where "read_u8 r = Inr (len, r1)" by (cases p) simp
  then show ?thesis
    by (subst dns_payload_loop.simps) (auto simp: and_then_eq_Inr not_le not_less split: if_splits)
qed

lemma dns_payload_moves: "dns_payload_loop labels r = Inr (u, r') \<Longrightarrow> moves r r'"
proof (induction "128 - labels" arbitrary: labels r rule: less_induct)
  case less
  from less.prems obtain len r1 where u8: "labels < 128" "read_u8 r = Inr (len, r1)"
    and "(\<exists>low. read_u8 r1 = Inr (low, r')) \<or> r' = r1 \<or>
      (\<exists>label r2. read_vec (unat len) r1 = Inr (label, r2) \<and> dns_payload_loop (labels + 1) r2 = Inr (u, r'))"
    unfolding dns_payload_loop_Inr [of labels] by (auto split: if_splits)
  then consider low where "read_u8 r1 = Inr (low, r')" | "r' = r1"
    | label r2 where "read_vec (unat len) r1 = Inr (label, r2)" "dns_payload_loop (labels + 1) r2 = Inr (u, r')"
    by blast
  then have "moves r1 r'"
  proof cases
    case 3
    with less.hyps [of "labels + 1" r2] u8(1) show ?thesis
      by (auto simp: read_vec_def dest!: read_exact_moves intro: moves_trans)
  qed (auto dest: read_u8_moves)
  with u8(2) show ?case by (blast dest: read_u8_moves intro: moves_trans)
qed

lemma read_many_moves:
  assumes "\<And>r x r'. rd r = Inr (x, r') \<Longrightarrow> moves r r'"
  shows "read_many rd n r = Inr (xs, r') \<Longrightarrow> moves r r'"
  by (induction n arbitrary: r xs) (auto simp: and_then_eq_Inr dest!: assms intro: moves_trans)

lemma read_string_moves: "and_then (read_u8 r) (\<lambda>(len, r). read_vec (unat len) r) = Inr (x, r') \<Longrightarrow> moves r r'"
  by (auto simp: and_then_eq_Inr read_vec_def dest!: read_u8_moves read_exact_moves intro: moves_trans)

lemma skip_payload_moves: "skip_payload kind r = Inr (u, r') \<Longrightarrow> moves r r'"
  by (cases kind)
    (auto simp: and_then_eq_Inr read_vec_def read_u16_be_def read_array_def read_dns_name_payload_def
      dest!: read_u8_moves read_exact_moves dns_payload_moves read_many_moves [OF read_string_moves, rotated]
      simp: moves_def)

text \<open>The payload of a record runs from where the reader stands after the kind to where it stops.\<close>

function decode_records :: "reader \<Rightarrow> primitive_error + resource_record list" where
  "decode_records r =
     (if remaining r > 0 then
        and_then (read_u8 r) (\<lambda>(k, r1).
        and_then (skip_payload (record_kind_from_u8 k) r1) (\<lambda>(_, r2).
        and_then (decode_records r2) (\<lambda>records.
        Inr (\<lparr>rr_kind = record_kind_from_u8 k,
              rr_payload = take (rd_offset r2 - rd_offset r1) (drop (rd_offset r1) (rd_bytes r))\<rparr> # records))))
      else Inr [])"
  by pat_completeness auto
termination
  by (relation "measure remaining") (auto dest!: skip_payload_moves intro: read_u8_remaining)

declare decode_records.simps [simp del]

definition resource_decode :: "bytes \<Rightarrow> primitive_error + resource" where
  "resource_decode raw =
     and_then (reader_new raw max_resource_size) (\<lambda>r.
     and_then (read_u8 r) (\<lambda>(version, r).
     if version \<noteq> 0 then Inl (InvalidResource ''unknown resource version'')
     else and_then (decode_records r) (\<lambda>records. Inr \<lparr>rs_raw = raw, rs_records = records\<rparr>)))"

definition resource_encode :: "resource \<Rightarrow> bytes" where
  "resource_encode res = rs_raw res"


subsection \<open>The typed decoder\<close>

definition dns_pointer :: "u8 \<Rightarrow> u8 \<Rightarrow> nat" where
  "dns_pointer len low = push_bit 8 (unat (len AND 0x3f)) OR unat low"

lemma read_dns_name_labels_Inr:
  "read_dns_name_labels st r = Inr (st', r') \<longleftrightarrow> length (dn_labels st) < 128 \<and>
     (\<exists>len r1. read_u8 r = Inr (len, r1) \<and>
     (if len AND 0xc0 = 0xc0 then \<exists>low r2.
        read_u8 r1 = Inr (low, r') \<and> dns_pointer len low < rd_offset r' - 2 \<and>
        dns_pointer len low < length (rd_bytes r') \<and> \<not> dn_followed st ! dns_pointer len low \<and>
        dn_pointers st < 128 \<and>
        read_dns_name_labels (st\<lparr>dn_followed := (dn_followed st)[dns_pointer len low := True],
          dn_pointers := dn_pointers st + 1\<rparr>) (r'\<lparr>rd_offset := dns_pointer len low\<rparr>) = Inr (st', r2)
      else len AND 0xc0 = 0 \<and> (if len = 0 then st' = st \<and> r' = r1
        else len \<le> 63 \<and> (\<exists>label r2. read_vec (unat len) r1 = Inr (label, r2) \<and>
          dn_wire_len st + (length label + 1) \<le> 255 \<and>
          read_dns_name_labels (st\<lparr>dn_wire_len := dn_wire_len st + (length label + 1),
            dn_labels := dn_labels st @ [label]\<rparr>) r2 = Inr (st', r')))))"
proof (cases "read_u8 r")
  case (Inl e)
  then show ?thesis by (subst read_dns_name_labels.simps) auto
next
  case (Inr p)
  then obtain len r1 where u8: "read_u8 r = Inr (len, r1)" by (cases p) simp
  consider "len AND 0xc0 = 0xc0" | "len AND 0xc0 \<noteq> 0xc0" by blast
  then show ?thesis
  proof cases
    case 1
    with u8 show ?thesis
      by (cases "read_u8 r1"; subst read_dns_name_labels.simps)
        (auto simp: and_then_eq_Inr dns_pointer_def Let_def not_le split: if_splits)
  next
    case 2
    have "n \<le> usize_max" if "n \<le> 255" for n :: nat using that by (simp add: usize_max_def)
    with 2 u8 show ?thesis
      by (cases "read_vec (unat len) r1"; subst read_dns_name_labels.simps)
        (auto simp: and_then_eq_Inr usize_checked_add_def not_le not_less split: if_splits)
  qed
qed

lemma labels_skip:
  "read_dns_name_labels st r = Inr (st', r') \<Longrightarrow> dns_payload_loop (length (dn_labels st)) r = Inr ((), r')"
proof (induction "128 - length (dn_labels st)" arbitrary: st r rule: less_induct)
  case less
  from less.prems obtain len r1 where u8: "length (dn_labels st) < 128" "read_u8 r = Inr (len, r1)"
    and rest: "if len AND 0xc0 = 0xc0 then \<exists>low. read_u8 r1 = Inr (low, r')
      else len AND 0xc0 = 0 \<and> (if len = 0 then r' = r1
        else len \<le> 63 \<and> (\<exists>label r2. read_vec (unat len) r1 = Inr (label, r2) \<and>
          read_dns_name_labels (st\<lparr>dn_wire_len := dn_wire_len st + (length label + 1),
            dn_labels := dn_labels st @ [label]\<rparr>) r2 = Inr (st', r')))"
    unfolding read_dns_name_labels_Inr [of st r] by (auto split: if_splits)
  have "dns_payload_loop (length (dn_labels st) + 1) r2 = Inr ((), r')"
    if "read_dns_name_labels (st\<lparr>dn_wire_len := w, dn_labels := dn_labels st @ [label]\<rparr>) r2 = Inr (st', r')"
    for w label r2
    using less.hyps [OF _ that] u8(1) by simp
  with u8 rest show ?case
    unfolding dns_payload_loop_Inr [of "length (dn_labels st)"] by (auto split: if_splits)
qed

lemma read_dns_name_skip: "read_dns_name r = Inr (ns, r') \<Longrightarrow> read_dns_name_payload r = Inr ((), r')"
  unfolding read_dns_name_def read_dns_name_payload_def
  by (auto simp: and_then_eq_Inr dest: labels_skip)

lemma typed_skip: "read_typed_record kind r = Inr (x, r') \<Longrightarrow> skip_payload kind r = Inr ((), r')"
  by (cases kind) (auto simp: and_then_eq_Inr read_array_def read_vec_def dest!: read_dns_name_skip)

function decode_typed_records :: "reader \<Rightarrow> primitive_error + decoded_resource_record list" where
  "decode_typed_records r =
     (if remaining r > 0 then
        and_then (read_u8 r) (\<lambda>(k, r1).
        and_then (read_typed_record (record_kind_from_u8 k) r1) (\<lambda>(rec, r2).
        and_then (decode_typed_records r2) (\<lambda>records.
        Inr (rec # records))))
      else Inr [])"
  by pat_completeness auto
termination
  by (relation "measure remaining") (auto dest!: typed_skip skip_payload_moves intro: read_u8_remaining)

declare decode_typed_records.simps [simp del]

definition decoded_records :: "resource \<Rightarrow> primitive_error + decoded_resource_record list" where
  "decoded_records res =
     and_then (reader_new (rs_raw res) max_resource_size) (\<lambda>r.
     and_then (read_u8 r) (\<lambda>(version, r).
     if version \<noteq> 0 then Inl (InvalidResource ''unknown resource version'')
     else decode_typed_records r))"

fun decoded_kind :: "decoded_resource_record \<Rightarrow> resource_record_kind" where
  "decoded_kind (DecodedDs _ _ _ _) = Ds"
| "decoded_kind (DecodedNs _) = Ns"
| "decoded_kind (DecodedGlue4 _ _) = Glue4"
| "decoded_kind (DecodedGlue6 _ _) = Glue6"
| "decoded_kind (DecodedSynth4 _) = Synth4"
| "decoded_kind (DecodedSynth6 _) = Synth6"
| "decoded_kind (DecodedTxt _) = Txt"
| "decoded_kind (DecodedUnknown k _) = UnknownRecord k"

lemma typed_kind: "read_typed_record kind r = Inr (x, r') \<Longrightarrow> decoded_kind x = kind"
  by (cases kind) (auto simp: and_then_eq_Inr)


lemma typed_records_kinds:
  "decode_typed_records r = Inr ds \<Longrightarrow> \<exists>records. decode_records r = Inr records \<and> map rr_kind records = map decoded_kind ds"
proof (induction "remaining r" arbitrary: r ds rule: less_induct)
  case less
  show ?case
  proof (cases "remaining r > 0")
    case True
    with less.prems obtain k r1 x r2 ds' where u8: "read_u8 r = Inr (k, r1)"
      and typed: "read_typed_record (record_kind_from_u8 k) r1 = Inr (x, r2)"
      and ds: "decode_typed_records r2 = Inr ds'" "ds = x # ds'"
      by (subst (asm) decode_typed_records.simps) (auto simp: and_then_eq_Inr)
    have skip: "skip_payload (record_kind_from_u8 k) r1 = Inr ((), r2)" using typed by (rule typed_skip)
    from less.hyps [OF read_u8_remaining [OF u8 skip_payload_moves [OF skip] True] ds(1)]
    obtain records where "decode_records r2 = Inr records" "map rr_kind records = map decoded_kind ds'" by blast
    with True u8 skip typed_kind [OF typed] ds(2) show ?thesis by (subst decode_records.simps) auto
  next
    case False
    with less.prems show ?thesis
      by (subst (asm) decode_typed_records.simps, subst decode_records.simps) auto
  qed
qed

lemma record_kind_as_from_u8 [simp]: "record_kind_as_u8 (record_kind_from_u8 k) = k"
  by (simp add: record_kind_from_u8_def)

lemma read_u8_byte:
  assumes "read_u8 r = Inr (k, r1)"
  shows "rd_offset r < length (rd_bytes r) \<and> k = rd_bytes r ! rd_offset r \<and>
    r1 = r\<lparr>rd_offset := rd_offset r + 1\<rparr>"
  using assms
  by (auto simp: read_u8_def read_exact_def usize_checked_add_def and_then_eq_Inr split: if_splits)

definition write_record :: "resource_record \<Rightarrow> bytes" where
  "write_record rec = record_kind_as_u8 (rr_kind rec) # rr_payload rec"

lemma decode_records_split:
  "decode_records r = Inr records \<Longrightarrow> rd_offset r \<le> length (rd_bytes r) \<Longrightarrow>
   drop (rd_offset r) (rd_bytes r) = concat (map write_record records)"
proof (induction "remaining r" arbitrary: r records rule: less_induct)
  case less
  show ?case
  proof (cases "remaining r > 0")
    case True
    with less.prems(1) obtain k r1 r2 records' where u8: "read_u8 r = Inr (k, r1)"
      and skip: "skip_payload (record_kind_from_u8 k) r1 = Inr ((), r2)"
      and rest: "decode_records r2 = Inr records'"
      and records: "records = \<lparr>rr_kind = record_kind_from_u8 k,
        rr_payload = take (rd_offset r2 - rd_offset r1) (drop (rd_offset r1) (rd_bytes r))\<rparr> # records'"
      by (subst (asm) decode_records.simps) (auto simp: and_then_eq_Inr)
    define p where "p = rd_offset r"
    have k: "p < length (rd_bytes r)" "k = rd_bytes r ! p" "r1 = r\<lparr>rd_offset := p + 1\<rparr>"
      using read_u8_byte [OF u8] by (simp_all add: p_def)
    have r2: "rd_bytes r2 = rd_bytes r" "p + 1 \<le> rd_offset r2" "rd_offset r2 \<le> length (rd_bytes r)"
      using skip_payload_moves [OF skip] k by (auto simp: moves_def)
    have "remaining r2 < remaining r" using u8 skip_payload_moves [OF skip] True by (rule read_u8_remaining)
    from less.hyps [OF this rest] r2
    have "drop (rd_offset r2) (rd_bytes r) = concat (map write_record records')" by simp
    moreover have "drop p (rd_bytes r) = k # drop (p + 1) (rd_bytes r)"
      using k by (simp add: Cons_nth_drop_Suc)
    moreover have "drop (p + 1) (rd_bytes r) =
        take (rd_offset r2 - (p + 1)) (drop (p + 1) (rd_bytes r)) @ drop (rd_offset r2) (rd_bytes r)"
      using r2(2) by (metis append_take_drop_id drop_drop le_add_diff_inverse2)
    ultimately show ?thesis by (simp add: records write_record_def k(3) p_def)
  next
    case False
    with less.prems show ?thesis by (subst (asm) decode_records.simps) (auto simp: remaining_def)
  qed
qed

text \<open>
  C28: decoding a resource loses nothing.  A decoded resource keeps the raw bytes, which are at most
  512 and consist of the version byte and then, for every record in order, its kind byte and its
  payload.
\<close>

theorem resource_decode_lossless:
  assumes "resource_decode raw = Inr res"
  shows "resource_encode res = raw \<and> length raw \<le> max_resource_size \<and>
    raw = 0 # concat (map (\<lambda>rec. record_kind_as_u8 (rr_kind rec) # rr_payload rec) (rs_records res))"
proof -
  from assms obtain r1 records where "length raw \<le> max_resource_size"
    and u8: "read_u8 (reader_at [] raw) = Inr (0, r1)" and "decode_records r1 = Inr records"
    and res: "res = \<lparr>rs_raw = raw, rs_records = records\<rparr>"
    by (auto simp: resource_decode_def and_then_eq_Inr reader_new_eq split: if_splits)
  moreover from read_u8_byte [OF u8] have r1: "raw \<noteq> []" "raw ! 0 = 0" "r1 = \<lparr>rd_bytes = raw, rd_offset = 1\<rparr>"
    by (auto simp: reader_at_def)
  ultimately have "drop 1 raw = concat (map write_record records)"
    using decode_records_split [of r1 records] by (simp add: Suc_leI)
  moreover have "raw = 0 # drop 1 raw" using r1 by (cases raw) simp_all
  ultimately show ?thesis
    using res \<open>length raw \<le> max_resource_size\<close> write_record_def [abs_def]
    by (simp add: resource_encode_def)
qed

text \<open>A resource with a name server, glue for it through a compression pointer, and a text record.\<close>

definition example_resource :: bytes where
  "example_resource = [0, 1, 3, 110, 115, 49, 0, 2, 0xc0, 2, 10, 0, 0, 1, 6, 1, 2, 104, 105]"

theorem resource_decode_lossless_witness:
  "\<exists>res. resource_decode example_resource = Inr res \<and> resource_encode res = example_resource"
proof -
  have "\<not> isl (resource_decode example_resource)" by code_simp
  then obtain res where "resource_decode example_resource = Inr res"
    by (cases "resource_decode example_resource") simp_all
  with resource_decode_lossless [OF this] show ?thesis by blast
qed

text \<open>
  C29: the two decoders agree.  Whatever the typed decoder accepts, the splitting decoder accepts
  too, and it finds records of the same kinds in the same order.
\<close>

theorem typed_records_agree:
  assumes "decoded_records \<lparr>rs_raw = raw, rs_records = []\<rparr> = Inr ds"
  shows "\<exists>res. resource_decode raw = Inr res \<and> map rr_kind (rs_records res) = map decoded_kind ds"
proof -
  from assms obtain r1 where "length raw \<le> max_resource_size"
    and "read_u8 (reader_at [] raw) = Inr (0, r1)" and "decode_typed_records r1 = Inr ds"
    by (auto simp: decoded_records_def and_then_eq_Inr reader_new_eq split: if_splits)
  moreover obtain records where "decode_records r1 = Inr records" "map rr_kind records = map decoded_kind ds"
    using typed_records_kinds [OF \<open>decode_typed_records r1 = Inr ds\<close>] by blast
  ultimately show ?thesis
    by (auto simp: resource_decode_def and_then_eq_Inr reader_new_eq)
qed

theorem typed_records_agree_witness:
  "\<exists>res. resource_decode example_resource = Inr res \<and> map rr_kind (rs_records res) = [Ns, Glue4, Txt]"
proof -
  have "decoded_records \<lparr>rs_raw = example_resource, rs_records = []\<rparr> =
      Inr [DecodedNs ''ns1.'', DecodedGlue4 ''ns1.'' [10, 0, 0, 1], DecodedTxt [[104, 105]]]"
    by code_simp
  from typed_records_agree [OF this] show ?thesis by simp
qed


subsection \<open>Names are presented without loss\<close>

definition dns_labels_ok :: "bytes list \<Rightarrow> bool" where
  "dns_labels_ok labels \<longleftrightarrow> (\<forall>l \<in> set labels. 1 \<le> length l \<and> length l \<le> 63) \<and>
     1 + (\<Sum>l \<leftarrow> labels. length l + 1) \<le> 255"

definition progress_ok :: "dns_progress \<Rightarrow> bool" where
  "progress_ok st \<longleftrightarrow> dns_labels_ok (dn_labels st) \<and>
     dn_wire_len st = 1 + (\<Sum>l \<leftarrow> dn_labels st. length l + 1)"

lemma read_labels_cases:
  assumes "read_dns_name_labels st r = Inr (st', r')"
  obtains (stop) "st' = st"
  | (pointer) r0 r2 f where "dn_pointers st < 128"
      "read_dns_name_labels (st\<lparr>dn_followed := f, dn_pointers := dn_pointers st + 1\<rparr>) r0 = Inr (st', r2)"
  | (label) len :: u8 and r1 label r2 where "len \<noteq> 0" "len \<le> 63" "read_vec (unat len) r1 = Inr (label, r2)"
      "length (dn_labels st) < 128" "dn_wire_len st + (length label + 1) \<le> 255"
      "read_dns_name_labels (st\<lparr>dn_wire_len := dn_wire_len st + (length label + 1),
          dn_labels := dn_labels st @ [label]\<rparr>) r2 = Inr (st', r')"
proof -
  note rest = iffD1 [OF read_dns_name_labels_Inr assms]
  then obtain len r1 where u8: "read_u8 r = Inr (len, r1)" by blast
  show thesis
  proof (cases "len AND 0xc0 = 0xc0")
    case True
    with rest u8 show thesis by (auto simp del: add_Suc_right intro: pointer)
  next
    case False
    show thesis
    proof (cases "len = 0")
      case True
      with rest u8 stop show thesis by auto
    next
      case nz: False
      with False rest u8 obtain label' r2 where "len \<le> 63" "read_vec (unat len) r1 = Inr (label', r2)"
        "length (dn_labels st) < 128" "dn_wire_len st + (length label' + 1) \<le> 255"
        "read_dns_name_labels (st\<lparr>dn_wire_len := dn_wire_len st + (length label' + 1),
          dn_labels := dn_labels st @ [label']\<rparr>) r2 = Inr (st', r')" by auto
      with nz label show thesis by blast
    qed
  qed
qed

lemma read_labels_ok: "read_dns_name_labels st r = Inr (st', r') \<Longrightarrow> progress_ok st \<Longrightarrow> progress_ok st'"
proof (induction "(128 - length (dn_labels st)) + (128 - dn_pointers st)" arbitrary: st r r' rule: less_induct)
  case less
  from less.prems(1) show ?case
  proof (cases rule: read_labels_cases)
    case (pointer r0 r2 f)
    from less.hyps [OF _ pointer(2)] pointer(1) less.prems(2) show ?thesis by (simp add: progress_ok_def)
  next
    case (label len r1 label r2)
    have "length label = unat len"
      using label(3)
      by (auto simp: read_vec_def read_exact_def usize_checked_add_def and_then_eq_Inr split: if_splits)
    moreover have "1 \<le> unat len" using label(1) by (simp add: Suc_leI unat_gt_0)
    moreover have "unat len \<le> 63" using label(2) by (simp add: word_le_nat_alt)
    ultimately have "progress_ok (st\<lparr>dn_wire_len := dn_wire_len st + (length label + 1),
        dn_labels := dn_labels st @ [label]\<rparr>)"
      using less.prems(2) label(5) by (auto simp: progress_ok_def dns_labels_ok_def)
    with less.hyps [OF _ label(6)] label(4) show ?thesis by simp
  qed (use less.prems(2) in simp)
qed

lemma char_of_unat_inject: "char_of (unat (a :: u8)) = (char_of (unat b) :: char) \<longleftrightarrow> a = b"
  by (simp add: char_of_eq_iff take_bit_nat_eq_self word_unat_eq_iff)

lemma decimal_digit_inject: "decimal_digit d = decimal_digit e \<longleftrightarrow> d mod 10 = e mod 10"
proof -
  have "take_bit 8 (48 + k mod 10) = 48 + k mod 10" for k :: nat
    using mod_less_divisor [of 10 k] by (simp add: take_bit_nat_eq_self)
  then show ?thesis by (simp add: decimal_digit_def char_of_eq_iff)
qed

lemma three_digits:
  fixes v :: nat
  assumes "v < 1000"
  shows "v = 100 * (v div 100 mod 10) + 10 * (v div 10 mod 10) + v mod 10"
proof -
  have "v mod (10 * 10) = 10 * (v div 10 mod 10) + v mod 10" by (rule mod_mult2_eq)
  moreover have "v div 100 mod 10 = v div 100" using assms by (simp add: less_mult_imp_div_less)
  ultimately show ?thesis using mult_div_mod_eq [of 100 v] by simp
qed

lemma plain_byte_char:
  assumes "plain_label_byte b"
  shows "char_of (unat b) \<noteq> CHR 0x5C" and "char_of (unat b) \<noteq> CHR ''.''"
proof -
  have "char_of (unat (0x5C :: u8)) = CHR 0x5C" "char_of (unat (0x2E :: u8)) = CHR ''.''" by code_simp+
  moreover have "b \<noteq> 0x5C" "b \<noteq> 0x2E" using assms by (auto simp: plain_label_byte_def)
  ultimately show "char_of (unat b) \<noteq> CHR 0x5C" "char_of (unat b) \<noteq> CHR ''.''"
    by (metis char_of_unat_inject)+
qed

lemma present_byte_prefix_free:
  assumes "present_byte a @ s = present_byte b @ t"
  shows "a = b \<and> s = t"
proof (cases "plain_label_byte a = plain_label_byte b")
  case True
  have "unat a = unat b" if "decimal_digit (unat a div 100) = decimal_digit (unat b div 100)"
    "decimal_digit (unat a div 10) = decimal_digit (unat b div 10)" "decimal_digit (unat a) = decimal_digit (unat b)"
  proof -
    have "unat x = 100 * (unat x div 100 mod 10) + 10 * (unat x div 10 mod 10) + unat x mod 10" for x :: u8
      by (rule three_digits) (use unat_le_255 [of x] in linarith)
    from this [of a] this [of b] that show ?thesis unfolding decimal_digit_inject by metis
  qed
  with True assms show ?thesis
    by (auto simp: present_byte_def char_of_unat_inject word_unat_eq_iff split: if_splits)
next
  case False
  with assms show ?thesis
    using plain_byte_char(1) [of a] plain_byte_char(1) [of b] by (auto simp: present_byte_def split: if_splits)
qed

lemma present_byte_not_dot: "present_byte b @ s \<noteq> CHR ''.'' # t"
  using plain_byte_char(2) [of b] by (auto simp: present_byte_def)

lemma present_label_prefix_free:
  "present_label l @ s = present_label l' @ t \<Longrightarrow> l = l' \<and> s = t"
proof (induction l arbitrary: l')
  case Nil
  then show ?case
  proof (cases l')
    case (Cons b' l'')
    with Nil have "present_byte b' @ present_label l'' @ t = CHR ''.'' # s" by (simp add: present_label_def)
    with present_byte_not_dot show ?thesis by blast
  qed (simp add: present_label_def)
next
  case (Cons b l)
  then show ?case
  proof (cases l')
    case Nil
    with Cons.prems have "present_byte b @ present_label l @ s = CHR ''.'' # t" by (simp add: present_label_def)
    with present_byte_not_dot show ?thesis by blast
  next
    case (Cons b' l'')
    with Cons.prems have "present_byte b @ present_label l @ s = present_byte b' @ present_label l'' @ t"
      by (simp add: present_label_def)
    from present_byte_prefix_free [OF this] Cons.IH [of l''] Cons show ?thesis by simp
  qed
qed

lemma present_labels_inject:
  "concat (map present_label ls) = concat (map present_label ls') \<Longrightarrow> ls = ls'"
proof (induction ls arbitrary: ls')
  case Nil
  then show ?case by (cases ls') (simp_all add: present_label_def)
next
  case (Cons l ls)
  then show ?case
  proof (cases ls')
    case Nil
    with Cons.prems show ?thesis by (simp add: present_label_def)
  next
    case (Cons l' ls'')
    with Cons.prems have "present_label l @ concat (map present_label ls) =
        present_label l' @ concat (map present_label ls'')" by simp
    from present_label_prefix_free [OF this] Cons.IH [of ls''] Cons show ?thesis by simp
  qed
qed

lemma present_name_inject:
  assumes "dns_labels_ok ls" and "dns_labels_ok ls'" and "present_name ls = present_name ls'"
  shows "ls = ls'"
proof -
  have alone: "concat (map present_label xs) \<noteq> ''.''" if "dns_labels_ok xs" for xs
  proof
    assume "concat (map present_label xs) = ''.''"
    then have "concat (map present_label xs) = concat (map present_label [[]])" by (simp add: present_label_def)
    then have "xs = [[]]" by (rule present_labels_inject)
    with that show False by (simp add: dns_labels_ok_def)
  qed
  from assms(3) alone [OF assms(1)] alone [OF assms(2)] show ?thesis
    by (auto simp: present_name_def split: if_splits intro: present_labels_inject)
qed

text \<open>
  C35: DNS names are read within the limits of the protocol and presented without loss.  Whatever
  compression pointers the bytes contain, a name that is read has labels of 1 to 63 bytes and at
  most 255 bytes in all, and exactly one list of labels has the presentation that is returned.
\<close>

theorem read_dns_name_exact:
  assumes "read_dns_name r = Inr (ns, r')"
  shows "\<exists>!labels. dns_labels_ok labels \<and> ns = present_name labels"
proof -
  define start where "start = \<lparr>dn_labels = [], dn_followed = replicate max_resource_size False,
    dn_pointers = 0, dn_wire_len = 1\<rparr>"
  from assms obtain st where st: "read_dns_name_labels start r = Inr (st, r')" "ns = present_name (dn_labels st)"
    unfolding read_dns_name_def start_def by (auto simp: and_then_eq_Inr)
  have "progress_ok start" by (simp add: start_def progress_ok_def dns_labels_ok_def)
  with st(1) have "dns_labels_ok (dn_labels st)" using read_labels_ok by (simp add: progress_ok_def)
  with st(2) show ?thesis by (auto intro: present_name_inject)
qed

theorem read_dns_name_exact_witness:
  "\<exists>!labels. dns_labels_ok labels \<and> ''ns1.'' = present_name labels"
  by (rule read_dns_name_exact [of "\<lparr>rd_bytes = example_resource, rd_offset = 8\<rparr>"
      _ "\<lparr>rd_bytes = example_resource, rd_offset = 10\<rparr>"]) code_simp

end
