(* ===== verification/Names.thy ===== *)
theory Names
  imports Wire
begin

unbundle bit_operations_syntax

text \<open>
  Names and the name state of \<^verbatim>\<open>crates/hns-primitives/src/lib.rs\<close>: the rule for names with its two
  forms (\<^verbatim>\<open>verify_name\<close> on strings and, in the covenant rules of the consensus crate, on the bytes of
  a covenant item after \<^verbatim>\<open>from_utf8\<close>), the name hash, the name state and its reset, and the lifecycle
  states in their declared order.  SHA3-256 is the parameter \<open>S\<close>.
\<close>

subsection \<open>UTF-8\<close>

definition utf8_cont :: "u8 \<Rightarrow> bool" where
  "utf8_cont b \<longleftrightarrow> 0x80 \<le> b \<and> b \<le> 0xbf"

text \<open>
  \<^verbatim>\<open>std::str::from_utf8\<close>: well-formed sequences of one to four bytes, without overlong forms,
  surrogates or code points above U+10FFFF.
\<close>

fun utf8_valid :: "bytes \<Rightarrow> bool" where
  "utf8_valid [] = True"
| "utf8_valid (a # as) =
     (if a < 0x80 then utf8_valid as
      else case as of
        [] \<Rightarrow> False
      | b # bs \<Rightarrow>
          if 0xc2 \<le> a \<and> a \<le> 0xdf then utf8_cont b \<and> utf8_valid bs
          else case bs of
            [] \<Rightarrow> False
          | c # cs \<Rightarrow>
              if 0xe0 \<le> a \<and> a \<le> 0xef then
                utf8_cont b \<and> (a = 0xe0 \<longrightarrow> 0xa0 \<le> b) \<and> (a = 0xed \<longrightarrow> b \<le> 0x9f) \<and> utf8_cont c \<and> utf8_valid cs
              else case cs of
                [] \<Rightarrow> False
              | d # ds \<Rightarrow>
                  0xf0 \<le> a \<and> a \<le> 0xf4 \<and> utf8_cont b \<and> (a = 0xf0 \<longrightarrow> 0x90 \<le> b) \<and>
                  (a = 0xf4 \<longrightarrow> b \<le> 0x8f) \<and> utf8_cont c \<and> utf8_cont d \<and> utf8_valid ds)"

text \<open>A \<^verbatim>\<open>&str\<close> is modelled by its bytes.\<close>

definition from_utf8 :: "bytes \<Rightarrow> bytes option" where
  "from_utf8 bs = (if utf8_valid bs then Some bs else None)"

lemma ascii_utf8_valid: "\<forall>b \<in> set bs. b < 0x80 \<Longrightarrow> utf8_valid bs"
  by (induction bs) auto

subsection \<open>Names\<close>

definition reserved_labels :: "bytes list" where
  "reserved_labels = map (map of_char) [''example'', ''invalid'', ''local'', ''localhost'', ''test'']"

definition name_byte_ok :: "nat \<Rightarrow> nat \<Rightarrow> u8 \<Rightarrow> bool" where
  "name_byte_ok len index byte \<longleftrightarrow>
     (if 48 \<le> byte \<and> byte \<le> 57 \<or> 97 \<le> byte \<and> byte \<le> 122 then True
      else if byte = 45 \<or> byte = 95 then index \<noteq> 0 \<and> index + 1 \<noteq> len
      else False)"

definition verify_name :: "bytes \<Rightarrow> bool" where
  "verify_name name \<longleftrightarrow>
     (if name = [] \<or> length name > max_name_size then False
      else if name \<in> set reserved_labels then False
      else list_all (\<lambda>(index, byte). name_byte_ok (length name) index byte) (enumerate 0 name))"

definition hash_name :: "(bytes \<Rightarrow> bytes) \<Rightarrow> bytes \<Rightarrow> primitive_error + bytes" where
  "hash_name S name = (if \<not> verify_name name then Inl InvalidName else Inr (S name))"

definition valid_name_hash :: "(bytes \<Rightarrow> bytes) \<Rightarrow> bytes \<Rightarrow> bytes \<Rightarrow> bool" where
  "valid_name_hash S hash name =
     (case from_utf8 name of
        None \<Rightarrow> False
      | Some name \<Rightarrow> (case hash_name S name of Inr expected \<Rightarrow> expected = hash | Inl _ \<Rightarrow> False))"

lemma name_byte_ok_ascii: "name_byte_ok len index byte \<Longrightarrow> byte < 0x80"
  by (auto simp: name_byte_ok_def split: if_splits intro: le_less_trans)

lemma verify_name_ascii:
  assumes "verify_name name" and "b \<in> set name"
  shows "b < 0x80"
proof -
  obtain i where "i < length name" "b = name ! i" using assms(2) by (auto simp: in_set_conv_nth)
  with assms(1) have "name_byte_ok (length name) i b"
    by (auto simp: verify_name_def list_all_length nth_enumerate_eq split: if_splits)
  then show ?thesis by (rule name_byte_ok_ascii)
qed

lemma valid_name_hash_iff: "valid_name_hash S hash name \<longleftrightarrow> verify_name name \<and> S name = hash"
  using ascii_utf8_valid verify_name_ascii [of name]
  by (auto simp: valid_name_hash_def from_utf8_def hash_name_def)

subsection \<open>The name state\<close>

record name_state =
  ns_name_hash :: bytes
  ns_name :: bytes
  ns_height :: u32
  ns_renewal :: u32
  ns_owner :: outpoint
  ns_value :: u64
  ns_highest :: u64
  ns_data :: bytes
  ns_transfer :: u32
  ns_revoked :: u32
  ns_claimed :: u32
  ns_renewals :: u32
  ns_registered :: bool
  ns_expired :: bool
  ns_weak :: bool

definition name_state_null :: "bytes \<Rightarrow> name_state" where
  "name_state_null name_hash =
     \<lparr>ns_name_hash = name_hash, ns_name = [], ns_height = 0, ns_renewal = 0, ns_owner = outpoint_null,
      ns_value = 0, ns_highest = 0, ns_data = [], ns_transfer = 0, ns_revoked = 0, ns_claimed = 0,
      ns_renewals = 0, ns_registered = False, ns_expired = False, ns_weak = False\<rparr>"

definition name_state_is_null :: "name_state \<Rightarrow> bool" where
  "name_state_is_null s \<longleftrightarrow> ns_height s = 0 \<and> ns_renewal s = 0 \<and> outpoint_is_null (ns_owner s) \<and>
     ns_value s = 0 \<and> ns_highest s = 0 \<and> ns_data s = [] \<and> ns_transfer s = 0 \<and> ns_revoked s = 0 \<and>
     ns_claimed s = 0 \<and> ns_renewals s = 0 \<and> \<not> ns_registered s \<and> \<not> ns_expired s \<and> \<not> ns_weak s"

definition name_state_reset :: "u32 \<Rightarrow> name_state \<Rightarrow> name_state" where
  "name_state_reset height s =
     s\<lparr>ns_height := height, ns_renewal := height, ns_owner := outpoint_null, ns_value := 0,
       ns_highest := 0, ns_data := [], ns_transfer := 0, ns_revoked := 0, ns_claimed := 0,
       ns_renewals := 0, ns_registered := False, ns_expired := False, ns_weak := False\<rparr>"

definition name_state_initialize :: "bytes \<Rightarrow> u32 \<Rightarrow> name_state \<Rightarrow> name_state" where
  "name_state_initialize name height s = name_state_reset height (s\<lparr>ns_name := name\<rparr>)"

text \<open>The lifecycle states are ordered as they are declared.\<close>

datatype name_lifecycle_state = LcOpening | LcLocked | LcBidding | LcReveal | LcClosed | LcRevoked

fun lifecycle_rank :: "name_lifecycle_state \<Rightarrow> nat" where
  "lifecycle_rank LcOpening = 0"
| "lifecycle_rank LcLocked = 1"
| "lifecycle_rank LcBidding = 2"
| "lifecycle_rank LcReveal = 3"
| "lifecycle_rank LcClosed = 4"
| "lifecycle_rank LcRevoked = 5"

lemma lifecycle_rank_inject: "lifecycle_rank a = lifecycle_rank b \<Longrightarrow> a = b"
  by (cases a; cases b) simp_all

instantiation name_lifecycle_state :: linorder
begin

definition less_eq_name_lifecycle_state :: "name_lifecycle_state \<Rightarrow> name_lifecycle_state \<Rightarrow> bool" where
  "less_eq_name_lifecycle_state a b \<longleftrightarrow> lifecycle_rank a \<le> lifecycle_rank b"

definition less_name_lifecycle_state :: "name_lifecycle_state \<Rightarrow> name_lifecycle_state \<Rightarrow> bool" where
  "less_name_lifecycle_state a b \<longleftrightarrow> lifecycle_rank a < lifecycle_rank b"

instance
  by standard
    (auto simp: less_eq_name_lifecycle_state_def less_name_lifecycle_state_def intro: lifecycle_rank_inject)

end

end
