(* ===== verification/Tx_Rules.thy ===== *)
theory Tx_Rules
  imports Names Deployment
begin

unbundle bit_operations_syntax

text \<open>
  The context-free rules for transactions in \<^verbatim>\<open>crates/hns-consensus/src/lib.rs\<close>: sanity, coinbase
  sanity, the structure of covenants, the count of name operations, and finality.
\<close>

subsection \<open>Limits\<close>

definition max_block_base_size :: nat where "max_block_base_size = 1000000"
definition max_block_opens :: u32 where "max_block_opens = 300"
definition max_block_updates :: u32 where "max_block_updates = 600"
definition max_block_renewals :: u32 where "max_block_renewals = 600"
definition max_covenant_size :: nat where "max_covenant_size = 585"
definition max_tx_weight :: nat where "max_tx_weight = max_block_weight"
definition max_coinbase_witness_size :: nat where "max_coinbase_witness_size = 1000"
definition max_coinbase_claim_witness_item_size :: nat where
  "max_coinbase_claim_witness_item_size = 10000"
definition locktime_flag :: u32 where "locktime_flag = push_bit 31 1"
definition locktime_mask :: u32 where "locktime_mask = locktime_flag - 1"

lemmas tx_limits = max_block_base_size_def max_block_opens_def max_block_updates_def
  max_block_renewals_def max_covenant_size_def max_tx_weight_def max_coinbase_witness_size_def
  max_coinbase_claim_witness_item_size_def

subsection \<open>Coinbase\<close>

definition is_null_outpoint :: "outpoint \<Rightarrow> bool" where
  "is_null_outpoint p \<longleftrightarrow> op_txid p = zero_hash \<and> op_index p = - 1"

definition is_coinbase :: "transaction \<Rightarrow> bool" where
  "is_coinbase tx =
     (case get (tx_inputs tx) 0 of Some i \<Rightarrow> is_null_outpoint (in_prevout i) | None \<Rightarrow> False)"

definition claim_input_check :: "txin \<Rightarrow> consensus_error + unit" where
  "claim_input_check i =
     (if \<not> is_null_outpoint (in_prevout i)
      then Inl (InvalidTransaction ''coinbase claim input is not null'')
      else if length (in_witness i) \<noteq> 1
      then Inl (InvalidTransaction ''coinbase claim input must have one witness item'')
      else if length (in_witness i ! 0) > max_coinbase_claim_witness_item_size
      then Inl (InvalidTransaction ''coinbase claim witness item exceeds limit'')
      else Inr ())"

definition validate_coinbase_sanity :: "transaction \<Rightarrow> consensus_error + unit" where
  "validate_coinbase_sanity tx =
     (if witness_size (in_witness (tx_inputs tx ! 0)) > max_coinbase_witness_size
      then Inl (InvalidTransaction ''coinbase witness exceeds limit'')
      else fold_res (\<lambda>i _. claim_input_check i) (drop 1 (tx_inputs tx)) ())"

subsection \<open>Covenant structure\<close>

definition item_lengths :: "bytes list \<Rightarrow> nat list \<Rightarrow> bool" where
  "item_lengths items expected \<longleftrightarrow> length items = length expected \<and>
     list_all (\<lambda>(item, len). len = usize_max \<or> length item = len) (zip items expected)"

definition item_u32 :: "bytes list \<Rightarrow> nat \<Rightarrow> u32 option" where
  "item_u32 items index =
     Option.bind (get items index) (\<lambda>item. if length item = 4 then Some (from_le_bytes item) else None)"

definition sane_coinbase_output :: "(bytes \<Rightarrow> bytes) \<Rightarrow> transaction \<Rightarrow> nat \<Rightarrow> txout \<Rightarrow> bool" where
  "sane_coinbase_output S tx index out =
     (let items = cov_items (out_covenant out) in
      case cov_kind (out_covenant out) of
        CovNone \<Rightarrow> items = []
      | CovClaim \<Rightarrow> \<not> (index = 0 \<or> index \<ge> length (tx_inputs tx) \<or>
          length (in_witness (tx_inputs tx ! index)) \<noteq> 1 \<or>
          \<not> item_lengths items [32, 4, usize_max, 1, 32, 4] \<or>
          \<not> valid_name_hash S (items ! 0) (items ! 2))
      | _ \<Rightarrow> False)"

definition sane_output :: "(bytes \<Rightarrow> bytes) \<Rightarrow> transaction \<Rightarrow> nat \<Rightarrow> txout \<Rightarrow> bool" where
  "sane_output S tx index out =
     (let items = cov_items (out_covenant out); linked = index < length (tx_inputs tx) in
      case cov_kind (out_covenant out) of
        CovNone \<Rightarrow> items = []
      | CovClaim \<Rightarrow> False
      | CovOpen \<Rightarrow> item_lengths items [32, 4, usize_max] \<and> item_u32 items 1 = Some 0 \<and>
          valid_name_hash S (items ! 0) (items ! 2)
      | CovBid \<Rightarrow> item_lengths items [32, 4, usize_max, 32] \<and> valid_name_hash S (items ! 0) (items ! 2)
      | CovReveal \<Rightarrow> linked \<and> item_lengths items [32, 4, 32]
      | CovRedeem \<Rightarrow> linked \<and> item_lengths items [32, 4]
      | CovRegister \<Rightarrow> linked \<and> item_lengths items [32, 4, usize_max, 32] \<and>
          length (items ! 2) \<le> max_resource_size
      | CovUpdate \<Rightarrow> linked \<and> item_lengths items [32, 4, usize_max] \<and> length (items ! 2) \<le> max_resource_size
      | CovRenew \<Rightarrow> linked \<and> item_lengths items [32, 4, 32]
      | CovTransfer \<Rightarrow> linked \<and> item_lengths items [32, 4, 1, usize_max] \<and> items ! 2 ! 0 \<le> 31 \<and>
          2 \<le> length (items ! 3) \<and> length (items ! 3) \<le> 40
      | CovFinalize \<Rightarrow> linked \<and> item_lengths items [32, 4, usize_max, 1, 4, 4, 32] \<and>
          valid_name_hash S (items ! 0) (items ! 2)
      | CovRevoke \<Rightarrow> linked \<and> item_lengths items [32, 4]
      | CovUnknown _ \<Rightarrow> length items \<le> max_script_stack \<and>
          length (covenant_encode (out_covenant out)) \<le> max_covenant_size)"

definition has_sane_covenants :: "(bytes \<Rightarrow> bytes) \<Rightarrow> transaction \<Rightarrow> bool" where
  "has_sane_covenants S tx =
     (if is_coinbase tx then
        if length (tx_inputs tx) > length (tx_outputs tx) then False
        else list_all (\<lambda>(index, out). sane_coinbase_output S tx index out) (enumerate 0 (tx_outputs tx))
      else list_all (\<lambda>(index, out). sane_output S tx index out) (enumerate 0 (tx_outputs tx)))"

subsection \<open>Name operations\<close>

record name_operation_counts =
  noc_opens :: u32
  noc_updates :: u32
  noc_renewals :: u32

definition count_name_operation :: "txout \<Rightarrow> name_operation_counts \<Rightarrow> name_operation_counts" where
  "count_name_operation out c =
     (case cov_kind (out_covenant out) of
        CovOpen \<Rightarrow> c\<lparr>noc_opens := sat_add (noc_opens c) 1, noc_updates := sat_add (noc_updates c) 1\<rparr>
      | CovClaim \<Rightarrow> c\<lparr>noc_updates := sat_add (noc_updates c) 1\<rparr>
      | CovUpdate \<Rightarrow> c\<lparr>noc_updates := sat_add (noc_updates c) 1\<rparr>
      | CovTransfer \<Rightarrow> c\<lparr>noc_updates := sat_add (noc_updates c) 1\<rparr>
      | CovRevoke \<Rightarrow> c\<lparr>noc_updates := sat_add (noc_updates c) 1\<rparr>
      | CovRegister \<Rightarrow> c\<lparr>noc_renewals := sat_add (noc_renewals c) 1\<rparr>
      | CovRenew \<Rightarrow> c\<lparr>noc_renewals := sat_add (noc_renewals c) 1\<rparr>
      | CovFinalize \<Rightarrow> c\<lparr>noc_renewals := sat_add (noc_renewals c) 1\<rparr>
      | _ \<Rightarrow> c)"

definition count_name_operations :: "transaction \<Rightarrow> name_operation_counts" where
  "count_name_operations tx =
     fold count_name_operation (tx_outputs tx) \<lparr>noc_opens = 0, noc_updates = 0, noc_renewals = 0\<rparr>"

subsection \<open>Sanity\<close>

definition output_value_step :: "txout \<Rightarrow> u64 \<Rightarrow> consensus_error + u64" where
  "output_value_step out total_output =
     and_then (map_sum (\<lambda>_. InvalidTransaction ''transaction output address invalid'') id
       (address_validate (out_address out))) (\<lambda>_.
     and_then (ok_or (checked_add total_output (out_value out))
       (InvalidTransaction ''transaction output value overflow'')) (\<lambda>total_output.
     if total_output > max_money
     then Inl (InvalidTransaction ''transaction output value exceeds max money'')
     else Inr total_output))"

definition input_step :: "txin \<Rightarrow> outpoint set \<Rightarrow> consensus_error + outpoint set" where
  "input_step i inputs =
     (if is_null_outpoint (in_prevout i)
      then Inl (InvalidTransaction ''non-coinbase spends null outpoint'')
      else if in_prevout i \<in> inputs
      then Inl (InvalidTransaction ''transaction contains duplicate inputs'')
      else Inr (insert (in_prevout i) inputs))"

definition validate_transaction_sanity :: "(bytes \<Rightarrow> bytes) \<Rightarrow> transaction \<Rightarrow> consensus_error + unit" where
  "validate_transaction_sanity S tx =
     (if tx_inputs tx = [] then Inl (InvalidTransaction ''transaction has no inputs'')
      else if tx_outputs tx = [] then Inl (InvalidTransaction ''transaction has no outputs'')
      else if tx_base_size tx > max_tx_size
      then Inl (InvalidTransaction ''transaction base size exceeds limit'')
      else if transaction_weight tx > max_tx_weight
      then Inl (InvalidTransaction ''transaction weight exceeds limit'')
      else
        let name_operations = count_name_operations tx in
        if noc_opens name_operations > max_block_opens
        then Inl (InvalidTransaction ''transaction open limit exceeded'')
        else if noc_updates name_operations > max_block_updates
        then Inl (InvalidTransaction ''transaction update limit exceeded'')
        else if noc_renewals name_operations > max_block_renewals
        then Inl (InvalidTransaction ''transaction renewal limit exceeded'')
        else
          and_then (fold_res output_value_step (tx_outputs tx) 0) (\<lambda>_.
          and_then
            (if is_coinbase tx then validate_coinbase_sanity tx
             else map_sum id (\<lambda>_. ()) (fold_res input_step (tx_inputs tx) {})) (\<lambda>_.
          if \<not> has_sane_covenants S tx
          then Inl (InvalidTransaction ''transaction covenants are structurally invalid'')
          else Inr ())))"

subsection \<open>Finality\<close>

definition is_final_transaction :: "transaction \<Rightarrow> u32 \<Rightarrow> u64 \<Rightarrow> bool" where
  "is_final_transaction tx block_height median_time_past =
     (if tx_locktime tx = 0 then True
      else
        let lock_value = tx_locktime tx AND locktime_mask;
            threshold = (if tx_locktime tx AND locktime_flag \<noteq> 0 then median_time_past
                         else ucast block_height)
        in if ucast lock_value < threshold then True
           else list_all (\<lambda>i. in_sequence i = - 1) (tx_inputs tx))"


subsection \<open>What sanity means\<close>

definition kind_count :: "covenant_kind set \<Rightarrow> transaction \<Rightarrow> nat" where
  "kind_count K tx = length (filter (\<lambda>out. cov_kind (out_covenant out) \<in> K) (tx_outputs tx))"

definition open_kinds :: "covenant_kind set" where "open_kinds = {CovOpen}"
definition update_kinds :: "covenant_kind set" where
  "update_kinds = {CovOpen, CovClaim, CovUpdate, CovTransfer, CovRevoke}"
definition renewal_kinds :: "covenant_kind set" where
  "renewal_kinds = {CovRegister, CovRenew, CovFinalize}"

definition total_value :: "transaction \<Rightarrow> nat" where
  "total_value tx = (\<Sum>out \<leftarrow> tx_outputs tx. unat (out_value out))"

definition tx_sane :: "(bytes \<Rightarrow> bytes) \<Rightarrow> transaction \<Rightarrow> bool" where
  "tx_sane S tx \<longleftrightarrow> tx_inputs tx \<noteq> [] \<and> tx_outputs tx \<noteq> [] \<and>
     tx_base_size tx \<le> 1000000 \<and> 4 * tx_base_size tx + tx_witness_size tx \<le> 4000000 \<and>
     kind_count open_kinds tx \<le> 300 \<and> kind_count update_kinds tx \<le> 600 \<and>
     kind_count renewal_kinds tx \<le> 600 \<and>
     (\<forall>out \<in> set (tx_outputs tx). address_ok (out_address out)) \<and>
     total_value tx \<le> unat max_money \<and>
     (if is_coinbase tx
      then witness_size (in_witness (hd (tx_inputs tx))) \<le> 1000 \<and>
        (\<forall>i \<in> set (tl (tx_inputs tx)). in_prevout i = outpoint_null \<and>
           (\<exists>item. in_witness i = [item] \<and> length item \<le> 10000))
      else distinct (map in_prevout (tx_inputs tx)) \<and> outpoint_null \<notin> in_prevout ` set (tx_inputs tx)) \<and>
     has_sane_covenants S tx"

lemma is_null_outpoint_iff: "is_null_outpoint p \<longleftrightarrow> p = outpoint_null"
  by (cases p) (auto simp: is_null_outpoint_def outpoint_null_def)

lemma unat_checked_add: "checked_add a b = Some c \<longleftrightarrow> unat a + unat b < 2 ^ LENGTH('a) \<and> unat c = unat a + unat b"
  for a b c :: "'a::len word"
  by (auto simp: checked_add_def unat_word_ariths word_unat_eq_iff)

lemma output_value_step_eq_Inr:
  "output_value_step out t = Inr t' \<longleftrightarrow> address_ok (out_address out) \<and> unat t' = unat t + unat (out_value out) \<and>
     unat t' \<le> unat max_money"
proof -
  have "unat max_money < 2 ^ 64" by (simp add: money_defs)
  then show ?thesis
    by (auto simp: output_value_step_def and_then_eq_Inr map_sum_eq_Inr unat_checked_add address_ok_def
        word_le_nat_alt not_less split: if_splits)
qed

lemma output_values_accepted:
  "unat t \<le> unat max_money \<Longrightarrow> (\<exists>t'. fold_res output_value_step outs t = Inr t') \<longleftrightarrow>
     (\<forall>out \<in> set outs. address_ok (out_address out)) \<and>
     unat t + (\<Sum>out \<leftarrow> outs. unat (out_value out)) \<le> unat max_money"
proof (induction outs arbitrary: t)
  case (Cons out outs)
  have lim: "unat max_money < 2 ^ 64" by (simp add: money_defs)
  show ?case
  proof (cases "address_ok (out_address out) \<and> unat t + unat (out_value out) \<le> unat max_money")
    case True
    define u where "u = t + out_value out"
    have u: "unat u = unat t + unat (out_value out)"
      using True lim by (simp add: u_def unat_word_ariths)
    then have "output_value_step out t = Inr u"
      using True by (simp add: output_value_step_eq_Inr)
    with Cons.IH [of u] u True show ?thesis by (simp add: add.assoc)
  next
    case False
    then have "\<nexists>t'. output_value_step out t = Inr t'" by (auto simp: output_value_step_eq_Inr)
    then have "\<nexists>t'. fold_res output_value_step (out # outs) t = Inr t'" by (auto simp: and_then_eq_Inr)
    with False show ?thesis by auto
  qed
qed simp

lemma inputs_accepted:
  "(\<exists>s'. fold_res input_step is s = Inr s') \<longleftrightarrow> distinct (map in_prevout is) \<and>
     outpoint_null \<notin> in_prevout ` set is \<and> in_prevout ` set is \<inter> s = {}"
proof (induction "is" arbitrary: s)
  case (Cons i "is")
  then show ?case
    by (auto simp: input_step_def is_null_outpoint_iff and_then_eq_Inr)
qed simp

lemma claim_input_check_iff:
  "claim_input_check i = Inr u \<longleftrightarrow> in_prevout i = outpoint_null \<and>
     (\<exists>item. in_witness i = [item] \<and> length item \<le> 10000)"
  by (auto simp: claim_input_check_def is_null_outpoint_iff tx_limits length_Suc_conv split: if_splits)

lemma fold_res_check: "fold_res (\<lambda>x _. f x) xs () = Inr u \<longleftrightarrow> (\<forall>x \<in> set xs. f x = Inr ())"
  by (induction xs) (auto simp: and_then_eq_Inr)

lemma coinbase_sanity_iff:
  "tx_inputs tx \<noteq> [] \<Longrightarrow> validate_coinbase_sanity tx = Inr u \<longleftrightarrow>
     witness_size (in_witness (hd (tx_inputs tx))) \<le> 1000 \<and>
     (\<forall>i \<in> set (tl (tx_inputs tx)). in_prevout i = outpoint_null \<and>
        (\<exists>item. in_witness i = [item] \<and> length item \<le> 10000))"
  by (auto simp: validate_coinbase_sanity_def fold_res_check claim_input_check_iff tx_limits hd_conv_nth
      drop_Suc not_less)

definition counts_ok :: "name_operation_counts \<Rightarrow> txout list \<Rightarrow> bool" where
  "counts_ok c outs \<longleftrightarrow>
     unat (noc_opens c) = min (length (filter (\<lambda>out. cov_kind (out_covenant out) \<in> open_kinds) outs)) (2 ^ 32 - 1) \<and>
     unat (noc_updates c) = min (length (filter (\<lambda>out. cov_kind (out_covenant out) \<in> update_kinds) outs)) (2 ^ 32 - 1) \<and>
     unat (noc_renewals c) = min (length (filter (\<lambda>out. cov_kind (out_covenant out) \<in> renewal_kinds) outs)) (2 ^ 32 - 1)"

lemma count_step: "counts_ok c outs \<Longrightarrow> counts_ok (count_name_operation out c) (outs @ [out])"
  by (cases "cov_kind (out_covenant out)")
    (auto simp: counts_ok_def count_name_operation_def unat_sat_add open_kinds_def update_kinds_def
      renewal_kinds_def)

lemma counts_fold: "counts_ok c done \<Longrightarrow> counts_ok (fold count_name_operation outs c) (done @ outs)"
  by (induction outs arbitrary: c "done") (use count_step in fastforce)+


lemma name_counts_accepted:
  "\<not> noc_opens (count_name_operations tx) > max_block_opens \<longleftrightarrow> kind_count open_kinds tx \<le> 300"
  "\<not> noc_updates (count_name_operations tx) > max_block_updates \<longleftrightarrow> kind_count update_kinds tx \<le> 600"
  "\<not> noc_renewals (count_name_operations tx) > max_block_renewals \<longleftrightarrow> kind_count renewal_kinds tx \<le> 600"
proof -
  have "counts_ok \<lparr>noc_opens = 0, noc_updates = 0, noc_renewals = 0\<rparr> []" by (simp add: counts_ok_def)
  from counts_fold [OF this, of "tx_outputs tx"] have "counts_ok (count_name_operations tx) (tx_outputs tx)"
    by (simp add: count_name_operations_def)
  then show "\<not> noc_opens (count_name_operations tx) > max_block_opens \<longleftrightarrow> kind_count open_kinds tx \<le> 300"
    "\<not> noc_updates (count_name_operations tx) > max_block_updates \<longleftrightarrow> kind_count update_kinds tx \<le> 600"
    "\<not> noc_renewals (count_name_operations tx) > max_block_renewals \<longleftrightarrow> kind_count renewal_kinds tx \<le> 600"
    by (auto simp: counts_ok_def kind_count_def word_less_nat_alt tx_limits)
qed

lemma weight_accepted:
  "\<not> transaction_weight tx > max_tx_weight \<longleftrightarrow> 4 * tx_base_size tx + tx_witness_size tx \<le> 4000000"
  by (auto simp: transaction_weight_def usize_sat_add_def usize_sat_mul_def witness_scale_factor_def
      usize_max_def tx_limits wire_limits)

lemma sanity_accepted: "validate_transaction_sanity S tx = Inr () \<longleftrightarrow> tx_sane S tx"
proof -
  have vals: "(\<exists>t. fold_res output_value_step (tx_outputs tx) 0 = Inr t) \<longleftrightarrow>
      (\<forall>out \<in> set (tx_outputs tx). address_ok (out_address out)) \<and> total_value tx \<le> unat max_money"
    using output_values_accepted [of 0 "tx_outputs tx"] by (simp add: total_value_def)
  have inputs: "(\<exists>s. fold_res input_step (tx_inputs tx) {} = Inr s) \<longleftrightarrow>
      distinct (map in_prevout (tx_inputs tx)) \<and> outpoint_null \<notin> in_prevout ` set (tx_inputs tx)"
    by (simp add: inputs_accepted)
  show ?thesis
    unfolding validate_transaction_sanity_def tx_sane_def Let_def
    using vals inputs coinbase_sanity_iff [of tx "()"] name_counts_accepted [of tx] weight_accepted [of tx]
    by (auto simp: and_then_eq_Inr map_sum_eq_Inr wire_limits not_less split: if_splits)
qed

text \<open>
  C7: transaction sanity accepts exactly the transactions with inputs and outputs, base size and
  weight within the limits, at most 300 opens, 600 updates and 600 renewals, valid output
  addresses, output values whose exact sum is at most \<^verbatim>\<open>MAX_MONEY\<close>, and sane covenants; a coinbase
  has a small first witness and null claim inputs with one witness item each, and any other
  transaction spends distinct outpoints, none of them null.
\<close>

theorem transaction_sanity_exact:
  "validate_transaction_sanity S tx = Inr () \<longleftrightarrow> tx_sane S tx"
  by (rule sanity_accepted)

subsection \<open>Finality\<close>

lemma unat_locktime_mask: "unat (x AND locktime_mask) = unat x mod 2 ^ 31" for x :: u32
  using unat_and_mask [of x 31] by (simp add: locktime_mask_def locktime_flag_def mask_eq_exp_minus_1)

lemma is_final_iff:
  "is_final_transaction tx h m \<longleftrightarrow> tx_locktime tx = 0 \<or>
     unat (tx_locktime tx) mod 2 ^ 31 < (if bit (tx_locktime tx) 31 then unat m else unat h) \<or>
     (\<forall>i \<in> set (tx_inputs tx). in_sequence i = - 1)"
proof -
  have "tx_locktime tx AND locktime_flag \<noteq> 0 \<longleftrightarrow> bit (tx_locktime tx) 31"
    by (simp only: locktime_flag_def push_bit_of_1 and_exp_eq_0_iff_not_bit not_not)
  then show ?thesis
    by (auto simp: is_final_transaction_def Let_def word_less_nat_alt unat_locktime_mask list_all_iff)
qed

text \<open>A transaction that is final stays final for later heights and later times.\<close>

lemma is_final_mono:
  assumes "h \<le> h'" and "m \<le> m'" and "is_final_transaction tx h m"
  shows "is_final_transaction tx h' m'"
  using assms by (auto simp: is_final_iff word_le_nat_alt split: if_splits)

end
