(* ===== verification/Block_Rules.thy ===== *)
theory Block_Rules
  imports Tx_Rules
begin

unbundle bit_operations_syntax

text \<open>
  The rules for headers and blocks in \<^verbatim>\<open>crates/hns-consensus/src/lib.rs\<close>: header validation against
  its context, the stages of block validation (body sanity, name limits, commitments) and their
  composition, the restriction before the start of transactions, finality, and the coinbase height.
\<close>

subsection \<open>Headers\<close>

record header_parent =
  hp_hash :: bytes
  hp_height :: u32
  hp_bits :: u32
  hp_chainwork :: uint256

record header_validation_context =
  hvc_height :: u32
  hvc_previous :: "header_parent option"
  hvc_enforce_checkpoints :: bool
  hvc_expected_bits :: "u32 option"
  hvc_median_time_past :: "u64 option"
  hvc_maximum_time :: "u64 option"
  hvc_require_pow :: bool

definition validate_linkage ::
  "(bytes \<Rightarrow> bytes) \<Rightarrow> (bytes \<Rightarrow> bytes) \<Rightarrow> (bytes \<Rightarrow> bytes) \<Rightarrow> network \<Rightarrow> header \<Rightarrow> header_validation_context \<Rightarrow>
   consensus_error + unit" where
  "validate_linkage H H512 S n header context =
     (if hvc_height context = 0 then
        if header \<noteq> genesis_header (params n) \<or> header_hash H H512 S header \<noteq> np_genesis_hash (params n)
        then Inl (InvalidHeader ''genesis header does not match the selected HNS network'')
        else Inr ()
      else
        and_then (ok_or (hvc_previous context) (InvalidHeader ''missing previous header'')) (\<lambda>previous.
        if checked_add (hp_height previous) 1 \<noteq> Some (hvc_height context)
        then Inl (InvalidHeader ''previous header height is not contiguous'')
        else if hdr_prev_block header \<noteq> hp_hash previous
        then Inl (InvalidHeader ''previous header hash mismatch'')
        else Inr ()))"

definition validate_header ::
  "(bytes \<Rightarrow> bytes) \<Rightarrow> (bytes \<Rightarrow> bytes) \<Rightarrow> (bytes \<Rightarrow> bytes) \<Rightarrow> network \<Rightarrow> header \<Rightarrow> header_validation_context \<Rightarrow>
   consensus_error + unit" where
  "validate_header H H512 S n header context =
     and_then (validate_linkage H H512 S n header context) (\<lambda>_.
     if \<not> verify_checkpoint n (hvc_enforce_checkpoints context) (hvc_height context)
          (header_hash H H512 S header)
     then Inl (InvalidHeader ''checkpoint mismatch'')
     else if (case hvc_expected_bits context of Some bits \<Rightarrow> hdr_bits header \<noteq> bits | None \<Rightarrow> False)
     then Inl (InvalidHeader ''unexpected difficulty bits'')
     else if (case hvc_median_time_past context of Some median \<Rightarrow> hdr_time header \<le> median | None \<Rightarrow> False)
     then Inl (InvalidHeader ''header time is not above median time past'')
     else if (case hvc_maximum_time context of Some maximum \<Rightarrow> hdr_time header > maximum | None \<Rightarrow> False)
     then Inl (InvalidHeader ''header time is too far in the future'')
     else if hvc_require_pow context \<and> \<not> verify_pow H H512 S header
     then Inl (InvalidHeader ''proof of work failed'')
     else Inr ())"

subsection \<open>Blocks\<close>

record block_validation =
  bv_base_size :: nat
  bv_witness_size :: nat
  bv_weight :: nat
  bv_merkle_root :: bytes
  bv_witness_root :: bytes

definition body_transaction_check :: "(bytes \<Rightarrow> bytes) \<Rightarrow> nat \<times> transaction \<Rightarrow> consensus_error + unit" where
  "body_transaction_check S entry =
     (let (index, tx) = entry in
      and_then (validate_transaction_sanity S tx) (\<lambda>_.
      if index \<noteq> 0 \<and> is_coinbase tx
      then Inl (InvalidBlock ''block contains multiple coinbase transactions'')
      else Inr ()))"

definition validate_block_body_sanity :: "(bytes \<Rightarrow> bytes) \<Rightarrow> block \<Rightarrow> consensus_error + unit" where
  "validate_block_body_sanity S b =
     (if blk_transactions b = [] then Inl (InvalidBlock ''block has no transactions'')
      else if length (blk_transactions b) > max_block_base_size
      then Inl (InvalidBlock ''block has too many transactions'')
      else if block_base_size b > max_block_base_size
      then Inl (InvalidBlock ''block base size exceeds limit'')
      else if block_weight b > max_block_weight
      then Inl (InvalidBlock ''block weight exceeds limit'')
      else if \<not> is_coinbase (blk_transactions b ! 0)
      then Inl (InvalidBlock ''first transaction is not coinbase'')
      else fold_res (\<lambda>entry _. body_transaction_check S entry) (enumerate 0 (blk_transactions b)) ())"

definition validate_block_commitments :: "(bytes \<Rightarrow> bytes) \<Rightarrow> block \<Rightarrow> consensus_error + block_validation" where
  "validate_block_commitments H b =
     (let merkle_root = block_merkle_root H b in
      if hdr_merkle_root (blk_header b) \<noteq> merkle_root then Inl (InvalidBlock ''merkle root mismatch'')
      else
        let witness_root = block_witness_root H b in
        if hdr_witness_root (blk_header b) \<noteq> witness_root then Inl (InvalidBlock ''witness root mismatch'')
        else Inr \<lparr>bv_base_size = block_base_size b, bv_witness_size = block_witness_size b,
          bv_weight = block_weight b, bv_merkle_root = merkle_root, bv_witness_root = witness_root\<rparr>)"

fun kind_is_exclusive :: "covenant_kind \<Rightarrow> bool" where
  "kind_is_exclusive CovClaim = True"
| "kind_is_exclusive CovOpen = True"
| "kind_is_exclusive CovRegister = True"
| "kind_is_exclusive CovUpdate = True"
| "kind_is_exclusive CovRenew = True"
| "kind_is_exclusive CovTransfer = True"
| "kind_is_exclusive CovFinalize = True"
| "kind_is_exclusive CovRevoke = True"
| "kind_is_exclusive _ = False"

definition exclusive_step ::
  "bytes set \<Rightarrow> txout \<Rightarrow> bytes set \<Rightarrow> consensus_error + bytes set" where
  "exclusive_step exclusive_names out transaction_names =
     (if kind_is_exclusive (cov_kind (out_covenant out)) then
        and_then (ok_or (Option.bind (cov_item (out_covenant out) 0)
          (\<lambda>item. if length item = 32 then Some item else None))
          (InvalidBlock ''name covenant hash has invalid length'')) (\<lambda>name_hash.
        if name_hash \<in> exclusive_names
        then Inl (InvalidBlock ''block contains duplicate exclusive name updates'')
        else Inr (insert name_hash transaction_names))
      else Inr transaction_names)"

record block_limits_state =
  bls_opens :: u32
  bls_updates :: u32
  bls_renewals :: u32
  bls_exclusive :: "bytes set"

definition block_limits_step :: "transaction \<Rightarrow> block_limits_state \<Rightarrow> consensus_error + block_limits_state" where
  "block_limits_step tx s =
     (let ops = count_name_operations tx in
      and_then (fold_res (exclusive_step (bls_exclusive s)) (tx_outputs tx) {}) (\<lambda>names.
      Inr \<lparr>bls_opens = sat_add (bls_opens s) (noc_opens ops),
           bls_updates = sat_add (bls_updates s) (noc_updates ops),
           bls_renewals = sat_add (bls_renewals s) (noc_renewals ops),
           bls_exclusive = bls_exclusive s \<union> names\<rparr>))"

definition validate_block_covenant_limits :: "block \<Rightarrow> consensus_error + unit" where
  "validate_block_covenant_limits b =
     and_then (fold_res block_limits_step (blk_transactions b)
       \<lparr>bls_opens = 0, bls_updates = 0, bls_renewals = 0, bls_exclusive = {}\<rparr>) (\<lambda>s.
     if bls_opens s > max_block_opens then Inl (InvalidBlock ''block open limit exceeded'')
     else if bls_updates s > max_block_updates then Inl (InvalidBlock ''block update limit exceeded'')
     else if bls_renewals s > max_block_renewals then Inl (InvalidBlock ''block renewal limit exceeded'')
     else Inr ())"

definition validate_block_name_limits :: "block \<Rightarrow> consensus_error + unit" where
  "validate_block_name_limits b = validate_block_covenant_limits b"

definition validate_block_body ::
  "(bytes \<Rightarrow> bytes) \<Rightarrow> (bytes \<Rightarrow> bytes) \<Rightarrow> block \<Rightarrow> consensus_error + block_validation" where
  "validate_block_body H S b =
     and_then (validate_block_body_sanity S b) (\<lambda>_.
     and_then (validate_block_name_limits b) (\<lambda>_.
     and_then (validate_block_commitments H b) (\<lambda>validation.
     if bv_merkle_root validation = zero_hash then Inl (InvalidBlock ''merkle root is zero'')
     else Inr validation)))"

definition validate_transaction_start :: "block \<Rightarrow> u32 \<Rightarrow> network \<Rightarrow> consensus_error + unit" where
  "validate_transaction_start b height n =
     (if height \<ge> np_tx_start (params n) then Inr ()
      else
        and_then (ok_or (get (blk_transactions b) 0) (InvalidBlock ''block has no transactions'')) (\<lambda>coinbase.
        if length (blk_transactions b) \<noteq> 1 \<or> length (tx_outputs coinbase) \<noteq> 1 \<or>
           cov_kind (out_covenant (tx_outputs coinbase ! 0)) \<noteq> CovNone
        then Inl (InvalidBlock ''transactions are not allowed before network tx start'')
        else Inr ()))"

definition validate_block_finality :: "block \<Rightarrow> u32 \<Rightarrow> u64 \<Rightarrow> consensus_error + unit" where
  "validate_block_finality b block_height median_time_past =
     (if list_ex (\<lambda>tx. \<not> is_final_transaction tx block_height median_time_past) (drop 1 (blk_transactions b))
      then Inl (InvalidBlock ''block contains a non-final transaction'')
      else Inr ())"

definition validate_coinbase_height :: "block \<Rightarrow> u32 \<Rightarrow> consensus_error + unit" where
  "validate_coinbase_height b block_height =
     and_then (ok_or (get (blk_transactions b) 0) (InvalidBlock ''block has no coinbase'')) (\<lambda>coinbase.
     if tx_locktime coinbase \<noteq> block_height
     then Inl (InvalidBlock ''coinbase height does not match candidate height'')
     else Inr ())"


subsection \<open>What an accepted block satisfies\<close>

lemma validate_block_body_Inr:
  "validate_block_body H S b = Inr v \<Longrightarrow> validate_block_body_sanity S b = Inr () \<and>
     validate_block_name_limits b = Inr () \<and> hdr_merkle_root (blk_header b) = block_merkle_root H b \<and>
     hdr_witness_root (blk_header b) = block_witness_root H b"
  by (auto simp: validate_block_body_def validate_block_commitments_def and_then_eq_Inr Let_def split: if_splits)

lemma transactions_fit:
  assumes "block_ok b" and "length (block_encode b) \<le> usize_max"
  shows "list_all transaction_fits (blk_transactions b)"
proof -
  have "length (write_transaction tx) \<le> length (block_encode b)" if "tx \<in> set (blk_transactions b)" for tx
  proof -
    have "length (write_transaction tx) \<le> sum_list (map (\<lambda>tx. length (write_transaction tx)) (blk_transactions b))"
      using that by (intro member_le_sum_list) auto
    also have "\<dots> \<le> length (block_encode b)"
      by (simp add: block_encode_def write_block_def length_concat comp_def)
    finally show ?thesis .
  qed
  with assms show ?thesis
    by (fastforce simp: list_all_iff transaction_fits_def block_ok_def)
qed

text \<open>
  C1: a header has at most one block.  If two byte strings decode to blocks with the same header
  and both blocks pass body validation, then the byte strings are equal, witnesses included, or two
  strings hashed for the two blocks collide under BLAKE2b.
\<close>

theorem header_determines_block:
  assumes "\<And>x. length (H x) = 32"
    and "block_decode raw = Inr b" and "validate_block_body H S b = Inr v"
    and "block_decode raw' = Inr c" and "validate_block_body H S c = Inr v'"
    and "blk_header b = blk_header c"
  shows "raw = raw' \<or> collision H (block_hash_inputs H b) (block_hash_inputs H c)"
proof -
  have raw: "raw = block_encode b" "raw' = block_encode c" and ok: "block_ok b" "block_ok c"
    and len: "length (block_encode b) \<le> usize_max" "length (block_encode c) \<le> usize_max"
    using assms(2,4) by (auto simp: block_decode_iff wire_usize)
  have "block_witness_root H b = block_witness_root H c"
    using validate_block_body_Inr [OF assms(3)] validate_block_body_Inr [OF assms(5)] assms(6) by metis
  from witness_root_inj [OF assms(1) transactions_fit [OF ok(1) len(1)] transactions_fit [OF ok(2) len(2)] this]
  have "blk_transactions b = blk_transactions c \<or> collision H (block_hash_inputs H b) (block_hash_inputs H c)" .
  moreover have "b = c" if "blk_transactions b = blk_transactions c"
    using that assms(6) by (cases b; cases c) simp
  ultimately show ?thesis using raw by auto
qed


text \<open>
  Under a function with a single value two blocks with different coinbase sequences share a
  header; the theorem then yields the collision.
\<close>

definition one_hash :: "bytes \<Rightarrow> bytes" where
  "one_hash x = replicate 32 1"

definition example_coinbase :: "u32 \<Rightarrow> transaction" where
  "example_coinbase n =
     \<lparr>tx_version = 0, tx_inputs = [\<lparr>in_prevout = outpoint_null, in_sequence = n, in_witness = []\<rparr>],
      tx_outputs = [\<lparr>out_value = 2000000000, out_address = \<lparr>addr_version = 0, addr_hash = replicate 20 7\<rparr>,
        out_covenant = \<lparr>cov_kind = CovNone, cov_items = []\<rparr>\<rparr>],
      tx_locktime = 1\<rparr>"

definition example_mined :: "u32 \<Rightarrow> block" where
  "example_mined n =
     \<lparr>blk_header = header_default\<lparr>hdr_merkle_root := replicate 32 1, hdr_witness_root := replicate 32 1\<rparr>,
      blk_transactions = [example_coinbase n]\<rparr>"

lemma example_mined_accepted:
  "\<not> isl (validate_block_body one_hash one_hash (example_mined 1))"
  "\<not> isl (validate_block_body one_hash one_hash (example_mined 2))"
  by code_simp+

lemma example_mined_ok:
  "block_ok (example_mined 1)" "length (block_encode (example_mined 1)) \<le> max_block_weight"
  "block_ok (example_mined 2)" "length (block_encode (example_mined 2)) \<le> max_block_weight"
  by code_simp+

theorem header_determines_block_witness:
  "block_encode (example_mined 1) \<noteq> block_encode (example_mined 2) \<and>
   collision one_hash (block_hash_inputs one_hash (example_mined 1)) (block_hash_inputs one_hash (example_mined 2))"
proof -
  have dec: "block_decode (block_encode (example_mined 1)) = Inr (example_mined 1)"
    "block_decode (block_encode (example_mined 2)) = Inr (example_mined 2)"
    using example_mined_ok by (simp_all add: block_decode_iff)
  obtain v where v: "validate_block_body one_hash one_hash (example_mined 1) = Inr v"
    using example_mined_accepted(1) by (cases "validate_block_body one_hash one_hash (example_mined 1)") simp_all
  obtain v' where v': "validate_block_body one_hash one_hash (example_mined 2) = Inr v'"
    using example_mined_accepted(2) by (cases "validate_block_body one_hash one_hash (example_mined 2)") simp_all
  have "example_mined 1 \<noteq> example_mined 2" by (simp add: example_mined_def example_coinbase_def)
  with dec have ne: "block_encode (example_mined 1) \<noteq> block_encode (example_mined 2)" by auto
  have len: "length (one_hash x) = 32" for x by (simp add: one_hash_def)
  have "blk_header (example_mined 1) = blk_header (example_mined 2)" by (simp add: example_mined_def)
  from header_determines_block [OF len dec(1) v dec(2) v' this] ne show ?thesis by blast
qed

subsection \<open>Name limits\<close>

definition exclusive_hashes :: "txout list \<Rightarrow> bytes set" where
  "exclusive_hashes outs =
     {item. \<exists>out \<in> set outs. kind_is_exclusive (cov_kind (out_covenant out)) \<and> cov_item (out_covenant out) 0 = Some item}"

definition exclusive_shape :: "txout list \<Rightarrow> bool" where
  "exclusive_shape outs \<longleftrightarrow> (\<forall>out \<in> set outs. kind_is_exclusive (cov_kind (out_covenant out)) \<longrightarrow>
     (\<exists>item. cov_item (out_covenant out) 0 = Some item \<and> length item = 32))"

lemma exclusive_hashes_simps [simp]:
  "exclusive_hashes [] = {}"
  "exclusive_hashes (out # outs) =
     (if kind_is_exclusive (cov_kind (out_covenant out)) then set_option (cov_item (out_covenant out) 0) else {}) \<union>
     exclusive_hashes outs"
  by (auto simp: exclusive_hashes_def)

lemma exclusive_shape_simps [simp]:
  "exclusive_shape []"
  "exclusive_shape (out # outs) \<longleftrightarrow> (kind_is_exclusive (cov_kind (out_covenant out)) \<longrightarrow>
     (\<exists>item. cov_item (out_covenant out) 0 = Some item \<and> length item = 32)) \<and> exclusive_shape outs"
  by (auto simp: exclusive_shape_def)

lemma exclusive_fold:
  "fold_res (exclusive_step seen) outs names = Inr names' \<longleftrightarrow>
     exclusive_shape outs \<and> exclusive_hashes outs \<inter> seen = {} \<and> names' = names \<union> exclusive_hashes outs"
proof (induction outs arbitrary: names)
  case (Cons out outs)
  then show ?case
    by (cases "cov_item (out_covenant out) 0") (auto simp: exclusive_step_def and_then_eq_Inr)
qed auto

definition limits_ok :: "bytes set \<Rightarrow> transaction list \<Rightarrow> bool" where
  "limits_ok seen txs \<longleftrightarrow> (\<forall>tx \<in> set txs. exclusive_shape (tx_outputs tx) \<and> exclusive_hashes (tx_outputs tx) \<inter> seen = {}) \<and>
     sorted_wrt (\<lambda>a b. exclusive_hashes (tx_outputs a) \<inter> exclusive_hashes (tx_outputs b) = {}) txs"

definition sat32 :: "nat \<Rightarrow> nat" where
  "sat32 n = min n (2 ^ 32 - 1)"

lemma counts_of: "counts_ok (count_name_operations tx) (tx_outputs tx)"
  using counts_fold [of "\<lparr>noc_opens = 0, noc_updates = 0, noc_renewals = 0\<rparr>" "[]" "tx_outputs tx"]
  by (simp add: count_name_operations_def counts_ok_def)

lemma sat32_unat: "sat32 (unat (w :: u32)) = unat w"
  using unat_less_2_32 [of w] by (simp add: sat32_def)

lemma sat32_absorb: "sat32 (sat32 (a + sat32 b) + c) = sat32 (a + (b + c))"
  by (auto simp: sat32_def)

lemma unat_sat_add_32: "unat (sat_add a b) = sat32 (unat a + unat b)" for a b :: u32
  by (simp add: unat_sat_add sat32_def)

lemma block_limits_step_Inr:
  "block_limits_step tx s = Inr s' \<longleftrightarrow> exclusive_shape (tx_outputs tx) \<and>
     exclusive_hashes (tx_outputs tx) \<inter> bls_exclusive s = {} \<and>
     s' = \<lparr>bls_opens = sat_add (bls_opens s) (noc_opens (count_name_operations tx)),
           bls_updates = sat_add (bls_updates s) (noc_updates (count_name_operations tx)),
           bls_renewals = sat_add (bls_renewals s) (noc_renewals (count_name_operations tx)),
           bls_exclusive = bls_exclusive s \<union> exclusive_hashes (tx_outputs tx)\<rparr>"
  by (auto simp: block_limits_step_def Let_def and_then_eq_Inr exclusive_fold)

lemma counts_kinds:
  "unat (noc_opens (count_name_operations tx)) = sat32 (kind_count open_kinds tx)"
  "unat (noc_updates (count_name_operations tx)) = sat32 (kind_count update_kinds tx)"
  "unat (noc_renewals (count_name_operations tx)) = sat32 (kind_count renewal_kinds tx)"
  using counts_of [of tx] by (simp_all add: counts_ok_def kind_count_def sat32_def)

lemma limits_ok_Cons:
  "limits_ok seen (tx # txs) \<longleftrightarrow> exclusive_shape (tx_outputs tx) \<and> exclusive_hashes (tx_outputs tx) \<inter> seen = {} \<and>
     limits_ok (seen \<union> exclusive_hashes (tx_outputs tx)) txs"
  by (auto simp: limits_ok_def)

lemma limits_fold:
  "fold_res block_limits_step txs s = Inr s' \<Longrightarrow>
     limits_ok (bls_exclusive s) txs \<and>
     unat (bls_opens s') = sat32 (unat (bls_opens s) + (\<Sum>tx \<leftarrow> txs. kind_count open_kinds tx)) \<and>
     unat (bls_updates s') = sat32 (unat (bls_updates s) + (\<Sum>tx \<leftarrow> txs. kind_count update_kinds tx)) \<and>
     unat (bls_renewals s') = sat32 (unat (bls_renewals s) + (\<Sum>tx \<leftarrow> txs. kind_count renewal_kinds tx))"
proof (induction txs arbitrary: s)
  case (Cons tx txs)
  then obtain s1 where s1: "block_limits_step tx s = Inr s1" "fold_res block_limits_step txs s1 = Inr s'"
    by (auto simp: and_then_eq_Inr)
  from Cons.IH [OF s1(2)] s1(1) show ?case
    by (simp add: block_limits_step_Inr limits_ok_Cons unat_sat_add_32 counts_kinds sat32_absorb)
qed (simp add: limits_ok_def sat32_unat)

lemma limits_fold_exists: "limits_ok (bls_exclusive s) txs \<Longrightarrow> \<exists>s'. fold_res block_limits_step txs s = Inr s'"
proof (induction txs arbitrary: s)
  case (Cons tx txs)
  then obtain s1 where "block_limits_step tx s = Inr s1" "limits_ok (bls_exclusive s1) txs"
    by (auto simp: limits_ok_Cons block_limits_step_Inr)
  with Cons.IH [of s1] show ?case by (auto simp: and_then_eq_Inr)
qed simp

lemma block_limits_iff:
  "validate_block_name_limits b = Inr () \<longleftrightarrow> limits_ok {} (blk_transactions b) \<and>
     (\<Sum>tx \<leftarrow> blk_transactions b. kind_count open_kinds tx) \<le> 300 \<and>
     (\<Sum>tx \<leftarrow> blk_transactions b. kind_count update_kinds tx) \<le> 600 \<and>
     (\<Sum>tx \<leftarrow> blk_transactions b. kind_count renewal_kinds tx) \<le> 600"
proof (cases "fold_res block_limits_step (blk_transactions b)
    \<lparr>bls_opens = 0, bls_updates = 0, bls_renewals = 0, bls_exclusive = {}\<rparr>")
  case (Inl e)
  have "\<not> limits_ok {} (blk_transactions b)"
    using limits_fold_exists [of "\<lparr>bls_opens = 0, bls_updates = 0, bls_renewals = 0, bls_exclusive = {}\<rparr>"
        "blk_transactions b"] Inl by auto
  with Inl show ?thesis by (simp add: validate_block_name_limits_def validate_block_covenant_limits_def)
next
  case (Inr s)
  from limits_fold [OF Inr] Inr show ?thesis
    by (simp add: validate_block_name_limits_def validate_block_covenant_limits_def word_less_nat_alt tx_limits
        not_less sat32_def)
qed

text \<open>
  C31: the name limits of a block are exactly these: every covenant that claims exclusive use of a
  name has a 32-byte name hash, no name hash is used exclusively by two different transactions, and
  the block has at most 300 opens, 600 updates and 600 renewals in all.
\<close>

theorem block_name_limits_exact:
  "validate_block_name_limits b = Inr () \<longleftrightarrow>
     (\<forall>tx \<in> set (blk_transactions b). exclusive_shape (tx_outputs tx)) \<and>
     sorted_wrt (\<lambda>t u. exclusive_hashes (tx_outputs t) \<inter> exclusive_hashes (tx_outputs u) = {})
       (blk_transactions b) \<and>
     (\<Sum>tx \<leftarrow> blk_transactions b. kind_count open_kinds tx) \<le> 300 \<and>
     (\<Sum>tx \<leftarrow> blk_transactions b. kind_count update_kinds tx) \<le> 600 \<and>
     (\<Sum>tx \<leftarrow> blk_transactions b. kind_count renewal_kinds tx) \<le> 600"
  by (auto simp: block_limits_iff limits_ok_def)


definition example_update :: "u8 \<Rightarrow> transaction" where
  "example_update n =
     \<lparr>tx_version = 0, tx_inputs = [],
      tx_outputs = [\<lparr>out_value = 0, out_address = \<lparr>addr_version = 0, addr_hash = replicate 20 7\<rparr>,
        out_covenant = \<lparr>cov_kind = CovUpdate, cov_items = [replicate 32 n]\<rparr>\<rparr>],
      tx_locktime = 0\<rparr>"

theorem block_name_limits_exact_witness:
  "validate_block_name_limits (example_mined 1\<lparr>blk_transactions := [example_update 1, example_update 2]\<rparr>) = Inr () \<and>
   validate_block_name_limits (example_mined 1\<lparr>blk_transactions := [example_update 1, example_update 1]\<rparr>) \<noteq> Inr ()"
  unfolding block_name_limits_exact
  by (simp add: example_update_def cov_item_def get_def kind_count_def open_kinds_def update_kinds_def
      renewal_kinds_def replicate_eq_replicate)

subsection \<open>Headers\<close>

lemma validate_header_iff:
  "validate_header H H512 S n header context = Inr () \<longleftrightarrow>
     validate_linkage H H512 S n header context = Inr () \<and>
     verify_checkpoint n (hvc_enforce_checkpoints context) (hvc_height context) (header_hash H H512 S header) \<and>
     (hvc_expected_bits context \<in> {None, Some (hdr_bits header)}) \<and>
     (case hvc_median_time_past context of Some median \<Rightarrow> median < hdr_time header | None \<Rightarrow> True) \<and>
     (case hvc_maximum_time context of Some maximum \<Rightarrow> hdr_time header \<le> maximum | None \<Rightarrow> True) \<and>
     (\<not> hvc_require_pow context \<or> verify_pow H H512 S header)"
  by (auto simp: validate_header_def and_then_eq_Inr not_le not_less split: if_splits option.splits)

lemma length_header_hash:
  assumes "\<And>x. length (H x) = 32" and "header_ok h"
  shows "length (header_hash H H512 S h) = 32"
  using assms by (simp add: header_hash_def pow_hash_def share_hash_def blake2b_256_many_def Let_def header_ok_def)

text \<open>
  C2: an accepted header has done the work.  If a header above height zero passes validation in a
  context whose expected bits are those the retarget computes from the chain, with proof of work
  required, then its parent is the header directly below it, its time is above the median time
  past and not too far in the future, and its hash, read as a number, is at most the target its bits
  denote, which is at most the proof-of-work limit of the network.
\<close>

theorem accepted_header_has_work:
  assumes "\<And>x. length (H x) = 32" and "header_ok header"
    and "validate_header H H512 S n header context = Inr ()"
    and "hvc_height context \<noteq> 0" and "hvc_require_pow context"
    and "hvc_median_time_past context = Some median" and "hvc_maximum_time context = Some maximum"
    and "hvc_expected_bits context = Some bits"
    and "pred_option point_ok first_suitable" and "pred_option point_ok last_suitable"
    and "expected_next_bits (np_pow (params n)) (hdr_time header) previous first_suitable last_suitable = Inr bits"
  shows "let target = be_val (ct_bytes (compact_from_bits (hdr_bits header)))
    in be_val (header_hash H H512 S header) \<le> target \<and> target \<le> be_val (pow_limit (np_pow (params n))) \<and>
      median < hdr_time header \<and> hdr_time header \<le> maximum \<and>
      (\<exists>parent. hvc_previous context = Some parent \<and> hdr_prev_block header = hp_hash parent \<and>
        unat (hvc_height context) = unat (hp_height parent) + 1)"
proof -
  note ok = assms(3) [unfolded validate_header_iff]
  have bits: "hdr_bits header = bits" using ok assms(8) by simp
  have "be_val (ct_bytes (compact_from_bits bits)) \<le> be_val (pow_limit (np_pow (params n)))"
    using expected_bits_limit [OF assms(9-11)] by (simp add: Let_def)
  moreover have "is_met_by (compact_from_bits bits) (header_hash H H512 S header)"
    using ok assms(5) bits by (simp add: verify_pow_def header_hash_def)
  then have "be_val (header_hash H H512 S header) \<le> be_val (ct_bytes (compact_from_bits bits))"
    using length_header_hash [OF assms(1,2)] compact_from_bits_spec [of bits]
    by (simp add: is_met_by_def bytes_le_iff_be_val Let_def)
  moreover from ok assms(4) obtain parent where "hvc_previous context = Some parent"
    "hdr_prev_block header = hp_hash parent" "checked_add (hp_height parent) 1 = Some (hvc_height context)"
    by (auto simp: validate_linkage_def and_then_eq_Inr split: if_splits)
  ultimately show ?thesis
    using ok assms(6,7) by (auto simp: bits Let_def unat_checked_add)
qed


definition example_context :: header_validation_context where
  "example_context =
     \<lparr>hvc_height = 1,
      hvc_previous = Some \<lparr>hp_hash = zero_hash, hp_height = 0, hp_bits = 0x207fffff, hp_chainwork = u256 2\<rparr>,
      hvc_enforce_checkpoints = False, hvc_expected_bits = Some 0x207fffff,
      hvc_median_time_past = Some 4, hvc_maximum_time = Some 10, hvc_require_pow = True\<rparr>"

definition example_work_header :: header where
  "example_work_header = header_default\<lparr>hdr_bits := 0x207fffff, hdr_time := 5\<rparr>"

theorem accepted_header_has_work_witness:
  "be_val (header_hash one_hash one_hash one_hash example_work_header) \<le> be_val (pow_limit regtest_pow)"
proof -
  have "header_ok example_work_header" by code_simp
  moreover have "validate_header one_hash one_hash one_hash Regtest example_work_header example_context = Inr ()"
    by code_simp
  moreover have "expected_next_bits (np_pow (params Regtest)) (hdr_time example_work_header) previous None None =
      Inr 0x207fffff" for previous
    by (simp add: expected_next_bits_def regtest_pow_def)
  ultimately show ?thesis
    using accepted_header_has_work [of one_hash example_work_header one_hash one_hash Regtest example_context
      4 10 "0x207fffff" None None]
    by (simp add: example_context_def one_hash_def Let_def)
qed

end
