(* ===== verification/Covenant_Links.thy ===== *)
theory Covenant_Links
  imports Block_Rules
begin

text \<open>
  The links between spent and created covenants, \<^verbatim>\<open>crates/hns-consensus/src/covenant.rs\<close>: what the
  output at the index of an input may be, given the covenant of the coin that the input spends.
  BLAKE2b-256 is the parameter \<open>H\<close>.
\<close>

subsection \<open>Errors and helpers\<close>

datatype covenant_link_error =
    CoinbaseRequiresIssuanceVerifier
  | InputCountMismatch nat nat
  | CoinOutpointMismatch nat outpoint outpoint
  | MissingLinkedOutput nat covenant_kind
  | InvalidTransition nat covenant_kind covenant_kind
  | MalformedInputCovenant nat string
  | NameHashMismatch nat
  | StartHeightMismatch nat u32 u32
  | BlindCommitmentMismatch nat
  | BidValueInflation nat u64 u64
  | ClaimCannotRedeem nat
  | AddressMismatch nat
  | LockedValueMismatch nat u64 u64
  | TransferDestinationMismatch nat
  | RevokedCoinSpent nat
  | UnknownCovenantCreatesName nat covenant_kind

definition is_transfer_source_covenant :: "covenant_kind \<Rightarrow> bool" where
  "is_transfer_source_covenant kind \<longleftrightarrow> kind \<in> {CovRegister, CovUpdate, CovRenew, CovFinalize}"

definition is_finalize_source_covenant :: "covenant_kind \<Rightarrow> bool" where
  "is_finalize_source_covenant kind \<longleftrightarrow> kind = CovTransfer"

record covenant_link_summary =
  cls_inputs_checked :: nat
  cls_linked_outputs :: nat
  cls_name_inputs :: nat

definition blind_bid :: "(bytes \<Rightarrow> bytes) \<Rightarrow> u64 \<Rightarrow> bytes \<Rightarrow> bytes" where
  "blind_bid H value nonce = H (write_u64 value @ write_bytes nonce)"

definition require_linked_output :: "nat \<Rightarrow> covenant_kind \<Rightarrow> txout option \<Rightarrow> covenant_link_error + txout" where
  "require_linked_output input_index from out = ok_or out (MissingLinkedOutput input_index from)"

definition require_transition ::
  "nat \<Rightarrow> covenant_kind \<Rightarrow> txout \<Rightarrow> covenant_kind \<Rightarrow> covenant_link_error + unit" where
  "require_transition input_index from out expected =
     (if cov_kind (out_covenant out) \<noteq> expected
      then Inl (InvalidTransition input_index from (cov_kind (out_covenant out))) else Inr ())"

definition required_item :: "nat \<Rightarrow> covenant \<Rightarrow> nat \<Rightarrow> string \<Rightarrow> covenant_link_error + bytes" where
  "required_item input_index c i field = ok_or (cov_item c i) (MalformedInputCovenant input_index field)"

definition required_u8 :: "nat \<Rightarrow> covenant \<Rightarrow> nat \<Rightarrow> string \<Rightarrow> covenant_link_error + u8" where
  "required_u8 input_index c i field = ok_or (cov_item_u8 c i) (MalformedInputCovenant input_index field)"

definition required_u32 :: "nat \<Rightarrow> covenant \<Rightarrow> nat \<Rightarrow> string \<Rightarrow> covenant_link_error + u32" where
  "required_u32 input_index c i field = ok_or (cov_item_u32 c i) (MalformedInputCovenant input_index field)"

definition required_hash :: "nat \<Rightarrow> covenant \<Rightarrow> nat \<Rightarrow> string \<Rightarrow> covenant_link_error + bytes" where
  "required_hash input_index c i field = ok_or (cov_item_hash c i) (MalformedInputCovenant input_index field)"

definition require_name_and_start_match ::
  "nat \<Rightarrow> covenant \<Rightarrow> covenant \<Rightarrow> covenant_link_error + unit" where
  "require_name_and_start_match input_index spent created =
     and_then (required_hash input_index spent 0 ''spent name hash'') (\<lambda>spent_name.
     and_then (required_hash input_index created 0 ''created name hash'') (\<lambda>created_name.
     if spent_name \<noteq> created_name then Inl (NameHashMismatch input_index)
     else
       and_then (required_u32 input_index spent 1 ''spent start height'') (\<lambda>spent_start.
       and_then (required_u32 input_index created 1 ''created start height'') (\<lambda>created_start.
       if spent_start \<noteq> created_start
       then Inl (StartHeightMismatch input_index spent_start created_start)
       else Inr ()))))"

definition require_locked_value :: "nat \<Rightarrow> coin \<Rightarrow> txout \<Rightarrow> covenant_link_error + unit" where
  "require_locked_value input_index coin out =
     (if out_value out \<noteq> coin_value coin
      then Inl (LockedValueMismatch input_index (coin_value coin) (out_value out)) else Inr ())"

definition require_address_match :: "nat \<Rightarrow> address \<Rightarrow> txout \<Rightarrow> covenant_link_error + unit" where
  "require_address_match input_index expected out =
     (if out_address out \<noteq> expected then Inl (AddressMismatch input_index) else Inr ())"

subsection \<open>The rule for each kind of spent covenant\<close>

text \<open>Each result says whether the output at the index of the input counts as linked.\<close>

definition link_free :: "nat \<Rightarrow> coin \<Rightarrow> txout option \<Rightarrow> covenant_link_error + bool" where
  "link_free input_index coin out =
     (case out of
        None \<Rightarrow> Inr False
      | Some out \<Rightarrow>
          if cov_kind (out_covenant out) \<notin> {CovNone, CovOpen, CovBid}
          then Inl (InvalidTransition input_index (cov_kind (coin_covenant coin)) (cov_kind (out_covenant out)))
          else Inr False)"

definition link_bid :: "(bytes \<Rightarrow> bytes) \<Rightarrow> nat \<Rightarrow> coin \<Rightarrow> txout option \<Rightarrow> covenant_link_error + bool" where
  "link_bid H input_index coin out =
     (let spent = coin_covenant coin in
      and_then (require_linked_output input_index (cov_kind spent) out) (\<lambda>out.
      and_then (require_transition input_index (cov_kind spent) out CovReveal) (\<lambda>_.
      and_then (require_name_and_start_match input_index spent (out_covenant out)) (\<lambda>_.
      and_then (required_hash input_index (out_covenant out) 2 ''reveal nonce'') (\<lambda>nonce.
      and_then (required_hash input_index spent 3 ''bid commitment'') (\<lambda>commitment.
      if blind_bid H (out_value out) nonce \<noteq> commitment then Inl (BlindCommitmentMismatch input_index)
      else if coin_value coin < out_value out
      then Inl (BidValueInflation input_index (coin_value coin) (out_value out))
      else Inr True))))))"

definition link_claim_or_reveal :: "nat \<Rightarrow> coin \<Rightarrow> txout option \<Rightarrow> covenant_link_error + bool" where
  "link_claim_or_reveal input_index coin out =
     (let spent = coin_covenant coin in
      and_then (require_linked_output input_index (cov_kind spent) out) (\<lambda>out.
      case cov_kind (out_covenant out) of
        CovRegister \<Rightarrow>
          and_then (require_name_and_start_match input_index spent (out_covenant out)) (\<lambda>_.
          and_then (require_address_match input_index (coin_address coin) out) (\<lambda>_. Inr True))
      | CovRedeem \<Rightarrow>
          and_then (require_name_and_start_match input_index spent (out_covenant out)) (\<lambda>_.
          if cov_kind spent = CovClaim then Inl (ClaimCannotRedeem input_index) else Inr True)
      | to \<Rightarrow> Inl (InvalidTransition input_index (cov_kind spent) to)))"

definition link_owner :: "nat \<Rightarrow> coin \<Rightarrow> txout option \<Rightarrow> covenant_link_error + bool" where
  "link_owner input_index coin out =
     (let spent = coin_covenant coin in
      and_then (require_linked_output input_index (cov_kind spent) out) (\<lambda>out.
      and_then (require_locked_value input_index coin out) (\<lambda>_.
      and_then (require_address_match input_index (coin_address coin) out) (\<lambda>_.
      if cov_kind (out_covenant out) \<notin> {CovUpdate, CovRenew, CovTransfer, CovRevoke}
      then Inl (InvalidTransition input_index (cov_kind spent) (cov_kind (out_covenant out)))
      else
        and_then (require_name_and_start_match input_index spent (out_covenant out)) (\<lambda>_. Inr True)))))"

definition link_transfer :: "nat \<Rightarrow> coin \<Rightarrow> txout option \<Rightarrow> covenant_link_error + bool" where
  "link_transfer input_index coin out =
     (let spent = coin_covenant coin in
      and_then (require_linked_output input_index (cov_kind spent) out) (\<lambda>out.
      and_then (require_locked_value input_index coin out) (\<lambda>_.
      if cov_kind (out_covenant out) \<in> {CovUpdate, CovRenew, CovRevoke} then
        and_then (require_name_and_start_match input_index spent (out_covenant out)) (\<lambda>_.
        and_then (require_address_match input_index (coin_address coin) out) (\<lambda>_. Inr True))
      else if cov_kind (out_covenant out) = CovFinalize then
        and_then (require_name_and_start_match input_index spent (out_covenant out)) (\<lambda>_.
        and_then (required_u8 input_index spent 2 ''transfer destination version'') (\<lambda>version.
        and_then (required_item input_index spent 3 ''transfer destination hash'') (\<lambda>hash.
        if addr_version (out_address out) \<noteq> version \<or> addr_hash (out_address out) \<noteq> hash
        then Inl (TransferDestinationMismatch input_index)
        else Inr True)))
      else Inl (InvalidTransition input_index (cov_kind spent) (cov_kind (out_covenant out))))))"

definition link_unknown :: "nat \<Rightarrow> txout option \<Rightarrow> covenant_link_error + bool" where
  "link_unknown input_index out =
     (case out of
        None \<Rightarrow> Inr False
      | Some out \<Rightarrow>
          if kind_is_name (cov_kind (out_covenant out))
          then Inl (UnknownCovenantCreatesName input_index (cov_kind (out_covenant out)))
          else Inr False)"

definition link_coin ::
  "(bytes \<Rightarrow> bytes) \<Rightarrow> nat \<Rightarrow> coin \<Rightarrow> txout option \<Rightarrow> covenant_link_error + bool" where
  "link_coin H input_index coin out =
     (case cov_kind (coin_covenant coin) of
        CovNone \<Rightarrow> link_free input_index coin out
      | CovOpen \<Rightarrow> link_free input_index coin out
      | CovRedeem \<Rightarrow> link_free input_index coin out
      | CovBid \<Rightarrow> link_bid H input_index coin out
      | CovClaim \<Rightarrow> link_claim_or_reveal input_index coin out
      | CovReveal \<Rightarrow> link_claim_or_reveal input_index coin out
      | CovRegister \<Rightarrow> link_owner input_index coin out
      | CovUpdate \<Rightarrow> link_owner input_index coin out
      | CovRenew \<Rightarrow> link_owner input_index coin out
      | CovFinalize \<Rightarrow> link_owner input_index coin out
      | CovTransfer \<Rightarrow> link_transfer input_index coin out
      | CovRevoke \<Rightarrow> Inl (RevokedCoinSpent input_index)
      | CovUnknown _ \<Rightarrow> link_unknown input_index out)"

definition link_step ::
  "(bytes \<Rightarrow> bytes) \<Rightarrow> transaction \<Rightarrow> nat \<times> txin \<times> coin \<Rightarrow> covenant_link_summary \<Rightarrow>
   covenant_link_error + covenant_link_summary" where
  "link_step H tx entry summary =
     (let (input_index, input, coin) = entry in
      if in_prevout input \<noteq> coin_outpoint coin
      then Inl (CoinOutpointMismatch input_index (in_prevout input) (coin_outpoint coin))
      else
        let summary = (if kind_is_name (cov_kind (coin_covenant coin))
              then summary\<lparr>cls_name_inputs := cls_name_inputs summary + 1\<rparr> else summary)
        in and_then (link_coin H input_index coin (get (tx_outputs tx) input_index)) (\<lambda>linked.
           Inr (if linked then summary\<lparr>cls_linked_outputs := cls_linked_outputs summary + 1\<rparr> else summary)))"

definition verify_transaction_covenant_links ::
  "(bytes \<Rightarrow> bytes) \<Rightarrow> transaction \<Rightarrow> coin list \<Rightarrow> covenant_link_error + covenant_link_summary" where
  "verify_transaction_covenant_links H tx input_coins =
     (if is_coinbase tx then Inl CoinbaseRequiresIssuanceVerifier
      else if length (tx_inputs tx) \<noteq> length input_coins
      then Inl (InputCountMismatch (length (tx_inputs tx)) (length input_coins))
      else fold_res (link_step H tx) (enumerate 0 (zip (tx_inputs tx) input_coins))
        \<lparr>cls_inputs_checked = length input_coins, cls_linked_outputs = 0, cls_name_inputs = 0\<rparr>)"

subsection \<open>What a link preserves\<close>

definition same_name :: "covenant \<Rightarrow> covenant \<Rightarrow> bool" where
  "same_name spent created \<longleftrightarrow> (\<exists>name start. cov_item_hash spent 0 = Some name \<and> cov_item_hash created 0 = Some name \<and>
     cov_item_u32 spent 1 = Some start \<and> cov_item_u32 created 1 = Some start)"

lemma require_name_and_start_match_iff:
  "require_name_and_start_match i spent created = Inr u \<longleftrightarrow> same_name spent created"
  by (auto simp: require_name_and_start_match_def required_hash_def required_u32_def same_name_def and_then_eq_Inr
      split: if_splits)

lemmas link_simps = require_name_and_start_match_iff require_linked_output_def require_transition_def
  require_locked_value_def require_address_match_def required_hash_def required_item_def required_u8_def
  required_u32_def and_then_eq_Inr Let_def

definition owner_kinds :: "covenant_kind set" where
  "owner_kinds = {CovRegister, CovUpdate, CovRenew, CovFinalize, CovTransfer}"

lemma link_coin_created:
  assumes "link_coin H i coin (Some out) = Inr l" and "kind_is_linked (cov_kind (out_covenant out))"
  shows "kind_is_name (cov_kind (coin_covenant coin)) \<and> same_name (coin_covenant coin) (out_covenant out)"
  using assms
  by (cases "cov_kind (coin_covenant coin)"; cases "cov_kind (out_covenant out)")
    (auto simp: link_coin_def link_free_def link_bid_def link_claim_or_reveal_def link_owner_def
      link_transfer_def link_unknown_def link_simps split: if_splits)


lemma link_coin_owner:
  assumes "link_coin H i coin out = Inr l" and "cov_kind (coin_covenant coin) \<in> owner_kinds"
  shows "\<exists>created. out = Some created \<and> out_value created = coin_value coin \<and>
    kind_is_linked (cov_kind (out_covenant created)) \<and> same_name (coin_covenant coin) (out_covenant created) \<and>
    (if cov_kind (coin_covenant coin) = CovTransfer \<and> cov_kind (out_covenant created) = CovFinalize
     then cov_item_u8 (coin_covenant coin) 2 = Some (addr_version (out_address created)) \<and>
       cov_item (coin_covenant coin) 3 = Some (addr_hash (out_address created))
     else out_address created = coin_address coin)"
proof -
  consider "link_owner i coin out = Inr l" "cov_kind (coin_covenant coin) \<noteq> CovTransfer"
    | "link_transfer i coin out = Inr l" "cov_kind (coin_covenant coin) = CovTransfer"
    using assms by (auto simp: link_coin_def owner_kinds_def)
  then show ?thesis
  proof cases
    case 1
    then obtain created where "out = Some created" "out_value created = coin_value coin"
      "out_address created = coin_address coin" "same_name (coin_covenant coin) (out_covenant created)"
      "cov_kind (out_covenant created) \<in> {CovUpdate, CovRenew, CovTransfer, CovRevoke}"
      by (auto simp: link_owner_def link_simps split: if_splits)
    with 1(2) show ?thesis by auto
  next
    case 2
    then obtain created where "out = Some created" "out_value created = coin_value coin"
      "same_name (coin_covenant coin) (out_covenant created)"
      "cov_kind (out_covenant created) \<in> {CovUpdate, CovRenew, CovRevoke} \<and> out_address created = coin_address coin \<or>
       cov_kind (out_covenant created) = CovFinalize \<and>
         cov_item_u8 (coin_covenant coin) 2 = Some (addr_version (out_address created)) \<and>
         cov_item (coin_covenant coin) 3 = Some (addr_hash (out_address created))"
      by (auto simp: link_transfer_def link_simps split: if_splits)
    with 2(2) show ?thesis by auto
  qed
qed

lemma link_coin_bid:
  assumes "link_coin H i coin out = Inr l" and "cov_kind (coin_covenant coin) = CovBid"
  shows "\<exists>created nonce. out = Some created \<and> cov_kind (out_covenant created) = CovReveal \<and>
    out_value created \<le> coin_value coin \<and> cov_item_hash (out_covenant created) 2 = Some nonce \<and>
    cov_item_hash (coin_covenant coin) 3 = Some (blind_bid H (out_value created) nonce)"
  using assms by (auto simp: link_coin_def link_bid_def link_simps not_less split: if_splits)

lemma link_coin_not_revoked: "link_coin H i coin out = Inr l \<Longrightarrow> cov_kind (coin_covenant coin) \<noteq> CovRevoke"
  by (auto simp: link_coin_def)

lemma fold_res_all:
  assumes "fold_res f xs s = Inr s'" and "x \<in> set xs"
  shows "\<exists>t t'. f x t = Inr t'"
  using assms by (induction xs arbitrary: s) (auto simp: and_then_eq_Inr)

lemma verified_link:
  assumes "verify_transaction_covenant_links H tx coins = Inr summary" and "i < length (tx_inputs tx)"
  shows "length coins = length (tx_inputs tx) \<and> in_prevout (tx_inputs tx ! i) = coin_outpoint (coins ! i) \<and>
    (\<exists>l. link_coin H i (coins ! i) (get (tx_outputs tx) i) = Inr l)"
proof -
  from assms(1) have len: "length coins = length (tx_inputs tx)"
    and fold: "fold_res (link_step H tx) (enumerate 0 (zip (tx_inputs tx) coins))
      \<lparr>cls_inputs_checked = length coins, cls_linked_outputs = 0, cls_name_inputs = 0\<rparr> = Inr summary"
    by (auto simp: verify_transaction_covenant_links_def split: if_splits)
  have "(i, tx_inputs tx ! i, coins ! i) \<in> set (enumerate 0 (zip (tx_inputs tx) coins))"
    using assms(2) len by (auto simp: in_set_conv_nth nth_enumerate_eq intro!: exI [of _ i])
  from fold_res_all [OF fold this] len show ?thesis
    by (auto simp: link_step_def and_then_eq_Inr Let_def split: if_splits)
qed

text \<open>
  C6: names are carried, never made or duplicated.  In a transaction whose covenant links are
  accepted, consider an input and the output at its index.  The coin is not revoked.  If the output
  carries a linked covenant, the coin carries a name covenant with the same name hash and the same
  start height.  If the coin owns a name, the output exists, has exactly the locked value, carries
  the name on, and goes to the same address, or, when a transfer is finalized, to the address the
  transfer committed to.  If the coin is a bid, the output reveals it: its value is at most the
  locked value and, with the revealed nonce, opens the commitment of the bid.
\<close>

theorem covenant_links_preserve_names:
  assumes "verify_transaction_covenant_links H tx coins = Inr summary" and "i < length (tx_inputs tx)"
  shows "let coin = coins ! i; spent = coin_covenant coin; out = get (tx_outputs tx) i in
    cov_kind spent \<noteq> CovRevoke \<and>
    (\<forall>created. out = Some created \<and> kind_is_linked (cov_kind (out_covenant created)) \<longrightarrow>
       kind_is_name (cov_kind spent) \<and> same_name spent (out_covenant created)) \<and>
    (cov_kind spent \<in> owner_kinds \<longrightarrow>
       (\<exists>created. out = Some created \<and> out_value created = coin_value coin \<and>
         kind_is_linked (cov_kind (out_covenant created)) \<and> same_name spent (out_covenant created) \<and>
         (if cov_kind spent = CovTransfer \<and> cov_kind (out_covenant created) = CovFinalize
          then cov_item_u8 spent 2 = Some (addr_version (out_address created)) \<and>
            cov_item spent 3 = Some (addr_hash (out_address created))
          else out_address created = coin_address coin))) \<and>
    (cov_kind spent = CovBid \<longrightarrow>
       (\<exists>created nonce. out = Some created \<and> cov_kind (out_covenant created) = CovReveal \<and>
         out_value created \<le> coin_value coin \<and> cov_item_hash (out_covenant created) 2 = Some nonce \<and>
         cov_item_hash spent 3 = Some (blind_bid H (out_value created) nonce)))"
proof -
  obtain l where l: "link_coin H i (coins ! i) (get (tx_outputs tx) i) = Inr l"
    using verified_link [OF assms] by blast
  have "kind_is_name (cov_kind (coin_covenant (coins ! i))) \<and> same_name (coin_covenant (coins ! i)) (out_covenant created)"
    if "get (tx_outputs tx) i = Some created \<and> kind_is_linked (cov_kind (out_covenant created))" for created
    using l that by (intro link_coin_created [of H i _ created l]) (simp_all only:)
  then show ?thesis
    unfolding Let_def
    by (intro conjI allI impI link_coin_not_revoked [OF l] link_coin_owner [OF l] link_coin_bid [OF l]) blast+
qed

text \<open>An owner transfers a name: a registered coin is spent to a transfer output.\<close>

definition example_name_items :: "bytes list" where
  "example_name_items = [replicate 32 5, write_u32 100, [0], replicate 20 9]"

definition example_owner_coin :: coin where
  "example_owner_coin = \<lparr>coin_outpoint = \<lparr>op_txid = replicate 32 1, op_index = 0\<rparr>, coin_value = 500,
     coin_height = 10, coin_coinbase = False, coin_address = \<lparr>addr_version = 0, addr_hash = replicate 20 7\<rparr>,
     coin_covenant = \<lparr>cov_kind = CovRegister, cov_items = example_name_items\<rparr>\<rparr>"

definition example_transfer :: transaction where
  "example_transfer = \<lparr>tx_version = 0,
     tx_inputs = [\<lparr>in_prevout = \<lparr>op_txid = replicate 32 1, op_index = 0\<rparr>, in_sequence = 0, in_witness = []\<rparr>],
     tx_outputs = [\<lparr>out_value = 500, out_address = \<lparr>addr_version = 0, addr_hash = replicate 20 7\<rparr>,
       out_covenant = \<lparr>cov_kind = CovTransfer, cov_items = example_name_items\<rparr>\<rparr>],
     tx_locktime = 0\<rparr>"

theorem covenant_links_preserve_names_witness:
  "\<exists>created. get (tx_outputs example_transfer) 0 = Some created \<and> out_value created = 500 \<and>
     same_name (coin_covenant example_owner_coin) (out_covenant created)"
proof -
  have "verify_transaction_covenant_links one_hash example_transfer [example_owner_coin] =
      Inr \<lparr>cls_inputs_checked = 1, cls_linked_outputs = 1, cls_name_inputs = 1\<rparr>" by code_simp
  from covenant_links_preserve_names [OF this, of 0] show ?thesis
    by (auto simp: Let_def example_transfer_def example_owner_coin_def owner_kinds_def)
qed

end
