(* ===== verification/Locks.thy ===== *)
theory Locks
  imports Tx_Rules
begin

unbundle bit_operations_syntax

text \<open>
  Absolute and relative locks, \<^verbatim>\<open>crates/hns-consensus/src/locks.rs\<close>: the predicates behind
  \<^verbatim>\<open>OP_CHECKLOCKTIMEVERIFY\<close> and \<^verbatim>\<open>OP_CHECKSEQUENCEVERIFY\<close>, and the sequence locks of a transaction.
  The view of the chain (heights of coins, median times) is two function parameters.  The 64-bit
  signed integers are integers with the range checks of the checked operations written out.
\<close>

subsection \<open>Constants and signed arithmetic\<close>

definition sequence_disable_flag :: u32 where "sequence_disable_flag = push_bit 31 1"
definition sequence_type_flag :: u32 where "sequence_type_flag = push_bit 22 1"
definition sequence_granularity :: nat where "sequence_granularity = 9"
definition sequence_mask :: u32 where "sequence_mask = 0xffff"

definition i64_range :: "int \<Rightarrow> int option" where
  "i64_range v = (if - (2 ^ 63) \<le> v \<and> v < 2 ^ 63 then Some v else None)"

definition i64_checked_add :: "int \<Rightarrow> int \<Rightarrow> int option" where
  "i64_checked_add a b = i64_range (a + b)"

definition i64_checked_sub :: "int \<Rightarrow> int \<Rightarrow> int option" where
  "i64_checked_sub a b = i64_range (a - b)"

text \<open>\<^verbatim>\<open>checked_shl\<close> only checks the shift amount; the value is shifted at its width.\<close>

definition i64_checked_shl :: "int \<Rightarrow> nat \<Rightarrow> int option" where
  "i64_checked_shl a n = (if n < 64 then Some (signed_take_bit 63 (a * 2 ^ n)) else None)"

subsection \<open>Operations\<close>

record sequence_lock =
  sl_minimum_height :: int
  sl_minimum_time :: int

definition sequence_lock_none :: sequence_lock where
  "sequence_lock_none = \<lparr>sl_minimum_height = - 1, sl_minimum_time = - 1\<rparr>"

definition is_satisfied_by :: "sequence_lock \<Rightarrow> u32 \<Rightarrow> u64 \<Rightarrow> bool" where
  "is_satisfied_by lock next_height parent_median_time \<longleftrightarrow>
     (sl_minimum_height lock < 0 \<or> sl_minimum_height lock < uint next_height) \<and>
     (sl_minimum_time lock < 0 \<or> sl_minimum_time lock < uint parent_median_time)"

definition verify_locktime_predicate :: "transaction \<Rightarrow> nat \<Rightarrow> u32 \<Rightarrow> bool" where
  "verify_locktime_predicate tx input_index predicate =
     (case get (tx_inputs tx) input_index of
        None \<Rightarrow> False
      | Some input \<Rightarrow>
          if tx_locktime tx AND locktime_flag \<noteq> predicate AND locktime_flag then False
          else if predicate AND locktime_mask > tx_locktime tx AND locktime_mask then False
          else in_sequence input \<noteq> - 1)"

definition verify_sequence_predicate :: "transaction \<Rightarrow> nat \<Rightarrow> u32 \<Rightarrow> bool" where
  "verify_sequence_predicate tx input_index predicate =
     (case get (tx_inputs tx) input_index of
        None \<Rightarrow> False
      | Some input \<Rightarrow>
          if predicate AND sequence_disable_flag \<noteq> 0 then True
          else if in_sequence input AND sequence_disable_flag \<noteq> 0 then False
          else if in_sequence input AND sequence_type_flag \<noteq> predicate AND sequence_type_flag then False
          else predicate AND sequence_mask \<le> in_sequence input AND sequence_mask)"

definition locks_is_coinbase :: "transaction \<Rightarrow> bool" where
  "locks_is_coinbase tx \<longleftrightarrow> length (tx_inputs tx) = 1 \<and>
     op_txid (in_prevout (tx_inputs tx ! 0)) = zero_hash \<and> op_index (in_prevout (tx_inputs tx ! 0)) = - 1"

definition sequence_step ::
  "(outpoint \<Rightarrow> consensus_error + u32 option) \<Rightarrow> (u32 \<Rightarrow> consensus_error + u64) \<Rightarrow> u32 \<Rightarrow> txin \<Rightarrow>
   sequence_lock \<Rightarrow> consensus_error + sequence_lock" where
  "sequence_step coin_height_of median_time_past_of next_height input locks =
     (let sequence = in_sequence input in
      if sequence AND sequence_disable_flag \<noteq> 0 then Inr locks
      else
        and_then (coin_height_of (in_prevout input)) (\<lambda>found.
        let coin_height = (case found of Some h \<Rightarrow> h | None \<Rightarrow> next_height);
            relative = uint (sequence AND sequence_mask)
        in if sequence AND sequence_type_flag = 0 then
             and_then (ok_or (Option.bind (i64_checked_add (uint coin_height) relative)
               (\<lambda>value. i64_checked_sub value 1))
               (Authorization ''relative height lock arithmetic overflow'')) (\<lambda>minimum.
             Inr (locks\<lparr>sl_minimum_height := max (sl_minimum_height locks) minimum\<rparr>))
           else
             and_then (median_time_past_of (sat_sub coin_height 1)) (\<lambda>median_time.
             and_then (ok_or (Option.bind (i64_checked_shl relative sequence_granularity)
               (\<lambda>value. i64_checked_sub value 1))
               (Authorization ''relative time lock arithmetic overflow'')) (\<lambda>relative_seconds.
             and_then (ok_or (Option.bind (i64_range (uint median_time))
               (\<lambda>time. i64_checked_add time relative_seconds))
               (Authorization ''relative time lock arithmetic overflow'')) (\<lambda>minimum.
             Inr (locks\<lparr>sl_minimum_time := max (sl_minimum_time locks) minimum\<rparr>))))))"

definition calculate_sequence_locks ::
  "(outpoint \<Rightarrow> consensus_error + u32 option) \<Rightarrow> (u32 \<Rightarrow> consensus_error + u64) \<Rightarrow> transaction \<Rightarrow> u32 \<Rightarrow>
   consensus_error + sequence_lock" where
  "calculate_sequence_locks coin_height_of median_time_past_of tx next_height =
     (if locks_is_coinbase tx then Inr sequence_lock_none
      else fold_res (sequence_step coin_height_of median_time_past_of next_height) (tx_inputs tx)
        sequence_lock_none)"

definition verify_sequence_locks ::
  "(outpoint \<Rightarrow> consensus_error + u32 option) \<Rightarrow> (u32 \<Rightarrow> consensus_error + u64) \<Rightarrow> transaction \<Rightarrow> u32 \<Rightarrow> u64 \<Rightarrow>
   consensus_error + bool" where
  "verify_sequence_locks coin_height_of median_time_past_of tx next_height parent_median_time =
     and_then (calculate_sequence_locks coin_height_of median_time_past_of tx next_height) (\<lambda>locks.
     Inr (is_satisfied_by locks next_height parent_median_time))"

subsection \<open>The lock of one input\<close>

text \<open>
  With \<open>hts\<close> the heights of coins and \<open>mtps\<close> the median times by height, the relative lock of an
  input asks for a number of blocks, or of 512-second steps, since its coin.
\<close>

definition coin_at :: "(outpoint \<Rightarrow> u32 option) \<Rightarrow> u32 \<Rightarrow> txin \<Rightarrow> u32" where
  "coin_at hts next_height input = (case hts (in_prevout input) of Some h \<Rightarrow> h | None \<Rightarrow> next_height)"

definition input_lock_met :: "(outpoint \<Rightarrow> u32 option) \<Rightarrow> (u32 \<Rightarrow> u64) \<Rightarrow> u32 \<Rightarrow> u64 \<Rightarrow> txin \<Rightarrow> bool" where
  "input_lock_met hts mtps next_height time input \<longleftrightarrow>
     bit (in_sequence input) 31 \<or>
     (if bit (in_sequence input) 22
      then unat (mtps (sat_sub (coin_at hts next_height input) 1)) + unat (in_sequence input) mod 2 ^ 16 * 512
        \<le> unat time
      else unat (coin_at hts next_height input) + unat (in_sequence input) mod 2 ^ 16 \<le> unat next_height)"

lemma sequence_bits:
  fixes s :: u32
  shows "s AND sequence_disable_flag \<noteq> 0 \<longleftrightarrow> bit s 31" and "s AND sequence_type_flag = 0 \<longleftrightarrow> \<not> bit s 22"
    and "unat (s AND sequence_mask) = unat s mod 2 ^ 16" and "uint (s AND sequence_mask) = int (unat s mod 2 ^ 16)"
proof -
  show "s AND sequence_disable_flag \<noteq> 0 \<longleftrightarrow> bit s 31" "s AND sequence_type_flag = 0 \<longleftrightarrow> \<not> bit s 22"
    by (simp_all only: sequence_disable_flag_def sequence_type_flag_def push_bit_of_1 and_exp_eq_0_iff_not_bit not_not)
  show m: "unat (s AND sequence_mask) = unat s mod 2 ^ 16"
    using unat_and_mask [of s 16] by (simp add: sequence_mask_def mask_eq_exp_minus_1)
  show "uint (s AND sequence_mask) = int (unat s mod 2 ^ 16)"
    using m by (simp only: uint_nat)
qed

lemma is_satisfied_by_iff:
  "is_satisfied_by lock h t \<longleftrightarrow> sl_minimum_height lock < int (unat h) \<and> sl_minimum_time lock < int (unat t)"
proof -
  have "x < 0 \<or> x < int n \<longleftrightarrow> x < int n" for x n by linarith
  then show ?thesis unfolding is_satisfied_by_def by (simp only: uint_nat)
qed

lemma i64_small: "i64_range (int n) = Some (int n)" "i64_range (int n - 1) = Some (int n - 1)"
  if "n < 2 ^ 63"
  using that by (simp_all add: i64_range_def)

lemma sequence_step_height:
  assumes "coin_height_of (in_prevout input) = Inr (hts (in_prevout input))"
    and "\<not> bit (in_sequence input) 31" and "\<not> bit (in_sequence input) 22"
  shows "sequence_step coin_height_of median_time_past_of next_height input locks = Inr (locks\<lparr>sl_minimum_height :=
    max (sl_minimum_height locks)
      (int (unat (coin_at hts next_height input) + unat (in_sequence input) mod 2 ^ 16) - 1)\<rparr>)"
proof -
  define n where "n = unat (coin_at hts next_height input) + unat (in_sequence input) mod 2 ^ 16"
  have "unat (in_sequence input) mod 2 ^ 16 < 2 ^ 16" by simp
  then have n: "n < 2 ^ 63" using unat_less_2_32 [of "coin_at hts next_height input"] by (simp add: n_def)
  have sum: "uint (coin_at hts next_height input) + int (unat (in_sequence input) mod 2 ^ 16) = int n"
    by (simp only: n_def uint_nat of_nat_add)
  have "Option.bind (i64_checked_add (uint (coin_at hts next_height input)) (int (unat (in_sequence input) mod 2 ^ 16)))
      (\<lambda>value. i64_checked_sub value 1) = Some (int n - 1)"
    unfolding i64_checked_add_def i64_checked_sub_def sum i64_small(1) [OF n] bind.simps by (rule i64_small(2) [OF n])
  with assms show ?thesis
    by (simp only: sequence_step_def Let_def sequence_bits and_then.simps coin_at_def [symmetric]
        n_def [symmetric] ok_or_simps if_False if_True simp_thms)
qed

lemma sequence_step_time:
  assumes "coin_height_of (in_prevout input) = Inr (hts (in_prevout input))"
    and "\<And>h. median_time_past_of h = Inr (mtps h)" and "\<And>h. unat (mtps h) < 2 ^ 62"
    and "\<not> bit (in_sequence input) 31" and "bit (in_sequence input) 22"
  shows "sequence_step coin_height_of median_time_past_of next_height input locks = Inr (locks\<lparr>sl_minimum_time :=
    max (sl_minimum_time locks)
      (int (unat (mtps (sat_sub (coin_at hts next_height input) 1)) + unat (in_sequence input) mod 2 ^ 16 * 512) - 1)\<rparr>)"
proof -
  define t where "t = mtps (sat_sub (coin_at hts next_height input) 1)"
  define k where "k = unat (in_sequence input) mod 2 ^ 16"
  have k: "k < 2 ^ 16" by (simp add: k_def)
  then have shl: "i64_checked_shl (int k) sequence_granularity = Some (int (k * 512))"
    by (simp add: i64_checked_shl_def sequence_granularity_def signed_take_bit_int_eq_self)
  have range: "k * 512 < 2 ^ 63" "unat t < 2 ^ 63" "unat t + k * 512 < 2 ^ 63"
    using k assms(3) [of "sat_sub (coin_at hts next_height input) 1"] by (simp_all add: t_def)
  have "Option.bind (i64_checked_shl (int k) sequence_granularity) (\<lambda>value. i64_checked_sub value 1) =
      Some (int (k * 512) - 1)"
    unfolding shl bind.simps i64_checked_sub_def by (rule i64_small(2) [OF range(1)])
  moreover have "Option.bind (i64_range (uint t)) (\<lambda>time. i64_checked_add time (int (k * 512) - 1)) =
      Some (int (unat t + k * 512) - 1)"
  proof -
    have "int (unat t) + (int (k * 512) - 1) = int (unat t + k * 512) - 1" by (simp only: of_nat_add)
    then show ?thesis
      unfolding uint_nat i64_small(1) [OF range(2)] bind.simps i64_checked_add_def
      by (simp only: i64_small(2) [OF range(3)])
  qed
  ultimately show ?thesis
    using assms(1,2,4,5)
    by (simp only: sequence_step_def Let_def sequence_bits and_then.simps coin_at_def [symmetric]
        k_def [symmetric] t_def [symmetric] ok_or_simps if_False if_True simp_thms)
qed

lemma sequence_step_met:
  assumes "\<And>p. coin_height_of p = Inr (hts p)" and "\<And>h. median_time_past_of h = Inr (mtps h)"
    and "\<And>h. unat (mtps h) < 2 ^ 62"
  shows "\<exists>locks'. sequence_step coin_height_of median_time_past_of next_height input locks = Inr locks' \<and>
    is_satisfied_by locks' next_height time =
      (is_satisfied_by locks next_height time \<and> input_lock_met hts mtps next_height time input)"
proof -
  have below: "int n - 1 < uint w \<longleftrightarrow> n \<le> unat w" for n and w :: "'a::len word"
  proof -
    have "int n - 1 < int (unat w) \<longleftrightarrow> n \<le> unat w" by linarith
    then show ?thesis by (simp only: uint_nat)
  qed
  consider "bit (in_sequence input) 31" | "\<not> bit (in_sequence input) 31" "\<not> bit (in_sequence input) 22"
    | "\<not> bit (in_sequence input) 31" "bit (in_sequence input) 22" by blast
  then show ?thesis
  proof cases
    case 1
    then have "sequence_step coin_height_of median_time_past_of next_height input locks = Inr locks"
      unfolding sequence_step_def Let_def sequence_bits by simp
    with 1 show ?thesis by (simp add: input_lock_met_def)
  next
    case 2
    from sequence_step_height [of coin_height_of input hts, OF assms(1) 2] 2 show ?thesis
      by (auto simp: is_satisfied_by_iff input_lock_met_def below simp del: of_nat_add)
  next
    case 3
    from sequence_step_time [of coin_height_of input hts, OF assms(1-3) 3] 3 show ?thesis
      by (auto simp: is_satisfied_by_iff input_lock_met_def below simp del: of_nat_add)
  qed
qed


lemma sequence_fold_met:
  assumes "\<And>p. coin_height_of p = Inr (hts p)" and "\<And>h. median_time_past_of h = Inr (mtps h)"
    and "\<And>h. unat (mtps h) < 2 ^ 62"
  shows "\<exists>locks'. fold_res (sequence_step coin_height_of median_time_past_of next_height) inputs locks = Inr locks' \<and>
    is_satisfied_by locks' next_height time =
      (is_satisfied_by locks next_height time \<and> list_all (input_lock_met hts mtps next_height time) inputs)"
proof (induction inputs arbitrary: locks)
  case (Cons input inputs)
  obtain locks1 where "sequence_step coin_height_of median_time_past_of next_height input locks = Inr locks1"
    "is_satisfied_by locks1 next_height time =
      (is_satisfied_by locks next_height time \<and> input_lock_met hts mtps next_height time input)"
    using sequence_step_met [of coin_height_of hts median_time_past_of mtps, OF assms] by blast
  with Cons.IH [of locks1] show ?case by auto
qed simp

lemma verify_sequence_locks_eq:
  assumes "\<And>p. coin_height_of p = Inr (hts p)" and "\<And>h. median_time_past_of h = Inr (mtps h)"
    and "\<And>h. unat (mtps h) < 2 ^ 62" and "\<not> locks_is_coinbase tx"
  shows "verify_sequence_locks coin_height_of median_time_past_of tx next_height time =
    Inr (list_all (input_lock_met hts mtps next_height time) (tx_inputs tx))"
proof -
  have "is_satisfied_by sequence_lock_none next_height time"
    by (simp add: is_satisfied_by_def sequence_lock_none_def)
  with sequence_fold_met [of coin_height_of hts median_time_past_of mtps, OF assms(1-3),
      of next_height "tx_inputs tx" sequence_lock_none time]
    assms(4)
  show ?thesis by (auto simp: verify_sequence_locks_def calculate_sequence_locks_def)
qed

text \<open>
  C26: relative locks.  With a view of the chain that answers, and median times below \<open>2 ^ 62\<close>
  seconds, the check of the sequence locks of a transaction that is no coinbase neither overflows nor fails: it accepts
  exactly when the lock of every input is met.  The lock of an input is disabled by bit 31 of its
  sequence; otherwise the low 16 bits ask for so many blocks since the coin's height, or, with bit
  22 set, for so many steps of 512 seconds since the median time before the coin's block.
\<close>

theorem sequence_locks_exact:
  assumes "\<And>p. coin_height_of p = Inr (hts p)" and "\<And>h. median_time_past_of h = Inr (mtps h)"
    and "\<And>h. unat (mtps h) < 2 ^ 62" and "\<not> locks_is_coinbase tx"
  shows "verify_sequence_locks coin_height_of median_time_past_of tx next_height time =
    Inr (list_all (input_lock_met hts mtps next_height time) (tx_inputs tx))"
  by (rule verify_sequence_locks_eq) (fact assms)+

definition example_locked :: "u32 \<Rightarrow> transaction" where
  "example_locked s = \<lparr>tx_version = 0,
     tx_inputs = [\<lparr>in_prevout = \<lparr>op_txid = replicate 32 1, op_index = 0\<rparr>, in_sequence = s, in_witness = []\<rparr>],
     tx_outputs = [], tx_locktime = 100\<rparr>"

theorem sequence_locks_exact_witness:
  "verify_sequence_locks (\<lambda>p. Inr (Some 90)) (\<lambda>h. Inr 1600000000) (example_locked 10) 100 0 = Inr True \<and>
   verify_sequence_locks (\<lambda>p. Inr (Some 90)) (\<lambda>h. Inr 1600000000) (example_locked 11) 100 0 = Inr False"
proof -
  have "\<not> locks_is_coinbase (example_locked s)" for s
    by (simp add: locks_is_coinbase_def example_locked_def zero_hash_def)
  from sequence_locks_exact [of "\<lambda>p. Inr (Some 90)" "\<lambda>p. Some 90" "\<lambda>h. Inr 1600000000" "\<lambda>h. 1600000000",
      OF _ _ _ this]
  show ?thesis by (simp add: input_lock_met_def coin_at_def example_locked_def bit_numeral_rec)
qed

lemma and_exp_eq_iff:
  fixes a b :: "'a::len word"
  assumes "n < LENGTH('a)"
  shows "a AND 2 ^ n = b AND 2 ^ n \<longleftrightarrow> (bit a n \<longleftrightarrow> bit b n)"
proof
  assume "a AND 2 ^ n = b AND 2 ^ n"
  then have "bit (a AND 2 ^ n) n = bit (b AND 2 ^ n) n" by simp
  with assms show "bit a n \<longleftrightarrow> bit b n" by (simp add: bit_and_iff bit_exp_iff)
next
  assume "bit a n \<longleftrightarrow> bit b n"
  then show "a AND 2 ^ n = b AND 2 ^ n" by (intro bit_eqI) (auto simp: bit_and_iff bit_exp_iff)
qed

lemma flag_31_eq: "a AND locktime_flag = b AND locktime_flag \<longleftrightarrow> (bit a 31 \<longleftrightarrow> bit b 31)" for a b :: u32
  unfolding locktime_flag_def push_bit_of_1 by (rule and_exp_eq_iff) simp

lemma flag_22_eq: "a AND sequence_type_flag = b AND sequence_type_flag \<longleftrightarrow> (bit a 22 \<longleftrightarrow> bit b 22)" for a b :: u32
  unfolding sequence_type_flag_def push_bit_of_1 by (rule and_exp_eq_iff) simp

lemma zero_below_31:
  assumes "\<not> bit (p :: u32) 31" and "unat p mod 2 ^ 31 = 0"
  shows "p = 0"
proof -
  have "bit (unat p) 31 \<longleftrightarrow> bit p 31" by (simp add: bit_unsigned_iff)
  then have "\<not> odd (unat p div 2 ^ 31)" using assms(1) by (simp only: bit_iff_odd [of "unat p"]) blast
  moreover have "unat p div 2 ^ 31 < 2" using unat_less_2_32 [of p] by (simp add: less_mult_imp_div_less)
  ultimately have "unat p div 2 ^ 31 = 0" by (cases "unat p div 2 ^ 31 = 1") auto
  with assms(2) have "unat p = 0" using div_mult_mod_eq [of "unat p" "2 ^ 31"] by simp
  then show ?thesis by (simp add: unat_eq_zero)
qed

lemma locktime_predicate_iff:
  "verify_locktime_predicate tx i p \<longleftrightarrow> i < length (tx_inputs tx) \<and> (bit (tx_locktime tx) 31 = bit p 31) \<and>
     unat p mod 2 ^ 31 \<le> unat (tx_locktime tx) mod 2 ^ 31 \<and> in_sequence (tx_inputs tx ! i) \<noteq> - 1"
  by (auto simp: verify_locktime_predicate_def get_def flag_31_eq word_less_nat_alt unat_locktime_mask)

lemma sequence_predicate_iff:
  "verify_sequence_predicate tx i p \<longleftrightarrow> i < length (tx_inputs tx) \<and> (bit p 31 \<or>
     \<not> bit (in_sequence (tx_inputs tx ! i)) 31 \<and> (bit (in_sequence (tx_inputs tx ! i)) 22 = bit p 22) \<and>
     unat p mod 2 ^ 16 \<le> unat (in_sequence (tx_inputs tx ! i)) mod 2 ^ 16)"
  unfolding verify_sequence_predicate_def sequence_bits flag_22_eq word_le_nat_alt by (auto simp: get_def)

text \<open>
  C36: lock opcodes mean what they say.  If an absolute lock \<open>p\<close> passes the predicate of
  \<^verbatim>\<open>OP_CHECKLOCKTIMEVERIFY\<close> and the transaction is final, then that height or time has passed, even
  though finality is only checked for the transaction as a whole.  If a relative lock passes
  the predicate of \<^verbatim>\<open>OP_CHECKSEQUENCEVERIFY\<close> and the sequence locks are met, then so many
  blocks, or 512-second steps, lie between the coin and the new block.
\<close>

theorem lock_opcodes_sound:
  assumes "\<And>p. coin_height_of p = Inr (hts p)" and "\<And>h. median_time_past_of h = Inr (mtps h)"
    and "\<And>h. unat (mtps h) < 2 ^ 62" and "\<not> locks_is_coinbase tx"
  shows "(verify_locktime_predicate tx i p \<and> is_final_transaction tx height time \<and> p \<noteq> 0 \<longrightarrow>
      unat p mod 2 ^ 31 < (if bit p 31 then unat time else unat height)) \<and>
    (verify_sequence_predicate tx i p \<and> \<not> bit p 31 \<and>
      verify_sequence_locks coin_height_of median_time_past_of tx height time = Inr True \<longrightarrow>
      (let coin = coin_at hts height (tx_inputs tx ! i)
       in if bit p 22 then unat (mtps (sat_sub coin 1)) + unat p mod 2 ^ 16 * 512 \<le> unat time
          else unat coin + unat p mod 2 ^ 16 \<le> unat height))"
proof (intro conjI impI)
  assume cltv: "verify_locktime_predicate tx i p \<and> is_final_transaction tx height time \<and> p \<noteq> 0"
  then have pred: "i < length (tx_inputs tx)" "bit (tx_locktime tx) 31 = bit p 31"
    "unat p mod 2 ^ 31 \<le> unat (tx_locktime tx) mod 2 ^ 31" "in_sequence (tx_inputs tx ! i) \<noteq> - 1"
    by (auto simp only: locktime_predicate_iff)
  have "tx_locktime tx \<noteq> 0" using pred(2,3) cltv zero_below_31 [of p] by auto
  moreover have "\<not> (\<forall>input \<in> set (tx_inputs tx). in_sequence input = - 1)" using pred(1,4) nth_mem by blast
  ultimately have "unat (tx_locktime tx) mod 2 ^ 31 < (if bit (tx_locktime tx) 31 then unat time else unat height)"
    using cltv by (simp only: is_final_iff) blast
  from le_less_trans [OF pred(3) this]
  show "unat p mod 2 ^ 31 < (if bit p 31 then unat time else unat height)" by (simp only: pred(2))
next
  assume csv: "verify_sequence_predicate tx i p \<and> \<not> bit p 31 \<and>
    verify_sequence_locks coin_height_of median_time_past_of tx height time = Inr True"
  let ?s = "in_sequence (tx_inputs tx ! i)"
  from csv have pred: "i < length (tx_inputs tx)" "\<not> bit ?s 31" "bit ?s 22 = bit p 22"
    "unat p mod 2 ^ 16 \<le> unat ?s mod 2 ^ 16" by (auto simp only: sequence_predicate_iff)
  have "list_all (input_lock_met hts mtps height time) (tx_inputs tx)"
    using csv verify_sequence_locks_eq [of coin_height_of hts median_time_past_of mtps, OF assms] by simp
  then have "input_lock_met hts mtps height time (tx_inputs tx ! i)" using pred(1) by (simp add: list_all_length)
  with pred(2-4) show "let coin = coin_at hts height (tx_inputs tx ! i)
       in if bit p 22 then unat (mtps (sat_sub coin 1)) + unat p mod 2 ^ 16 * 512 \<le> unat time
          else unat coin + unat p mod 2 ^ 16 \<le> unat height"
    unfolding input_lock_met_def Let_def by (auto split: if_splits)
qed

theorem lock_opcodes_sound_witness:
  "unat (10 :: u32) mod 2 ^ 31 < unat (101 :: u32) \<and> unat (90 :: u32) + unat (10 :: u32) mod 2 ^ 16 \<le> unat (101 :: u32)"
proof -
  have coinbase: "\<not> locks_is_coinbase (example_locked 10)"
    by (simp add: locks_is_coinbase_def example_locked_def zero_hash_def)
  have "verify_locktime_predicate (example_locked 10) 0 10" "is_final_transaction (example_locked 10) 101 0"
    "verify_sequence_predicate (example_locked 10) 0 10" "\<not> bit (10 :: u32) 31" "\<not> bit (10 :: u32) 22"
    "verify_sequence_locks (\<lambda>p. Inr (Some 90)) (\<lambda>h. Inr 1600000000) (example_locked 10) 101 0 = Inr True"
    by code_simp+
  with lock_opcodes_sound [of "\<lambda>p. Inr (Some 90)" "\<lambda>p. Some 90" "\<lambda>h. Inr 1600000000" "\<lambda>h. 1600000000",
      OF _ _ _ coinbase, of 0 10 101 0]
  show ?thesis by (simp add: coin_at_def)
qed

end
