(* ===== verification/Name_Rules.thy ===== *)
theory Name_Rules
  imports Block_Rules
begin

unbundle bit_operations_syntax

text \<open>
  The contextual rules for names, \<^verbatim>\<open>crates/hns-consensus/src/name.rs\<close>: the lifecycle of a name, expiry,
  rollout, the lookup in the reserved and lockup databases, renewal and transfer windows, and the
  transition of the name state for every kind of covenant.

  The two databases are files the crate includes; they are parameters, like the hash functions and
  the lookups into the active chain, bundled in the record \<open>name_env\<close>.  The code changes the name
  state through a mutable reference, also on paths that then fail; so an operation of the model
  returns a result together with the state it leaves behind.
\<close>

subsection \<open>Parameters\<close>

record name_env =
  ne_blake2b :: "bytes \<Rightarrow> bytes"
  ne_sha3 :: "bytes \<Rightarrow> bytes"
  ne_reserved_db :: bytes
  ne_lockup_db :: bytes
  ne_main_chain_height :: "bytes \<Rightarrow> consensus_error + u32 option"
  ne_is_historical_height :: "u32 \<Rightarrow> bool"

subsection \<open>Databases\<close>

definition byte_slice :: "bytes \<Rightarrow> nat \<Rightarrow> nat \<Rightarrow> bytes option" where
  "byte_slice bs from to = (if from \<le> to \<and> to \<le> length bs then Some (take (to - from) (drop from bs)) else None)"

definition db_read_u32 :: "bytes \<Rightarrow> nat \<Rightarrow> u32 option" where
  "db_read_u32 bs offset =
     Option.bind (usize_checked_add offset 4) (\<lambda>end_offset.
     map_option from_le_bytes (byte_slice bs offset end_offset))"

definition db_read_u64 :: "bytes \<Rightarrow> nat \<Rightarrow> u64 option" where
  "db_read_u64 bs offset =
     Option.bind (usize_checked_add offset 8) (\<lambda>end_offset.
     map_option from_le_bytes (byte_slice bs offset end_offset))"

function database_find_loop :: "bytes \<Rightarrow> nat \<Rightarrow> bytes \<Rightarrow> nat \<Rightarrow> nat \<Rightarrow> u32 option" where
  "database_find_loop database prefix_size hash start end_index =
     (if start \<le> end_index then
        let index = start + (end_index - start) div 2 in
        Option.bind (usize_checked_mul index 36) (\<lambda>scaled.
        Option.bind (usize_checked_add prefix_size scaled) (\<lambda>position.
        Option.bind (usize_checked_add position 32) (\<lambda>key_end.
        Option.bind (byte_slice database position key_end) (\<lambda>candidate.
        if candidate = hash then db_read_u32 database (position + 32)
        else if bytes_le candidate hash
        then database_find_loop database prefix_size hash (usize_sat_add index 1) end_index
        else if index = 0 then None
        else database_find_loop database prefix_size hash start (index - 1)))))
      else None)"
  by pat_completeness auto
termination
  by (relation "measure (\<lambda>(database, prefix_size, hash, start, end_index). end_index + 1 - start)")
    (auto simp: usize_checked_mul_def usize_sat_add_def min_def usize_max_def split: if_splits)

declare database_find_loop.simps [simp del]

definition database_find :: "bytes \<Rightarrow> nat \<Rightarrow> bytes \<Rightarrow> u32 option" where
  "database_find database prefix_size hash =
     Option.bind (db_read_u32 database 0) (\<lambda>size.
     if unat size = 0 then None
     else database_find_loop database prefix_size hash 0 (unat size - 1))"

definition database_contains :: "bytes \<Rightarrow> nat \<Rightarrow> bytes \<Rightarrow> bool" where
  "database_contains database prefix_size hash \<longleftrightarrow> database_find database prefix_size hash \<noteq> None"

record reserved_name_entry =
  rn_name :: bytes
  rn_target :: bytes
  rn_value :: u64
  rn_root :: bool

definition to_ascii_lowercase :: "u8 \<Rightarrow> u8" where
  "to_ascii_lowercase b = (if 65 \<le> b \<and> b \<le> 90 then b + 32 else b)"

definition add_reserved_value :: "bool \<Rightarrow> u64 option \<Rightarrow> u64 \<Rightarrow> u64 option" where
  "add_reserved_value selected addend value =
     (if selected then Option.bind addend (checked_add value) else Some value)"

definition reserved_name :: "(bytes \<Rightarrow> bytes) \<Rightarrow> bytes \<Rightarrow> bytes \<Rightarrow> reserved_name_entry option" where
  "reserved_name S db name =
     (if name = [] \<or> length name > 63 \<or> \<not> list_all (\<lambda>b. b < 0x80) name then None
      else
        let normalized = map to_ascii_lowercase name; hash = S normalized in
        Option.bind (database_find db 28 hash) (\<lambda>found.
        let position = unat found in
        Option.bind (get db position) (\<lambda>target_size.
        Option.bind (usize_checked_add position 1) (\<lambda>target_start.
        Option.bind (usize_checked_add target_start (unat target_size)) (\<lambda>target_end.
        Option.bind (byte_slice db target_start target_end) (\<lambda>target.
        Option.bind (get db target_end) (\<lambda>flags.
        Option.bind (usize_checked_add target_end 1) (\<lambda>size_at.
        Option.bind (get db size_at) (\<lambda>name_size.
        if unat name_size > length target \<or> take (unat name_size) target \<noteq> normalized then None
        else
          Option.bind (db_read_u64 db 4) (\<lambda>value.
          Option.bind (add_reserved_value (flags AND 1 \<noteq> 0) (db_read_u64 db 12) value) (\<lambda>value.
          Option.bind (add_reserved_value (flags AND 2 \<noteq> 0) (db_read_u64 db 20) value) (\<lambda>value.
          Option.bind (add_reserved_value (flags AND 4 \<noteq> 0)
            (Option.bind (usize_checked_add target_end 2) (db_read_u64 db)) value) (\<lambda>value.
          Some \<lparr>rn_name = normalized, rn_target = target,
            rn_value = (if flags AND 8 \<noteq> 0 then 0 else value), rn_root = (flags AND 1 \<noteq> 0)\<rparr>)))))))))))))"

subsection \<open>Lifecycle\<close>

definition name_lifecycle :: "name_state \<Rightarrow> u32 \<Rightarrow> name_params \<Rightarrow> name_lifecycle_state" where
  "name_lifecycle state height p =
     (if ns_revoked state \<noteq> 0 then LcRevoked
      else if ns_claimed state \<noteq> 0 then
        if height < sat_add (ns_height state) (nmp_lockup_period p) then LcLocked else LcClosed
      else
        let open_period = sat_add (nmp_tree_interval p) 1 in
        if height < sat_add (ns_height state) open_period then LcOpening
        else if height < sat_add (sat_add (ns_height state) open_period) (nmp_bidding_period p)
        then LcBidding
        else if height < sat_add (sat_add (sat_add (ns_height state) open_period) (nmp_bidding_period p))
          (nmp_reveal_period p)
        then LcReveal
        else LcClosed)"

definition is_name_claimable :: "name_state \<Rightarrow> u32 \<Rightarrow> name_params \<Rightarrow> bool" where
  "is_name_claimable state height p \<longleftrightarrow>
     ns_claimed state \<noteq> 0 \<and> \<not> nmp_no_reserved p \<and> height < nmp_claim_period p"

definition is_name_expired :: "name_state \<Rightarrow> u32 \<Rightarrow> name_params \<Rightarrow> bool" where
  "is_name_expired state height p =
     (if ns_revoked state \<noteq> 0 then height \<ge> sat_add (ns_revoked state) (nmp_auction_maturity p)
      else if name_lifecycle state height p \<noteq> LcClosed then False
      else if is_name_claimable state height p then False
      else if height \<ge> sat_add (ns_renewal state) (nmp_renewal_window p) then True
      else outpoint_is_null (ns_owner state))"

definition maybe_expire_name :: "name_state \<Rightarrow> u32 \<Rightarrow> name_params \<Rightarrow> bool \<times> name_state" where
  "maybe_expire_name state height p =
     (if \<not> is_name_expired state height p then (False, state)
      else (True, (name_state_reset height state)\<lparr>ns_expired := True, ns_data := ns_data state\<rparr>))"

definition mod_buffer :: "bytes \<Rightarrow> u32 \<Rightarrow> u32" where
  "mod_buffer bytes modulus =
     (let factor = 256 mod modulus
      in fold (\<lambda>byte accumulator. (factor * accumulator + ucast byte) mod modulus) bytes 0)"

definition rollout_height :: "bytes \<Rightarrow> name_params \<Rightarrow> u32" where
  "rollout_height name_hash p =
     (if nmp_no_rollout p then 0
      else
        let week = mod_buffer name_hash 52
        in sat_add (nmp_auction_start p) (sat_mul week (nmp_rollout_interval p)))"

definition has_rollout :: "bytes \<Rightarrow> u32 \<Rightarrow> name_params \<Rightarrow> bool" where
  "has_rollout name_hash height p \<longleftrightarrow> height \<ge> rollout_height name_hash p"

definition is_reserved :: "bytes \<Rightarrow> bytes \<Rightarrow> u32 \<Rightarrow> name_params \<Rightarrow> bool" where
  "is_reserved reserved_db name_hash height p =
     (if nmp_no_reserved p \<or> height \<ge> nmp_claim_period p then False
      else database_contains reserved_db 28 name_hash)"

definition is_locked_up :: "bytes \<Rightarrow> bytes \<Rightarrow> u32 \<Rightarrow> name_params \<Rightarrow> bool" where
  "is_locked_up lockup_db name_hash height p =
     (if nmp_no_reserved p \<or> height < nmp_claim_period p then False
      else
        case database_find lockup_db 4 name_hash of
          None \<Rightarrow> False
        | Some pointer \<Rightarrow>
            (case get lockup_db (unat pointer) of
               None \<Rightarrow> False
             | Some name_len \<Rightarrow>
                 let flags_offset = usize_sat_add (usize_sat_add (unat pointer) 1) (unat name_len) in
                 (case get lockup_db flags_offset of
                    None \<Rightarrow> False
                  | Some flags \<Rightarrow> flags AND 1 \<noteq> 0 \<or> height < nmp_alexa_lockup_period p)))"

subsection \<open>Renewals and transfers\<close>

definition renewal_commitment_height_is_valid :: "u32 \<Rightarrow> u32 \<Rightarrow> name_params \<Rightarrow> bool" where
  "renewal_commitment_height_is_valid committed_height candidate_height p =
     (if candidate_height < nmp_renewal_maturity p then True
      else committed_height \<le> sat_sub candidate_height (nmp_renewal_maturity p) \<and>
        committed_height \<ge> sat_sub candidate_height (nmp_renewal_period p))"

definition verify_renewal_commitment ::
  "name_env \<Rightarrow> bytes \<Rightarrow> u32 \<Rightarrow> name_params \<Rightarrow> consensus_error + bool" where
  "verify_renewal_commitment env hash height p =
     (if height < nmp_renewal_maturity p then Inr True
      else
        and_then (ne_main_chain_height env hash) (\<lambda>found.
        case found of
          None \<Rightarrow> Inr False
        | Some committed_height \<Rightarrow> Inr (renewal_commitment_height_is_valid committed_height height p)))"

definition hsd_wallet_renewal_height :: "u32 \<Rightarrow> name_params \<Rightarrow> u32" where
  "hsd_wallet_renewal_height tip_height p = sat_sub tip_height (sat_mul (nmp_renewal_maturity p) 2)"

definition transfer_maturity_height :: "u32 \<Rightarrow> name_params \<Rightarrow> u32" where
  "transfer_maturity_height transfer_height p = sat_add transfer_height (nmp_transfer_lockup p)"

definition is_transfer_mature :: "u32 \<Rightarrow> u32 \<Rightarrow> name_params \<Rightarrow> bool" where
  "is_transfer_mature transfer_height candidate_height p \<longleftrightarrow>
     transfer_height \<noteq> 0 \<and> candidate_height \<ge> transfer_maturity_height transfer_height p"


subsection \<open>Actions on a name state\<close>

type_synonym 'a name_action = "name_state \<Rightarrow> (consensus_error + 'a) \<times> name_state"

definition na_bind :: "'a name_action \<Rightarrow> ('a \<Rightarrow> 'b name_action) \<Rightarrow> 'b name_action" where
  "na_bind m f = (\<lambda>s. case m s of (Inl e, s') \<Rightarrow> (Inl e, s') | (Inr x, s') \<Rightarrow> f x s')"

definition na_lift :: "consensus_error + 'a \<Rightarrow> 'a name_action" where
  "na_lift r = (\<lambda>s. (r, s))"

definition na_return :: "'a \<Rightarrow> 'a name_action" where
  "na_return x = na_lift (Inr x)"

definition na_guard :: "(name_state \<Rightarrow> bool) \<Rightarrow> (name_state \<Rightarrow> string) \<Rightarrow> unit name_action" where
  "na_guard P msg = (\<lambda>s. (ensure (P s) (ContextualCovenant (msg s)), s))"

definition na_update :: "(name_state \<Rightarrow> name_state) \<Rightarrow> unit name_action" where
  "na_update f = (\<lambda>s. (Inr (), f s))"

subsection \<open>Messages\<close>

fun debug_lifecycle :: "name_lifecycle_state \<Rightarrow> string" where
  "debug_lifecycle LcOpening = ''Opening''"
| "debug_lifecycle LcLocked = ''Locked''"
| "debug_lifecycle LcBidding = ''Bidding''"
| "debug_lifecycle LcReveal = ''Reveal''"
| "debug_lifecycle LcClosed = ''Closed''"
| "debug_lifecycle LcRevoked = ''Revoked''"

fun debug_kind :: "covenant_kind \<Rightarrow> string" where
  "debug_kind CovNone = ''None''"
| "debug_kind CovClaim = ''Claim''"
| "debug_kind (CovUnknown k) = ''Unknown('' @ decimal (unat k) @ '')''"
| "debug_kind CovOpen = ''Open''"
| "debug_kind CovBid = ''Bid''"
| "debug_kind CovReveal = ''Reveal''"
| "debug_kind CovRedeem = ''Redeem''"
| "debug_kind CovRegister = ''Register''"
| "debug_kind CovUpdate = ''Update''"
| "debug_kind CovRenew = ''Renew''"
| "debug_kind CovTransfer = ''Transfer''"
| "debug_kind CovFinalize = ''Finalize''"
| "debug_kind CovRevoke = ''Revoke''"

subsection \<open>Requirements\<close>

definition name_required_hash :: "bytes option \<Rightarrow> string \<Rightarrow> consensus_error + bytes" where
  "name_required_hash item label =
     ok_or (Option.bind item (\<lambda>b. if length b = 32 then Some b else None))
       (ContextualCovenant (''invalid or missing '' @ label))"

definition name_required_u32 :: "bytes option \<Rightarrow> string \<Rightarrow> consensus_error + u32" where
  "name_required_u32 item label =
     ok_or (Option.bind item (\<lambda>b. if length b = 4 then Some (from_le_bytes b) else None))
       (ContextualCovenant (''invalid or missing '' @ label))"

definition name_required_u8 :: "bytes option \<Rightarrow> string \<Rightarrow> consensus_error + u8" where
  "name_required_u8 item label =
     ok_or (Option.bind item (\<lambda>b. if length b = 1 then Some (b ! 0) else None))
       (ContextualCovenant (''invalid or missing '' @ label))"

definition require_lifecycle ::
  "name_lifecycle_state \<Rightarrow> name_lifecycle_state \<Rightarrow> string \<Rightarrow> unit name_action" where
  "require_lifecycle actual expected operation =
     na_guard (\<lambda>s. actual = expected) (\<lambda>s. operation @ '' requires '' @ debug_lifecycle expected @
       '' name state, got '' @ debug_lifecycle actual)"

definition require_start :: "u32 \<Rightarrow> string \<Rightarrow> unit name_action" where
  "require_start actual operation =
     na_guard (\<lambda>s. actual = ns_height s) (\<lambda>s. operation @ '' start height '' @ decimal (unat actual) @
       '' does not match name height '' @ decimal (unat (ns_height s)))"

definition linked_previous_output :: "transaction \<Rightarrow> nat \<Rightarrow> string \<Rightarrow> consensus_error + outpoint" where
  "linked_previous_output tx output_index operation =
     ok_or (map_option in_prevout (get (tx_inputs tx) output_index))
       (ContextualCovenant (operation @ '' is missing its linked input''))"

definition output_point :: "(bytes \<Rightarrow> bytes) \<Rightarrow> transaction \<Rightarrow> nat \<Rightarrow> string \<Rightarrow> consensus_error + outpoint" where
  "output_point H tx output_index msg =
     (if output_index < 2 ^ 32 then Inr \<lparr>op_txid = txid H tx, op_index = word_of_nat output_index\<rparr>
      else Inl (ContextualCovenant msg))"

definition transaction_outpoint :: "(bytes \<Rightarrow> bytes) \<Rightarrow> transaction \<Rightarrow> nat \<Rightarrow> consensus_error + outpoint" where
  "transaction_outpoint H tx output_index = output_point H tx output_index ''output index exceeds u32''"

definition binary_name_step :: "nat \<Rightarrow> nat \<times> u8 \<Rightarrow> consensus_error + unit" where
  "binary_name_step len entry =
     (let (index, byte) = entry;
          alpha = (97 \<le> byte \<and> byte \<le> 122);
          digit = (48 \<le> byte \<and> byte \<le> 57);
          separator = (byte = 45 \<or> byte = 95)
      in if \<not> (alpha \<or> digit \<or> separator)
         then Inl (ContextualCovenant ''OPEN contains an invalid name character'')
         else if separator \<and> (index = 0 \<or> index + 1 = len)
         then Inl (ContextualCovenant ''OPEN name begins or ends with a separator'')
         else Inr ())"

definition blacklist :: "bytes list" where
  "blacklist = map (map of_char) [''example'', ''invalid'', ''local'', ''localhost'', ''test'']"

definition verify_binary_name :: "bytes \<Rightarrow> consensus_error + unit" where
  "verify_binary_name name =
     (if name = [] \<or> length name > max_name_size
      then Inl (ContextualCovenant ''OPEN contains an invalid name length'')
      else
        and_then (fold_res (\<lambda>entry _. binary_name_step (length name) entry) (enumerate 0 name) ()) (\<lambda>_.
        if name \<in> set blacklist
        then Inl (ContextualCovenant ''OPEN targets a consensus-blacklisted name'')
        else Inr ()))"

subsection \<open>Transitions\<close>

datatype name_mutation = Unchanged | Changed

definition mutation_changed :: "name_mutation \<Rightarrow> bool" where
  "mutation_changed m \<longleftrightarrow> m = Changed"

definition renewal_guard :: "name_env \<Rightarrow> bytes option \<Rightarrow> u32 \<Rightarrow> name_params \<Rightarrow> string \<Rightarrow> unit name_action" where
  "renewal_guard env item height p msg =
     na_bind (na_lift (name_required_hash item ''renewal hash'')) (\<lambda>renewal_hash.
     na_bind (na_lift (verify_renewal_commitment env renewal_hash height p)) (\<lambda>valid.
     na_guard (\<lambda>s. valid) (\<lambda>s. msg)))"

definition set_data :: "covenant \<Rightarrow> unit name_action" where
  "set_data covenant =
     na_update (\<lambda>s. case cov_item covenant 2 of
       Some data \<Rightarrow> if data \<noteq> [] then s\<lparr>ns_data := data\<rparr> else s | None \<Rightarrow> s)"

definition increment_renewals :: "unit name_action" where
  "increment_renewals =
     (\<lambda>s. case checked_add (ns_renewals s) 1 of
        None \<Rightarrow> (Inl (ContextualCovenant ''name renewal counter overflow''), s)
      | Some n \<Rightarrow> (Inr (), s\<lparr>ns_renewals := n\<rparr>))"

definition apply_open ::
  "name_env \<Rightarrow> bytes \<Rightarrow> u32 \<Rightarrow> name_params \<Rightarrow> u32 \<Rightarrow> name_lifecycle_state \<Rightarrow> name_mutation name_action" where
  "apply_open env name_hash height p flags lifecycle =
     na_bind (require_lifecycle lifecycle LcOpening ''OPEN'') (\<lambda>_.
     na_bind (na_guard (\<lambda>s. ns_height s = height) (\<lambda>s. ''OPEN may initialize a name only once'')) (\<lambda>_.
     na_bind (na_guard (\<lambda>s. \<not> (\<not> ns_expired s \<and> is_reserved (ne_reserved_db env) name_hash height p))
       (\<lambda>s. ''OPEN targets a reserved name'')) (\<lambda>_.
     na_bind (na_guard (\<lambda>s. \<not> (flags_contains flags name_flags_lockup \<and>
         is_locked_up (ne_lockup_db env) name_hash height p))
       (\<lambda>s. ''OPEN targets an ICANN-locked name'')) (\<lambda>_.
     na_bind (na_guard (\<lambda>s. has_rollout name_hash height p)
       (\<lambda>s. ''OPEN precedes the name rollout height'')) (\<lambda>_.
     na_return Changed)))))"

definition apply_bid :: "u32 \<Rightarrow> bool \<Rightarrow> name_lifecycle_state \<Rightarrow> name_mutation name_action" where
  "apply_bid start expired lifecycle =
     na_bind (require_lifecycle lifecycle LcBidding ''BID'') (\<lambda>_.
     na_bind (require_start start ''BID'') (\<lambda>_.
     na_return (if expired then Changed else Unchanged)))"

definition reveal_update :: "u64 \<Rightarrow> outpoint \<Rightarrow> name_state \<Rightarrow> name_state" where
  "reveal_update value new_owner s =
     (if outpoint_is_null (ns_owner s) \<or> value > ns_highest s
      then s\<lparr>ns_value := ns_highest s, ns_owner := new_owner, ns_highest := value\<rparr>
      else if value > ns_value s then s\<lparr>ns_value := value\<rparr>
      else s)"

definition apply_reveal ::
  "name_env \<Rightarrow> transaction \<Rightarrow> nat \<Rightarrow> txout \<Rightarrow> u32 \<Rightarrow> name_lifecycle_state \<Rightarrow> name_mutation name_action" where
  "apply_reveal env tx output_index out start lifecycle =
     na_bind (require_start start ''REVEAL'') (\<lambda>_.
     na_bind (require_lifecycle lifecycle LcReveal ''REVEAL'') (\<lambda>_.
     na_bind (na_lift (output_point (ne_blake2b env) tx output_index ''REVEAL output index exceeds u32''))
       (\<lambda>new_owner.
     na_bind (na_update (reveal_update (out_value out) new_owner)) (\<lambda>_.
     na_return Changed))))"

definition apply_redeem ::
  "transaction \<Rightarrow> nat \<Rightarrow> u32 \<Rightarrow> bool \<Rightarrow> name_lifecycle_state \<Rightarrow> name_mutation name_action" where
  "apply_redeem tx output_index start expired lifecycle =
     na_bind (require_start start ''REDEEM'') (\<lambda>_.
     na_bind (na_guard (\<lambda>s. \<not> lifecycle < LcClosed) (\<lambda>s. ''REDEEM precedes the closed state'')) (\<lambda>_.
     na_bind (na_lift (linked_previous_output tx output_index ''REDEEM'')) (\<lambda>previous_output.
     na_bind (na_guard (\<lambda>s. previous_output \<noteq> ns_owner s)
       (\<lambda>s. ''the winning reveal cannot be redeemed'')) (\<lambda>_.
     na_return (if expired then Changed else Unchanged)))))"

definition apply_register ::
  "name_env \<Rightarrow> transaction \<Rightarrow> nat \<Rightarrow> txout \<Rightarrow> u32 \<Rightarrow> name_params \<Rightarrow> u32 \<Rightarrow> u32 \<Rightarrow> name_lifecycle_state \<Rightarrow>
   name_mutation name_action" where
  "apply_register env tx output_index out height p flags start lifecycle =
     na_bind (require_start start ''REGISTER'') (\<lambda>_.
     na_bind (require_lifecycle lifecycle LcClosed ''REGISTER'') (\<lambda>_.
     na_bind (na_lift (linked_previous_output tx output_index ''REGISTER'')) (\<lambda>previous_output.
     na_bind (na_guard (\<lambda>s. previous_output = ns_owner s)
       (\<lambda>s. ''REGISTER does not spend the winning reveal'')) (\<lambda>_.
     na_bind (na_guard (\<lambda>s. out_value out = ns_value s)
       (\<lambda>s. ''REGISTER value '' @ decimal (unat (out_value out)) @ '' does not equal second price '' @
         decimal (unat (ns_value s)))) (\<lambda>_.
     na_bind (renewal_guard env (cov_item (out_covenant out) 3) height p
       ''REGISTER renewal commitment is not on the permitted active-chain window'') (\<lambda>_.
     na_bind (na_guard (\<lambda>s. \<not> (is_name_claimable s height p \<and> flags_contains flags name_flags_hardened \<and> ns_weak s))
       (\<lambda>s. ''hardened covenant rules reject weak claimed-name registration'')) (\<lambda>_.
     na_bind (na_update (\<lambda>s. s\<lparr>ns_registered := True\<rparr>)) (\<lambda>_.
     na_bind (na_lift (transaction_outpoint (ne_blake2b env) tx output_index)) (\<lambda>owner.
     na_bind (na_update (\<lambda>s. s\<lparr>ns_owner := owner\<rparr>)) (\<lambda>_.
     na_bind (set_data (out_covenant out)) (\<lambda>_.
     na_bind (na_update (\<lambda>s. s\<lparr>ns_renewal := height\<rparr>)) (\<lambda>_.
     na_return Changed))))))))))))"

definition apply_update ::
  "name_env \<Rightarrow> transaction \<Rightarrow> nat \<Rightarrow> txout \<Rightarrow> u32 \<Rightarrow> name_lifecycle_state \<Rightarrow> name_mutation name_action" where
  "apply_update env tx output_index out start lifecycle =
     na_bind (require_start start ''UPDATE'') (\<lambda>_.
     na_bind (require_lifecycle lifecycle LcClosed ''UPDATE'') (\<lambda>_.
     na_bind (na_lift (transaction_outpoint (ne_blake2b env) tx output_index)) (\<lambda>owner.
     na_bind (na_update (\<lambda>s. s\<lparr>ns_owner := owner\<rparr>)) (\<lambda>_.
     na_bind (set_data (out_covenant out)) (\<lambda>_.
     na_bind (na_update (\<lambda>s. s\<lparr>ns_transfer := 0\<rparr>)) (\<lambda>_.
     na_return Changed))))))"

definition apply_renew ::
  "name_env \<Rightarrow> transaction \<Rightarrow> nat \<Rightarrow> txout \<Rightarrow> u32 \<Rightarrow> name_params \<Rightarrow> u32 \<Rightarrow> name_lifecycle_state \<Rightarrow>
   name_mutation name_action" where
  "apply_renew env tx output_index out height p start lifecycle =
     na_bind (require_start start ''RENEW'') (\<lambda>_.
     na_bind (require_lifecycle lifecycle LcClosed ''RENEW'') (\<lambda>_.
     na_bind (na_guard (\<lambda>s. \<not> height < sat_add (ns_renewal s) (nmp_tree_interval p))
       (\<lambda>s. ''RENEW is premature'')) (\<lambda>_.
     na_bind (renewal_guard env (cov_item (out_covenant out) 2) height p
       ''RENEW commitment is not on the permitted active-chain window'') (\<lambda>_.
     na_bind (na_lift (transaction_outpoint (ne_blake2b env) tx output_index)) (\<lambda>owner.
     na_bind (na_update (\<lambda>s. s\<lparr>ns_owner := owner, ns_transfer := 0, ns_renewal := height\<rparr>)) (\<lambda>_.
     na_bind increment_renewals (\<lambda>_.
     na_return Changed)))))))"

definition apply_transfer ::
  "name_env \<Rightarrow> transaction \<Rightarrow> nat \<Rightarrow> u32 \<Rightarrow> u32 \<Rightarrow> name_lifecycle_state \<Rightarrow> name_mutation name_action" where
  "apply_transfer env tx output_index height start lifecycle =
     na_bind (require_start start ''TRANSFER'') (\<lambda>_.
     na_bind (require_lifecycle lifecycle LcClosed ''TRANSFER'') (\<lambda>_.
     na_bind (na_guard (\<lambda>s. ns_transfer s = 0) (\<lambda>s. ''name is already in transfer'')) (\<lambda>_.
     na_bind (na_lift (transaction_outpoint (ne_blake2b env) tx output_index)) (\<lambda>owner.
     na_bind (na_update (\<lambda>s. s\<lparr>ns_owner := owner, ns_transfer := height\<rparr>)) (\<lambda>_.
     na_return Changed)))))"

definition apply_finalize ::
  "name_env \<Rightarrow> transaction \<Rightarrow> nat \<Rightarrow> txout \<Rightarrow> u32 \<Rightarrow> name_params \<Rightarrow> u32 \<Rightarrow> name_lifecycle_state \<Rightarrow>
   name_mutation name_action" where
  "apply_finalize env tx output_index out height p start lifecycle =
     na_bind (require_start start ''FINALIZE'') (\<lambda>_.
     na_bind (require_lifecycle lifecycle LcClosed ''FINALIZE'') (\<lambda>_.
     na_bind (na_guard (\<lambda>s. ns_transfer s \<noteq> 0) (\<lambda>s. ''FINALIZE has no pending transfer'')) (\<lambda>_.
     na_bind (na_guard (\<lambda>s. is_transfer_mature (ns_transfer s) height p)
       (\<lambda>s. ''FINALIZE precedes transfer maturity'')) (\<lambda>_.
     na_bind (na_lift (name_required_u8 (cov_item (out_covenant out) 3) ''finalize flags'')) (\<lambda>finalize_flags.
     na_bind (na_lift (name_required_u32 (cov_item (out_covenant out) 4) ''claimed height'')) (\<lambda>claimed.
     na_bind (na_lift (name_required_u32 (cov_item (out_covenant out) 5) ''renewal count'')) (\<lambda>renewals.
     na_bind (na_guard (\<lambda>s. \<not> ((finalize_flags AND 1 \<noteq> 0) \<noteq> ns_weak s \<or> claimed \<noteq> ns_claimed s \<or>
         renewals \<noteq> ns_renewals s))
       (\<lambda>s. ''FINALIZE state-transfer commitment does not match name state'')) (\<lambda>_.
     na_bind (renewal_guard env (cov_item (out_covenant out) 6) height p
       ''FINALIZE renewal commitment is not on the permitted active-chain window'') (\<lambda>_.
     na_bind (na_lift (transaction_outpoint (ne_blake2b env) tx output_index)) (\<lambda>owner.
     na_bind (na_update (\<lambda>s. s\<lparr>ns_owner := owner, ns_transfer := 0, ns_renewal := height\<rparr>)) (\<lambda>_.
     na_bind increment_renewals (\<lambda>_.
     na_return Changed))))))))))))"

definition apply_revoke :: "u32 \<Rightarrow> u32 \<Rightarrow> name_lifecycle_state \<Rightarrow> name_mutation name_action" where
  "apply_revoke height start lifecycle =
     na_bind (require_start start ''REVOKE'') (\<lambda>_.
     na_bind (require_lifecycle lifecycle LcClosed ''REVOKE'') (\<lambda>_.
     na_bind (na_guard (\<lambda>s. ns_revoked s = 0) (\<lambda>s. ''name is already revoked'')) (\<lambda>_.
     na_bind (na_update (\<lambda>s. s\<lparr>ns_revoked := height, ns_transfer := 0, ns_data := []\<rparr>)) (\<lambda>_.
     na_return Changed))))"

definition apply_kind ::
  "name_env \<Rightarrow> transaction \<Rightarrow> nat \<Rightarrow> txout \<Rightarrow> u32 \<Rightarrow> name_params \<Rightarrow> u32 \<Rightarrow> bytes \<Rightarrow> bool \<Rightarrow>
   name_lifecycle_state \<Rightarrow> u32 \<Rightarrow> name_mutation name_action" where
  "apply_kind env tx output_index out height p flags name_hash expired lifecycle start =
     (case cov_kind (out_covenant out) of
        CovOpen \<Rightarrow> apply_open env name_hash height p flags lifecycle
      | CovBid \<Rightarrow> apply_bid start expired lifecycle
      | CovReveal \<Rightarrow> apply_reveal env tx output_index out start lifecycle
      | CovRedeem \<Rightarrow> apply_redeem tx output_index start expired lifecycle
      | CovRegister \<Rightarrow> apply_register env tx output_index out height p flags start lifecycle
      | CovUpdate \<Rightarrow> apply_update env tx output_index out start lifecycle
      | CovRenew \<Rightarrow> apply_renew env tx output_index out height p start lifecycle
      | CovTransfer \<Rightarrow> apply_transfer env tx output_index height start lifecycle
      | CovFinalize \<Rightarrow> apply_finalize env tx output_index out height p start lifecycle
      | CovRevoke \<Rightarrow> apply_revoke height start lifecycle
      | kind \<Rightarrow> na_lift (Inl (ContextualCovenant (''unexpected contextual name covenant '' @ debug_kind kind))))"

definition initialize_absent :: "name_env \<Rightarrow> covenant \<Rightarrow> bytes \<Rightarrow> u32 \<Rightarrow> unit name_action" where
  "initialize_absent env covenant name_hash height =
     (\<lambda>s. if name_state_is_null s then
        (na_bind (na_guard (\<lambda>s. cov_kind covenant = CovOpen)
           (\<lambda>s. ''non-OPEN covenant references an absent name state'')) (\<lambda>_.
         na_bind (na_lift (ok_or (cov_item covenant 2) (ContextualCovenant ''OPEN is missing its name''))) (\<lambda>name.
         na_bind (na_lift (verify_binary_name name)) (\<lambda>_.
         na_bind (na_guard (\<lambda>s. ne_sha3 env name = name_hash)
           (\<lambda>s. ''OPEN name does not match its committed name hash'')) (\<lambda>_.
         na_update (name_state_initialize name height)))))) s
      else (Inr (), s))"

definition verify_and_apply_name_covenant ::
  "name_env \<Rightarrow> transaction \<Rightarrow> nat \<Rightarrow> u32 \<Rightarrow> name_params \<Rightarrow> u32 \<Rightarrow> name_mutation name_action" where
  "verify_and_apply_name_covenant env tx output_index height p flags =
     na_bind (na_lift (ok_or (get (tx_outputs tx) output_index)
       (ContextualCovenant (''missing covenant output at index '' @ decimal output_index)))) (\<lambda>out.
     let covenant = out_covenant out in
     if \<not> kind_is_name (cov_kind covenant) then na_return Unchanged
     else if ne_is_historical_height env height \<and> cov_kind covenant \<in> {CovBid, CovRedeem}
     then na_return Unchanged
     else
       na_bind (na_lift (name_required_hash (cov_item covenant 0) ''name hash'')) (\<lambda>name_hash.
       na_bind (na_guard (\<lambda>s. name_hash = ns_name_hash s)
         (\<lambda>s. ''name state key does not match covenant name hash'')) (\<lambda>_.
       na_bind (na_guard (\<lambda>s. cov_kind covenant \<noteq> CovClaim)
         (\<lambda>s. ''CLAIM requires the DNSSEC ownership-proof verifier'')) (\<lambda>_.
       na_bind (initialize_absent env covenant name_hash height) (\<lambda>_.
       na_bind (\<lambda>s. let (expired, s') = maybe_expire_name s height p in (Inr expired, s')) (\<lambda>expired.
       na_bind (\<lambda>s. (Inr (name_lifecycle s height p), s)) (\<lambda>lifecycle.
       na_bind (na_lift (name_required_u32 (cov_item covenant 1) ''name start height'')) (\<lambda>start.
       apply_kind env tx output_index out height p flags name_hash expired lifecycle start))))))))"

end
