(* ===== verification/Name_Lookup.thy ===== *)
theory Name_Lookup
  imports Name_Rules
begin

text \<open>
  The lookups that do not depend on the state of a name: the binary search in the databases of
  reserved and locked names, and the rollout schedule, \<^verbatim>\<open>crates/hns-consensus/src/name.rs\<close>.
\<close>

subsection \<open>Databases\<close>

text \<open>The \<open>i\<close>-th row of a database: a 32-byte key and a pointer.\<close>

definition db_key :: "bytes \<Rightarrow> nat \<Rightarrow> nat \<Rightarrow> bytes" where
  "db_key db prefix_size i = take 32 (drop (prefix_size + 36 * i) db)"

definition db_pointer :: "bytes \<Rightarrow> nat \<Rightarrow> nat \<Rightarrow> u32" where
  "db_pointer db prefix_size i = from_le_bytes (take 4 (drop (prefix_size + 36 * i + 32) db))"

text \<open>A database of \<open>n\<close> rows in ascending order of their keys.\<close>

definition sorted_database :: "bytes \<Rightarrow> nat \<Rightarrow> nat \<Rightarrow> bool" where
  "sorted_database db prefix_size n \<longleftrightarrow>
     prefix_size + 36 * n \<le> length db \<and> length db \<le> usize_max \<and>
     (\<forall>j<n. \<forall>i<j. be_val (db_key db prefix_size i) < be_val (db_key db prefix_size j))"

lemma sorted_database_row:
  assumes "sorted_database db prefix_size n" and "i < n"
  shows "usize_checked_mul i 36 = Some (36 * i)" and "usize_checked_add prefix_size (36 * i) = Some (prefix_size + 36 * i)"
    and "usize_checked_add (prefix_size + 36 * i) 32 = Some (prefix_size + 36 * i + 32)"
    and "byte_slice db (prefix_size + 36 * i) (prefix_size + 36 * i + 32) = Some (db_key db prefix_size i)"
    and "db_read_u32 db (prefix_size + 36 * i + 32) = Some (db_pointer db prefix_size i)"
    and "length (db_key db prefix_size i) = 32"
  using assms by (auto simp: sorted_database_def usize_checked_mul_def usize_checked_add_def byte_slice_def
      db_read_u32_def db_key_def db_pointer_def)

lemma database_find_loop_exact:
  assumes "sorted_database db prefix_size n" and "length hash = 32" and "end_index < n"
  shows "database_find_loop db prefix_size hash start end_index = Some pointer \<longleftrightarrow>
    (\<exists>i. start \<le> i \<and> i \<le> end_index \<and> db_key db prefix_size i = hash \<and> db_pointer db prefix_size i = pointer)"
  using assms(3)
proof (induction "end_index + 1 - start" arbitrary: start end_index rule: less_induct)
  case less
  show ?case
  proof (cases "start \<le> end_index")
    case False
    then show ?thesis by (auto simp: database_find_loop.simps [of _ _ _ start])
  next
    case True
    define index where "index = start + (end_index - start) div 2"
    have index: "start \<le> index" "index \<le> end_index" "index < n"
      using True less.prems by (auto simp: index_def)
    note row = sorted_database_row [OF assms(1) index(3)]
    have inc: "be_val (db_key db prefix_size i) < be_val (db_key db prefix_size j)" if "i < j" "j < n" for i j
      using assms(1) that by (simp add: sorted_database_def)
    have succ: "usize_sat_add index 1 = index + 1"
      using assms(1) index(3) by (auto simp: sorted_database_def usize_sat_add_def)
    let ?key = "db_key db prefix_size"
    have step: "database_find_loop db prefix_size hash start end_index =
      (if ?key index = hash then Some (db_pointer db prefix_size index)
       else if be_val (?key index) \<le> be_val hash then database_find_loop db prefix_size hash (index + 1) end_index
       else if index = 0 then None else database_find_loop db prefix_size hash start (index - 1))"
      using True by (subst database_find_loop.simps)
        (simp only: index_def [symmetric] Let_def row succ bind.bind_lunit bytes_le_iff_be_val row(6) assms(2) if_True)
    consider "?key index = hash" | "be_val (?key index) < be_val hash" | "be_val hash < be_val (?key index)"
      using be_val_inj [of "?key index" hash] row(6) assms(2) by (metis linorder_neqE_nat)
    then show ?thesis
    proof cases
      case 1
      then have unique: "i = index" if "?key i = hash" "i \<le> end_index" for i
        using inc [of i index] inc [of index i] that index(3) less.prems
        by (cases i index rule: linorder_cases) simp_all
      have found: "database_find_loop db prefix_size hash start end_index = Some (db_pointer db prefix_size index)"
        using step 1 by simp
      show ?thesis
      proof
        assume "database_find_loop db prefix_size hash start end_index = Some pointer"
        with found 1 index(1,2)
        show "\<exists>i\<ge>start. i \<le> end_index \<and> ?key i = hash \<and> db_pointer db prefix_size i = pointer"
          by (intro exI [of _ index]) simp
      next
        assume "\<exists>i\<ge>start. i \<le> end_index \<and> ?key i = hash \<and> db_pointer db prefix_size i = pointer"
        then show "database_find_loop db prefix_size hash start end_index = Some pointer"
          unfolding found by (metis unique)
      qed
    next
      case 2
      then have above: "index < i" if "?key i = hash" for i
        using inc [of i index] that index(3) by (cases i index rule: linorder_cases) simp_all
      have "?key index \<noteq> hash" using 2 by auto
      with 2 step
      have next_eq: "database_find_loop db prefix_size hash start end_index = database_find_loop db prefix_size hash (index + 1) end_index"
        by simp
      have IH: "database_find_loop db prefix_size hash (index + 1) end_index = Some pointer \<longleftrightarrow>
          (\<exists>i. index + 1 \<le> i \<and> i \<le> end_index \<and> ?key i = hash \<and> db_pointer db prefix_size i = pointer)"
        by (rule less.hyps) (use index less.prems in simp_all)
      show ?thesis
        unfolding next_eq IH by (rule ex_cong1) (use above index(1) in force)
    next
      case 3
      then have below: "i < index" if "?key i = hash" "i < n" for i
        using inc [of index i] that by (cases i index rule: linorder_cases) simp_all
      have "?key index \<noteq> hash" using 3 by auto
      show ?thesis
      proof (cases "index = 0")
        case True
        with 3 step \<open>?key index \<noteq> hash\<close> below less.prems show ?thesis by fastforce
      next
        case False
        with 3 step \<open>?key index \<noteq> hash\<close>
        have next_eq: "database_find_loop db prefix_size hash start end_index = database_find_loop db prefix_size hash start (index - 1)"
          by simp
        have IH: "database_find_loop db prefix_size hash start (index - 1) = Some pointer \<longleftrightarrow>
            (\<exists>i. start \<le> i \<and> i \<le> index - 1 \<and> ?key i = hash \<and> db_pointer db prefix_size i = pointer)"
          by (rule less.hyps) (use index False in simp_all)
        have "i \<le> index - 1 \<longleftrightarrow> i \<le> end_index" if "?key i = hash" for i
          using below [OF that] False index less.prems by linarith
        then show ?thesis
          unfolding next_eq IH by (intro ex_cong1) metis
      qed
    qed
  qed
qed

text \<open>
  C37: the binary search in the reserved and lockup databases ends and is exact.  In a database whose
  rows are in ascending order it returns the pointer of the row with the key, and nothing when there
  is no such row; none of its reads is out of bounds.
\<close>

theorem database_find_exact:
  assumes "db_read_u32 db 0 = Some count" and "sorted_database db prefix_size (unat count)" and "length hash = 32"
  shows "database_find db prefix_size hash = Some pointer \<longleftrightarrow>
    (\<exists>i < unat count. db_key db prefix_size i = hash \<and> db_pointer db prefix_size i = pointer)"
proof (cases "unat count = 0")
  case False
  then have "database_find db prefix_size hash = database_find_loop db prefix_size hash 0 (unat count - 1)"
    using assms(1) by (simp add: database_find_def)
  moreover have "i \<le> unat count - 1 \<longleftrightarrow> i < unat count" for i using False by auto
  ultimately show ?thesis
    using database_find_loop_exact [OF assms(2,3), of "unat count - 1" 0] False by simp
qed (simp add: database_find_def assms(1))

definition example_database :: bytes where
  "example_database = [2, 0, 0, 0] @ replicate 32 1 @ [7, 0, 0, 0] @ replicate 32 5 @ [9, 0, 0, 0]"

theorem database_find_exact_witness:
  "database_find example_database 4 (replicate 32 5) = Some 9"
proof -
  have "db_read_u32 example_database 0 = Some 2" by code_simp
  moreover have "sorted_database example_database 4 (unat (2 :: u32))" by code_simp
  moreover have "db_key example_database 4 1 = replicate 32 5" "db_pointer example_database 4 1 = 9" by code_simp+
  ultimately show ?thesis
    using database_find_exact [of example_database 2 4 "replicate 32 5" 9] by auto
qed

subsection \<open>Rollout\<close>

lemma mod_buffer_step:
  assumes "0 < m" and "m \<le> 255" and "unat (acc :: u32) < m"
  shows "unat ((256 mod word_of_nat m * acc + ucast (b :: u8)) mod word_of_nat m :: u32) = (256 * unat acc + unat b) mod m"
proof -
  have m: "unat (word_of_nat m :: u32) = m" using assms(2) by (simp add: unat_of_nat)
  have "256 mod m * unat acc \<le> 254 * 254"
    by (rule mult_le_mono) (use assms mod_less_divisor [OF assms(1), of 256] in linarith)+
  then have small: "256 mod m * unat acc + unat b < 2 ^ 32" using unat_le_255 [of b] by simp
  have "unat (256 mod word_of_nat m * acc + ucast b :: u32) = 256 mod m * unat acc + unat b"
    using small by (simp add: unat_word_ariths unat_mod m unat_ucast_up mod_simps)
  then have "unat ((256 mod word_of_nat m * acc + ucast b) mod word_of_nat m :: u32) = (256 mod m * unat acc + unat b) mod m"
    by (simp only: unat_mod m)
  also have "\<dots> = (256 * unat acc + unat b) mod m" by (metis mod_add_left_eq mod_mult_left_eq)
  finally show ?thesis .
qed

lemma unat_mod_buffer:
  assumes "0 < m" and "m \<le> 255"
  shows "unat (mod_buffer bs (word_of_nat m)) = be_val bs mod m"
proof (induction bs rule: rev_induct)
  case Nil
  show ?case by (simp add: mod_buffer_def)
next
  case (snoc b bs)
  then have "unat (mod_buffer bs (word_of_nat m)) < m" using assms(1) by simp
  from mod_buffer_step [OF assms this, of b]
  have "unat (mod_buffer (bs @ [b]) (word_of_nat m)) = (256 * (be_val bs mod m) + unat b) mod m"
    by (simp add: mod_buffer_def Let_def snoc [unfolded mod_buffer_def Let_def])
  also have "\<dots> = (256 * be_val bs + unat b) mod m" by (metis mod_add_left_eq mod_mult_right_eq)
  finally show ?case by (simp add: be_val_append mult.commute)
qed

text \<open>
  Names roll out over 52 steps.  A name can be opened from the height that the auction start
  and the residue of its hash modulo 52 give, without wrap-around.
\<close>

theorem rollout_schedule:
  assumes "\<not> nmp_no_rollout p" and "unat height < 2 ^ 32 - 1"
  shows "has_rollout name_hash height p \<longleftrightarrow>
    unat (nmp_auction_start p) + be_val name_hash mod 52 * unat (nmp_rollout_interval p) \<le> unat height"
  using assms unat_mod_buffer [of 52 name_hash]
  by (auto simp: has_rollout_def rollout_height_def Let_def word_le_nat_alt unat_sat_add unat_sat_mul)


text \<open>The main network: the hash 1 rolls out one week after the auctions start.\<close>

theorem rollout_schedule_witness:
  "has_rollout (replicate 31 0 @ [1]) 3024 mainnet_names \<and> \<not> has_rollout (replicate 31 0 @ [1]) 3023 mainnet_names"
  by (subst (1 2) rollout_schedule) code_simp+

end
