(* ===== verification/Name_Proofs.thy ===== *)
theory Name_Proofs
  imports Name_Rules "HOL-Library.Multiset"
begin

unbundle bit_operations_syntax

text \<open>
  What the name rules guarantee: the windows of an auction, the transition of a name state for an
  accepted covenant, the invariant of every history of covenants, and the second-price rule.
\<close>

subsection \<open>Successful actions\<close>

named_theorems na_simps "successful name actions"

lemma na_bind_Inr [na_simps]:
  "na_bind m f s = (Inr y, s') \<longleftrightarrow> (\<exists>x s1. m s = (Inr x, s1) \<and> f x s1 = (Inr y, s'))"
  by (auto simp: na_bind_def split: prod.splits sum.splits)

lemma na_lift_Inr [na_simps]: "na_lift r s = (Inr x, s') \<longleftrightarrow> r = Inr x \<and> s' = s"
  by (auto simp: na_lift_def)

lemma na_return_Inr [na_simps]: "na_return y s = (Inr x, s') \<longleftrightarrow> x = y \<and> s' = s"
  by (auto simp: na_return_def na_lift_def)

lemma na_guard_Inr [na_simps]: "na_guard P msg s = (Inr u, s') \<longleftrightarrow> P s \<and> s' = s"
  by (auto simp: na_guard_def ensure_def)

lemma na_update_Inr [na_simps]: "na_update f s = (Inr u, s') \<longleftrightarrow> s' = f s"
  by (auto simp: na_update_def)

lemma require_lifecycle_Inr [na_simps]:
  "require_lifecycle actual expected operation s = (Inr u, s') \<longleftrightarrow> actual = expected \<and> s' = s"
  by (simp add: require_lifecycle_def na_simps)

lemma require_start_Inr [na_simps]:
  "require_start actual operation s = (Inr u, s') \<longleftrightarrow> actual = ns_height s \<and> s' = s"
  by (simp add: require_start_def na_simps)

lemma renewal_guard_Inr [na_simps]:
  "renewal_guard env item height p msg s = (Inr u, s') \<longleftrightarrow> s' = s \<and>
     (\<exists>h. name_required_hash item ''renewal hash'' = Inr h \<and> verify_renewal_commitment env h height p = Inr True)"
  by (auto simp: renewal_guard_def na_simps)

lemma increment_renewals_Inr [na_simps]:
  "increment_renewals s = (Inr u, s') \<longleftrightarrow> (\<exists>n. checked_add (ns_renewals s) 1 = Some n \<and> s' = s\<lparr>ns_renewals := n\<rparr>)"
  by (auto simp: increment_renewals_def split: option.splits)

lemma output_point_Inr [simp]:
  "output_point H tx i msg = Inr pt \<longleftrightarrow> i < 2 ^ 32 \<and> pt = \<lparr>op_txid = txid H tx, op_index = word_of_nat i\<rparr>"
  by (auto simp: output_point_def)

lemma transaction_outpoint_Inr [simp]:
  "transaction_outpoint H tx i = Inr pt \<longleftrightarrow> i < 2 ^ 32 \<and> pt = \<lparr>op_txid = txid H tx, op_index = word_of_nat i\<rparr>"
  by (simp add: transaction_outpoint_def)

definition new_data :: "covenant \<Rightarrow> bytes \<Rightarrow> bytes" where
  "new_data c old = (case cov_item c 2 of Some data \<Rightarrow> if data \<noteq> [] then data else old | None \<Rightarrow> old)"

lemma set_data_Inr [na_simps]:
  "set_data c s = (Inr u, s') \<longleftrightarrow> s' = s\<lparr>ns_data := new_data c (ns_data s)\<rparr>"
  by (auto simp: set_data_def na_simps new_data_def split: option.splits)

lemmas apply_defs = apply_open_def apply_bid_def apply_reveal_def apply_redeem_def apply_register_def
  apply_update_def apply_renew_def apply_transfer_def apply_finalize_def apply_revoke_def

text \<open>The state a covenant acts on: the loaded state, opened if it was absent, then expired if due.\<close>

definition opened :: "covenant \<Rightarrow> u32 \<Rightarrow> name_state \<Rightarrow> name_state" where
  "opened covenant height s =
     (if name_state_is_null s then name_state_initialize (the (cov_item covenant 2)) height s else s)"

lemma initialize_absent_Inr:
  "initialize_absent env covenant name_hash height s = (Inr u, s1) \<Longrightarrow> s1 = opened covenant height s \<and>
     (name_state_is_null s \<longrightarrow> cov_kind covenant = CovOpen)"
  by (auto simp: initialize_absent_def na_simps opened_def split: if_splits)

lemma verify_and_apply_Inr:
  assumes "verify_and_apply_name_covenant env tx i height p flags s = (Inr m, s')"
    and "get (tx_outputs tx) i = Some out"
  obtains (skipped) "m = Unchanged" "s' = s"
      "\<not> kind_is_name (cov_kind (out_covenant out)) \<or>
       ne_is_historical_height env height \<and> cov_kind (out_covenant out) \<in> {CovBid, CovRedeem}"
  | (applied) name_hash start where
      "name_required_hash (cov_item (out_covenant out) 0) ''name hash'' = Inr name_hash" "name_hash = ns_name_hash s"
      "cov_kind (out_covenant out) \<noteq> CovClaim" "kind_is_name (cov_kind (out_covenant out))"
      "name_state_is_null s \<longrightarrow> cov_kind (out_covenant out) = CovOpen"
      "name_required_u32 (cov_item (out_covenant out) 1) ''name start height'' = Inr start"
      "apply_kind env tx i out height p flags name_hash
         (is_name_expired (opened (out_covenant out) height s) height p)
         (name_lifecycle (snd (maybe_expire_name (opened (out_covenant out) height s) height p)) height p) start
         (snd (maybe_expire_name (opened (out_covenant out) height s) height p)) = (Inr m, s')"
      "\<not> (ne_is_historical_height env height \<and> cov_kind (out_covenant out) \<in> {CovBid, CovRedeem})"
proof -
  have fst_expire: "fst (maybe_expire_name x height p) = is_name_expired x height p" for x
    by (simp add: maybe_expire_name_def)
  from assms show thesis
    by (auto simp: verify_and_apply_name_covenant_def na_simps Let_def split_beta fst_expire
        split: if_splits dest!: initialize_absent_Inr intro: skipped applied)
qed


subsection \<open>Windows\<close>

definition below_max :: "u32 \<Rightarrow> bool" where
  "below_max h \<longleftrightarrow> unat h < 2 ^ 32 - 1"

lemma less_sat_add: "below_max h \<Longrightarrow> h < sat_add a b \<longleftrightarrow> unat h < unat a + unat b"
  by (auto simp: below_max_def word_less_nat_alt unat_sat_add)

lemma unat_sat_add_u32: "unat (sat_add a b) = min (unat a + unat b) (2 ^ 32 - 1)" for a b :: u32
  by (simp add: unat_sat_add)

text \<open>First heights of the bidding, reveal and closed phases of an auction.\<close>

definition bidding_from :: "name_state \<Rightarrow> name_params \<Rightarrow> nat" where
  "bidding_from s p = unat (ns_height s) + unat (nmp_tree_interval p) + 1"

definition reveal_from :: "name_state \<Rightarrow> name_params \<Rightarrow> nat" where
  "reveal_from s p = bidding_from s p + unat (nmp_bidding_period p)"

definition closed_from :: "name_state \<Rightarrow> name_params \<Rightarrow> nat" where
  "closed_from s p = reveal_from s p + unat (nmp_reveal_period p)"

lemma lifecycle_phases:
  assumes "below_max h" and "ns_revoked s = 0" and "ns_claimed s = 0"
  shows "name_lifecycle s h p =
    (if unat h < bidding_from s p then LcOpening else if unat h < reveal_from s p then LcBidding
     else if unat h < closed_from s p then LcReveal else LcClosed)"
proof -
  have h: "unat h < 2 ^ 32 - 1" using assms(1) by (simp add: below_max_def)
  let ?op = "sat_add (nmp_tree_interval p) 1"
  have 1: "h < sat_add (ns_height s) ?op \<longleftrightarrow> unat h < bidding_from s p"
    using h by (auto simp: less_sat_add [OF assms(1)] unat_sat_add_u32 bidding_from_def)
  have 2: "h < sat_add (sat_add (ns_height s) ?op) (nmp_bidding_period p) \<longleftrightarrow> unat h < reveal_from s p"
    using h by (auto simp: less_sat_add [OF assms(1)] unat_sat_add_u32 bidding_from_def reveal_from_def)
  have 3: "h < sat_add (sat_add (sat_add (ns_height s) ?op) (nmp_bidding_period p)) (nmp_reveal_period p) \<longleftrightarrow>
      unat h < closed_from s p"
    using h by (auto simp: less_sat_add [OF assms(1)] unat_sat_add_u32 bidding_from_def reveal_from_def closed_from_def)
  show ?thesis using assms(2,3) 1 2 3 by (simp add: name_lifecycle_def Let_def)
qed

text \<open>An expired name starts over at the current height.\<close>

lemma expired_opening:
  assumes "below_max h" and "is_name_expired s h p"
  shows "name_lifecycle (snd (maybe_expire_name s h p)) h p = LcOpening"
proof -
  let ?s = "snd (maybe_expire_name s h p)"
  have "ns_revoked ?s = 0" "ns_claimed ?s = 0" "ns_height ?s = h"
    using assms(2) by (simp_all add: maybe_expire_name_def name_state_reset_def)
  then show ?thesis using assms(1) by (simp add: lifecycle_phases bidding_from_def)
qed

lemma apply_not_opening:
  assumes "apply_kind env tx i out height p flags name_hash expired lifecycle start s = (Inr m, s')"
    and "cov_kind (out_covenant out) \<noteq> CovOpen" and "kind_is_name (cov_kind (out_covenant out))"
  shows "lifecycle \<noteq> LcOpening"
proof
  assume op: "lifecycle = LcOpening"
  have "LcOpening < LcClosed" by (simp add: less_name_lifecycle_state_def)
  with assms op show False
    by (cases "cov_kind (out_covenant out)") (auto simp: apply_kind_def apply_defs na_simps)
qed

lemma apply_live:
  assumes "verify_and_apply_name_covenant env tx i height p flags s = (Inr m, s')"
    and "get (tx_outputs tx) i = Some out" and "below_max height"
    and "kind_is_name (cov_kind (out_covenant out))" and "cov_kind (out_covenant out) \<noteq> CovOpen"
    and "\<not> (cov_kind (out_covenant out) \<in> {CovBid, CovRedeem} \<and> ne_is_historical_height env height)"
  obtains start where "\<not> is_name_expired s height p" "name_state_is_null s = False"
    "name_required_hash (cov_item (out_covenant out) 0) ''name hash'' = Inr (ns_name_hash s)"
    "name_required_u32 (cov_item (out_covenant out) 1) ''name start height'' = Inr start"
    "apply_kind env tx i out height p flags (ns_name_hash s) False (name_lifecycle s height p) start s = (Inr m, s')"
  using assms(1,2)
proof (cases rule: verify_and_apply_Inr)
  case skipped
  with assms(4,6) show thesis by auto
next
  case (applied name_hash start)
  have s: "opened (out_covenant out) height s = s" and null: "\<not> name_state_is_null s"
    using applied(5) assms(5) by (auto simp: opened_def)
  have "name_lifecycle (snd (maybe_expire_name s height p)) height p \<noteq> LcOpening"
    using apply_not_opening [OF applied(7) assms(5,4)] by (simp add: s)
  then have live: "\<not> is_name_expired s height p" using expired_opening [OF assms(3)] by blast
  then have "maybe_expire_name s height p = (False, s)" by (simp add: maybe_expire_name_def)
  with applied live null show thesis by (intro that) (simp_all add: s)
qed

subsection \<open>Accepted covenants\<close>

text \<open>The outpoint of the output that carries the covenant.\<close>

definition own_outpoint :: "name_env \<Rightarrow> transaction \<Rightarrow> nat \<Rightarrow> outpoint" where
  "own_outpoint env tx i = \<lparr>op_txid = txid (ne_blake2b env) tx, op_index = word_of_nat i\<rparr>"

lemma apply_kind_effect:
  assumes "apply_kind env tx i out height p flags name_hash False lifecycle start s = (Inr m, s')"
    and "cov_kind (out_covenant out) \<noteq> CovOpen" and "kind_is_name (cov_kind (out_covenant out))"
  shows "ns_name_hash s' = ns_name_hash s" and "ns_name s' = ns_name s" and "ns_height s' = ns_height s"
    and "start = ns_height s" and "m = Unchanged \<Longrightarrow> s' = s"
  using assms
  by (cases "cov_kind (out_covenant out)"; auto simp: apply_kind_def apply_defs na_simps reveal_update_def split: option.splits if_splits)+

lemma lifecycle_live: "name_lifecycle s h p \<noteq> LcRevoked \<Longrightarrow> ns_revoked s = 0"
  by (rule ccontr) (simp add: name_lifecycle_def)

subsection \<open>Examples\<close>

text \<open>Covenants on one name: it is opened at height 100000, two bids are revealed, the winner registers.\<close>

definition example_env :: name_env where
  "example_env = \<lparr>ne_blake2b = one_hash, ne_sha3 = one_hash, ne_reserved_db = [], ne_lockup_db = [],
     ne_main_chain_height = (\<lambda>hash. Inr (Some 95000)), ne_is_historical_height = (\<lambda>height. False)\<rparr>"

definition example_params :: name_params where
  "example_params = regtest_names\<lparr>nmp_no_rollout := True\<rparr>"

definition example_hash :: bytes where
  "example_hash = one_hash []"

definition example_output :: "covenant_kind \<Rightarrow> u64 \<Rightarrow> bytes list \<Rightarrow> txout" where
  "example_output kind value items = \<lparr>out_value = value, out_address = \<lparr>addr_version = 0, addr_hash = replicate 20 7\<rparr>,
     out_covenant = \<lparr>cov_kind = kind, cov_items = items\<rparr>\<rparr>"

definition example_tx :: "outpoint \<Rightarrow> txout \<Rightarrow> transaction" where
  "example_tx prevout out = \<lparr>tx_version = 0, tx_inputs = [\<lparr>in_prevout = prevout, in_sequence = 0, in_witness = []\<rparr>],
     tx_outputs = [out], tx_locktime = 0\<rparr>"

definition example_open :: transaction where
  "example_open = example_tx outpoint_null (example_output CovOpen 0 [example_hash, write_u32 0, [97]])"

definition example_reveal :: "u64 \<Rightarrow> transaction" where
  "example_reveal value = example_tx outpoint_null (example_output CovReveal value [example_hash, write_u32 100000, replicate 32 0])"

definition example_register :: transaction where
  "example_register = example_tx \<lparr>op_txid = example_hash, op_index = 0\<rparr>
     (example_output CovRegister 30 [example_hash, write_u32 100000, [0], replicate 32 0])"

definition example_closed_state :: name_state where
  "example_closed_state = (name_state_initialize [97] 100000 (name_state_null example_hash))
     \<lparr>ns_owner := \<lparr>op_txid = example_hash, op_index = 0\<rparr>, ns_value := 30, ns_highest := 50\<rparr>"

lemmas example_defs = example_env_def example_hash_def example_output_def example_tx_def example_open_def
  example_reveal_def example_register_def example_closed_state_def

lemma example_accepted:
  "\<exists>s'. verify_and_apply_name_covenant example_env example_register 0 102500 mainnet_names 0 example_closed_state = (Inr Changed, s')"
  "\<exists>s'. verify_and_apply_name_covenant example_env example_open 0 100000 example_params 0 (name_state_null example_hash) = (Inr Changed, s')"
proof -
  have accepted: "\<exists>s'. r = (Inr Changed, s')" if "fst r = (Inr Changed :: consensus_error + name_mutation)"
    for r :: "(consensus_error + name_mutation) \<times> name_state"
    using that by (cases r) simp
  show "\<exists>s'. verify_and_apply_name_covenant example_env example_register 0 102500 mainnet_names 0 example_closed_state = (Inr Changed, s')"
    by (rule accepted) code_simp
  show "\<exists>s'. verify_and_apply_name_covenant example_env example_open 0 100000 example_params 0 (name_state_null example_hash) = (Inr Changed, s')"
    by (rule accepted) code_simp
qed

lemma example_register_output:
  "get (tx_outputs example_register) 0 = Some (example_output CovRegister 30 [example_hash, write_u32 100000, [0], replicate 32 0])"
  "below_max 102500" "\<not> ne_is_historical_height example_env 102500"
  "cov_kind (out_covenant (example_output CovRegister 30 [example_hash, write_u32 100000, [0], replicate 32 0])) = CovRegister"
  "out_value (example_output CovRegister 30 [example_hash, write_u32 100000, [0], replicate 32 0]) = 30"
  by (simp_all add: example_defs below_max_def)

text \<open>The heights at which an auctioned name admits a covenant of a kind.\<close>

definition owner_update_kinds :: "covenant_kind set" where
  "owner_update_kinds = {CovRegister, CovUpdate, CovRenew, CovTransfer, CovFinalize, CovRevoke}"

lemma apply_kind_lifecycle:
  assumes "apply_kind env tx i out height p flags name_hash expired lifecycle start s = (Inr m, s')"
  shows "cov_kind (out_covenant out) = CovBid \<Longrightarrow> lifecycle = LcBidding"
    and "cov_kind (out_covenant out) = CovReveal \<Longrightarrow> lifecycle = LcReveal"
    and "cov_kind (out_covenant out) \<in> owner_update_kinds \<Longrightarrow> lifecycle = LcClosed"
  using assms by (auto simp: apply_kind_def apply_defs na_simps owner_update_kinds_def)

lemma accepted_lifecycle:
  assumes "verify_and_apply_name_covenant env tx i height p flags s = (Inr m, s')"
    and "get (tx_outputs tx) i = Some out" and "below_max height"
    and "\<not> ne_is_historical_height env height"
  shows "cov_kind (out_covenant out) = CovBid \<Longrightarrow> name_lifecycle s height p = LcBidding"
    and "cov_kind (out_covenant out) = CovReveal \<Longrightarrow> name_lifecycle s height p = LcReveal"
    and "cov_kind (out_covenant out) \<in> owner_update_kinds \<Longrightarrow> name_lifecycle s height p = LcClosed"
proof -
  have live: "\<exists>start. apply_kind env tx i out height p flags (ns_name_hash s) False (name_lifecycle s height p) start s = (Inr m, s')"
    if "kind_is_name (cov_kind (out_covenant out))" "cov_kind (out_covenant out) \<noteq> CovOpen"
    using assms(1-3) by (rule apply_live) (use that assms(4) in blast)+
  show "name_lifecycle s height p = LcBidding" if "cov_kind (out_covenant out) = CovBid"
    using live that apply_kind_lifecycle(1) by fastforce
  show "name_lifecycle s height p = LcReveal" if "cov_kind (out_covenant out) = CovReveal"
    using live that apply_kind_lifecycle(2) by fastforce
  show "name_lifecycle s height p = LcClosed" if k: "cov_kind (out_covenant out) \<in> owner_update_kinds"
  proof -
    have "kind_is_name (cov_kind (out_covenant out))" "cov_kind (out_covenant out) \<noteq> CovOpen"
      using k by (auto simp: owner_update_kinds_def)
    from live [OF this] k apply_kind_lifecycle(3) show ?thesis by blast
  qed
qed

lemma phase_bounds:
  assumes "below_max h" and "ns_claimed s = 0"
  shows "name_lifecycle s h p = LcBidding \<Longrightarrow> bidding_from s p \<le> unat h \<and> unat h < reveal_from s p"
    and "name_lifecycle s h p = LcReveal \<Longrightarrow> reveal_from s p \<le> unat h \<and> unat h < closed_from s p"
    and "name_lifecycle s h p = LcClosed \<Longrightarrow> closed_from s p \<le> unat h"
  using lifecycle_live [of s h p] assms by (auto simp: lifecycle_phases not_less split: if_splits)

text \<open>
  C27: an accepted BID, REVEAL or owner covenant on an auctioned name, at a height that is not declared
  historical and is not the last of a u32, is inside its window.  The
  windows follow one another without a gap from the height at which the name was opened: bids after
  the tree interval and one block, reveals after the bidding period, owner covenants after the
  reveal period.
\<close>

theorem covenant_windows:
  assumes "verify_and_apply_name_covenant env tx i height p flags s = (Inr m, s')"
    and "get (tx_outputs tx) i = Some out" and "below_max height"
    and "\<not> ne_is_historical_height env height" and "ns_claimed s = 0"
  shows "let kind = cov_kind (out_covenant out) in
    (kind = CovBid \<longrightarrow> bidding_from s p \<le> unat height \<and> unat height < reveal_from s p) \<and>
    (kind = CovReveal \<longrightarrow> reveal_from s p \<le> unat height \<and> unat height < closed_from s p) \<and>
    (kind \<in> owner_update_kinds \<longrightarrow> closed_from s p \<le> unat height \<and> ns_revoked s = 0)"
  unfolding Let_def
  using accepted_lifecycle [OF assms(1-4)] phase_bounds [OF assms(3,5), of p] lifecycle_live [of s height p]
  by (intro conjI impI) (auto simp: not_less)


theorem covenant_windows_witness:
  "closed_from example_closed_state mainnet_names \<le> 102500"
proof -
  obtain s' where "verify_and_apply_name_covenant example_env example_register 0 102500 mainnet_names 0 example_closed_state = (Inr Changed, s')"
    using example_accepted(1) by blast
  from covenant_windows [OF this example_register_output(1-3)] show ?thesis
    by (simp add: Let_def example_register_output(4) owner_update_kinds_def example_closed_state_def name_state_initialize_def
        name_state_reset_def)
qed

lemma transfer_mature_exact:
  "below_max height \<Longrightarrow> is_transfer_mature t height p \<longleftrightarrow>
     t \<noteq> 0 \<and> unat t + unat (nmp_transfer_lockup p) \<le> unat height"
  by (simp add: is_transfer_mature_def transfer_maturity_height_def less_sat_add flip: not_less)

lemma linked_previous_output_Inr [simp]:
  "linked_previous_output tx i operation = Inr op \<longleftrightarrow> (\<exists>inp. get (tx_inputs tx) i = Some inp \<and> op = in_prevout inp)"
  by (auto simp: linked_previous_output_def ok_or_def map_option_case split: option.splits)

definition spends :: "transaction \<Rightarrow> nat \<Rightarrow> outpoint \<Rightarrow> bool" where
  "spends tx i op \<longleftrightarrow> map_option in_prevout (get (tx_inputs tx) i) = Some op"

lemma checked_add_one: "checked_add n 1 = Some m \<longleftrightarrow> below_max n \<and> m = n + 1" for n :: u32
  by (auto simp: checked_add_def below_max_def)

lemma apply_kind_auction_exact:
  assumes "apply_kind env tx i out height p flags name_hash False lifecycle start s = (Inr m, s')"
  shows
    "cov_kind (out_covenant out) \<in> {CovBid, CovRedeem} \<Longrightarrow> s' = s"
    "cov_kind (out_covenant out) = CovRedeem \<Longrightarrow> \<exists>op. spends tx i op \<and> op \<noteq> ns_owner s"
    "cov_kind (out_covenant out) = CovReveal \<Longrightarrow> s' = reveal_update (out_value out) (own_outpoint env tx i) s"
  using assms
  by (auto simp: apply_kind_def apply_defs na_simps own_outpoint_def spends_def split: option.splits if_splits)

lemma apply_kind_owner_exact:
  assumes "apply_kind env tx i out height p flags name_hash False lifecycle start s = (Inr m, s')"
    and "below_max height"
  shows
    "cov_kind (out_covenant out) = CovRegister \<Longrightarrow> spends tx i (ns_owner s) \<and> out_value out = ns_value s \<and>
       s' = s\<lparr>ns_registered := True, ns_owner := own_outpoint env tx i,
         ns_data := new_data (out_covenant out) (ns_data s), ns_renewal := height\<rparr>"
    "cov_kind (out_covenant out) = CovUpdate \<Longrightarrow>
       s' = s\<lparr>ns_owner := own_outpoint env tx i, ns_data := new_data (out_covenant out) (ns_data s), ns_transfer := 0\<rparr>"
    "cov_kind (out_covenant out) = CovRenew \<Longrightarrow> below_max (ns_renewals s) \<and>
       unat (ns_renewal s) + unat (nmp_tree_interval p) \<le> unat height \<and>
       s' = s\<lparr>ns_owner := own_outpoint env tx i, ns_transfer := 0, ns_renewal := height, ns_renewals := ns_renewals s + 1\<rparr>"
    "cov_kind (out_covenant out) = CovTransfer \<Longrightarrow> ns_transfer s = 0 \<and>
       s' = s\<lparr>ns_owner := own_outpoint env tx i, ns_transfer := height\<rparr>"
    "cov_kind (out_covenant out) = CovFinalize \<Longrightarrow> below_max (ns_renewals s) \<and> ns_transfer s \<noteq> 0 \<and>
       unat (ns_transfer s) + unat (nmp_transfer_lockup p) \<le> unat height \<and>
       s' = s\<lparr>ns_owner := own_outpoint env tx i, ns_transfer := 0, ns_renewal := height, ns_renewals := ns_renewals s + 1\<rparr>"
    "cov_kind (out_covenant out) = CovRevoke \<Longrightarrow> ns_revoked s = 0 \<and>
       s' = s\<lparr>ns_revoked := height, ns_transfer := 0, ns_data := []\<rparr>"
  using assms
  by (auto simp: apply_kind_def apply_defs na_simps own_outpoint_def spends_def transfer_mature_exact checked_add_one
      less_sat_add simp flip: not_less split: option.splits if_splits)

text \<open>
  C5: what an accepted covenant on an existing name does, by the exact state it leaves behind: every
  field not listed keeps its value.  The covenant carries the hash of the name and the height at
  which it was opened, and the name is not expired.  A BID or REDEEM changes nothing, and a REDEEM does
  not spend the winning reveal.  A REVEAL enters its value in the auction.  A REGISTER spends the
  winning reveal, pays the second price, stores the resource and starts the renewal clock.  An UPDATE stores
  the resource and cancels a pending transfer.  A RENEW comes a tree interval after the last one,
  cancels a pending transfer and counts.  A TRANSFER starts only when none is pending; a FINALIZE ends one
  after the transfer lockup, and counts as a renewal.  These five move the name to the output
  that carries the covenant.  A REVOKE, once, clears the resource and the transfer.

  A BID or REDEEM at a height that the environment declares historical is left out: there the code
  returns before any check, with the state unchanged.  So is the last height of a u32, where sums of
  heights saturate.
\<close>

theorem covenant_transition:
  assumes "verify_and_apply_name_covenant env tx i height p flags s = (Inr m, s')"
    and "get (tx_outputs tx) i = Some out" and "below_max height"
    and "kind_is_name (cov_kind (out_covenant out))" and "cov_kind (out_covenant out) \<noteq> CovOpen"
    and "\<not> (cov_kind (out_covenant out) \<in> {CovBid, CovRedeem} \<and> ne_is_historical_height env height)"
  shows "let cov = out_covenant out; kind = cov_kind cov; own = own_outpoint env tx i in
    name_required_hash (cov_item cov 0) ''name hash'' = Inr (ns_name_hash s) \<and>
    name_required_u32 (cov_item cov 1) ''name start height'' = Inr (ns_height s) \<and>
    \<not> is_name_expired s height p \<and>
    (m = Unchanged \<longrightarrow> s' = s) \<and>
    (kind \<in> {CovBid, CovRedeem} \<longrightarrow> s' = s) \<and>
    (kind = CovRedeem \<longrightarrow> (\<exists>op. spends tx i op \<and> op \<noteq> ns_owner s)) \<and>
    (kind = CovReveal \<longrightarrow> s' = reveal_update (out_value out) own s) \<and>
    (kind = CovRegister \<longrightarrow> spends tx i (ns_owner s) \<and> out_value out = ns_value s \<and>
       s' = s\<lparr>ns_registered := True, ns_owner := own, ns_data := new_data cov (ns_data s), ns_renewal := height\<rparr>) \<and>
    (kind = CovUpdate \<longrightarrow> s' = s\<lparr>ns_owner := own, ns_data := new_data cov (ns_data s), ns_transfer := 0\<rparr>) \<and>
    (kind = CovRenew \<longrightarrow> below_max (ns_renewals s) \<and> unat (ns_renewal s) + unat (nmp_tree_interval p) \<le> unat height \<and>
       s' = s\<lparr>ns_owner := own, ns_transfer := 0, ns_renewal := height, ns_renewals := ns_renewals s + 1\<rparr>) \<and>
    (kind = CovTransfer \<longrightarrow> ns_transfer s = 0 \<and> s' = s\<lparr>ns_owner := own, ns_transfer := height\<rparr>) \<and>
    (kind = CovFinalize \<longrightarrow> below_max (ns_renewals s) \<and> ns_transfer s \<noteq> 0 \<and>
       unat (ns_transfer s) + unat (nmp_transfer_lockup p) \<le> unat height \<and>
       s' = s\<lparr>ns_owner := own, ns_transfer := 0, ns_renewal := height, ns_renewals := ns_renewals s + 1\<rparr>) \<and>
    (kind = CovRevoke \<longrightarrow> ns_revoked s = 0 \<and> s' = s\<lparr>ns_revoked := height, ns_transfer := 0, ns_data := []\<rparr>)"
  using assms
proof (rule apply_live)
  fix start
  assume live: "\<not> is_name_expired s height p"
    and hash: "name_required_hash (cov_item (out_covenant out) 0) ''name hash'' = Inr (ns_name_hash s)"
    and start: "name_required_u32 (cov_item (out_covenant out) 1) ''name start height'' = Inr start"
    and step: "apply_kind env tx i out height p flags (ns_name_hash s) False (name_lifecycle s height p) start s = (Inr m, s')"
  note kept = apply_kind_effect [OF step assms(5,4)]
  note exact = apply_kind_auction_exact [OF step] apply_kind_owner_exact [OF step assms(3)]
  show ?thesis
    unfolding Let_def
    by (intro conjI; (rule impI)?; (fact live | fact hash | fact start [unfolded kept(4)] | fact kept | fact exact
        | (drule exact, blast)))
qed

theorem covenant_transition_witness:
  "verify_and_apply_name_covenant example_env example_register 0 102500 mainnet_names 0 example_closed_state =
     (Inr Changed, example_closed_state\<lparr>ns_registered := True, ns_owner := own_outpoint example_env example_register 0,
        ns_data := [0], ns_renewal := 102500\<rparr>) \<and>
   spends example_register 0 (ns_owner example_closed_state) \<and> ns_value example_closed_state = 30"
proof -
  obtain s' where ok: "verify_and_apply_name_covenant example_env example_register 0 102500 mainnet_names 0 example_closed_state = (Inr Changed, s')"
    using example_accepted(1) by blast
  have "new_data (out_covenant (example_output CovRegister 30 [example_hash, write_u32 100000, [0], replicate 32 0])) old = [0]" for old
    by (simp add: new_data_def example_output_def cov_item_def get_def)
  with covenant_transition [OF ok example_register_output(1,2)] ok show ?thesis
    by (simp add: Let_def example_register_output(4,5))
qed

subsection \<open>Histories of a name\<close>

text \<open>
  The states a name passes through when its covenants are accepted at heights that do not decrease.
  The environment and the flags may differ from block to block.  The index of the last output that a
  u32 can number is left out: together with a zero transaction id it would be the null outpoint.
\<close>

inductive name_history :: "name_params \<Rightarrow> bytes \<Rightarrow> name_state \<Rightarrow> u32 \<Rightarrow> bool" for p name_hash where
  absent: "name_history p name_hash (name_state_null name_hash) height"
| accepted: "\<lbrakk>name_history p name_hash s height; height \<le> height'; below_max height'; i < 2 ^ 32 - 1;
     verify_and_apply_name_covenant env tx i height' p flags s = (Inr m, s')\<rbrakk> \<Longrightarrow>
     name_history p name_hash s' height'"

definition name_state_ok :: "name_params \<Rightarrow> bytes \<Rightarrow> u32 \<Rightarrow> name_state \<Rightarrow> bool" where
  "name_state_ok p name_hash height s \<longleftrightarrow>
     ns_name_hash s = name_hash \<and> ns_claimed s = 0 \<and>
     ns_height s \<le> height \<and> ns_renewal s \<le> height \<and> ns_transfer s \<le> height \<and> ns_revoked s \<le> height \<and>
     ns_value s \<le> ns_highest s \<and> (outpoint_is_null (ns_owner s) \<longrightarrow> ns_highest s = 0) \<and>
     (ns_highest s \<noteq> 0 \<longrightarrow> reveal_from s p \<le> unat height) \<and>
     (ns_registered s \<longrightarrow> closed_from s p \<le> unat height) \<and>
     (ns_transfer s \<noteq> 0 \<longrightarrow> closed_from s p \<le> unat (ns_transfer s) \<and> ns_revoked s = 0) \<and>
     (ns_revoked s \<noteq> 0 \<longrightarrow> closed_from s p \<le> unat (ns_revoked s) \<and> ns_data s = [])"

lemma name_state_ok_fresh:
  "name_state_ok p name_hash height (name_state_null name_hash)"
  "ns_name_hash s = name_hash \<Longrightarrow> name_state_ok p name_hash height (name_state_reset height s)"
  "ns_name_hash s = name_hash \<Longrightarrow> name_state_ok p name_hash height ((name_state_reset height s)\<lparr>ns_expired := e, ns_data := d\<rparr>)"
  by (simp_all add: name_state_ok_def name_state_null_def name_state_reset_def)

lemma name_state_ok_mono:
  "name_state_ok p name_hash height s \<Longrightarrow> height \<le> height' \<Longrightarrow> name_state_ok p name_hash height' s"
  by (auto simp: name_state_ok_def word_le_nat_alt)

lemma phases_update [simp]:
  "reveal_from (s\<lparr>ns_renewal := h\<rparr>) p = reveal_from s p" "closed_from (s\<lparr>ns_renewal := h\<rparr>) p = closed_from s p"
  "reveal_from (s\<lparr>ns_owner := op\<rparr>) p = reveal_from s p" "closed_from (s\<lparr>ns_owner := op\<rparr>) p = closed_from s p"
  "reveal_from (s\<lparr>ns_value := v\<rparr>) p = reveal_from s p" "closed_from (s\<lparr>ns_value := v\<rparr>) p = closed_from s p"
  "reveal_from (s\<lparr>ns_highest := v\<rparr>) p = reveal_from s p" "closed_from (s\<lparr>ns_highest := v\<rparr>) p = closed_from s p"
  "reveal_from (s\<lparr>ns_data := d\<rparr>) p = reveal_from s p" "closed_from (s\<lparr>ns_data := d\<rparr>) p = closed_from s p"
  "reveal_from (s\<lparr>ns_transfer := h\<rparr>) p = reveal_from s p" "closed_from (s\<lparr>ns_transfer := h\<rparr>) p = closed_from s p"
  "reveal_from (s\<lparr>ns_revoked := h\<rparr>) p = reveal_from s p" "closed_from (s\<lparr>ns_revoked := h\<rparr>) p = closed_from s p"
  "reveal_from (s\<lparr>ns_renewals := h\<rparr>) p = reveal_from s p" "closed_from (s\<lparr>ns_renewals := h\<rparr>) p = closed_from s p"
  "reveal_from (s\<lparr>ns_registered := b\<rparr>) p = reveal_from s p" "closed_from (s\<lparr>ns_registered := b\<rparr>) p = closed_from s p"
  by (simp_all add: reveal_from_def closed_from_def bidding_from_def)

lemma own_outpoint_not_null:
  assumes "i < 2 ^ 32 - 1"
  shows "\<not> outpoint_is_null (own_outpoint env tx i)"
proof
  assume "outpoint_is_null (own_outpoint env tx i)"
  then have "unat (word_of_nat i :: u32) = unat (- 1 :: u32)" by (simp add: outpoint_is_null_def own_outpoint_def)
  then show False using assms by (simp add: unat_of_nat unat_minus_one_word)
qed

lemma apply_kind_cases:
  assumes "apply_kind env tx i out height p flags nh expired lifecycle start s = (Inr m, s')"
    and "cov_kind (out_covenant out) \<noteq> CovOpen"
  obtains (same) "s' = s"
  | (reveal) v where "lifecycle = LcReveal" "s' = reveal_update v (own_outpoint env tx i) s"
  | (register) d where "lifecycle = LcClosed"
      "s' = s\<lparr>ns_registered := True, ns_owner := own_outpoint env tx i, ns_data := d, ns_renewal := height\<rparr>"
  | (update) d where "lifecycle = LcClosed" "s' = s\<lparr>ns_owner := own_outpoint env tx i, ns_data := d, ns_transfer := 0\<rparr>"
  | (renew) n where "lifecycle = LcClosed"
      "s' = s\<lparr>ns_owner := own_outpoint env tx i, ns_transfer := 0, ns_renewal := height, ns_renewals := n\<rparr>"
  | (transfer) "lifecycle = LcClosed" "s' = s\<lparr>ns_owner := own_outpoint env tx i, ns_transfer := height\<rparr>"
  | (revoke) "lifecycle = LcClosed" "s' = s\<lparr>ns_revoked := height, ns_transfer := 0, ns_data := []\<rparr>"
proof (cases "cov_kind (out_covenant out)")
  case CovReveal
  with assms show thesis by (auto simp: apply_kind_def apply_reveal_def na_simps own_outpoint_def intro: reveal)
next
  case CovRegister
  with assms show thesis by (auto simp: apply_kind_def apply_register_def na_simps own_outpoint_def intro: register)
next
  case CovUpdate
  with assms show thesis by (auto simp: apply_kind_def apply_update_def na_simps own_outpoint_def intro: update)
next
  case CovRenew
  with assms show thesis by (auto simp: apply_kind_def apply_renew_def na_simps own_outpoint_def intro: renew)
next
  case CovTransfer
  with assms show thesis by (auto simp: apply_kind_def apply_transfer_def na_simps own_outpoint_def intro: transfer)
next
  case CovFinalize
  with assms show thesis by (auto simp: apply_kind_def apply_finalize_def na_simps own_outpoint_def intro: renew)
next
  case CovRevoke
  with assms show thesis by (auto simp: apply_kind_def apply_revoke_def na_simps own_outpoint_def intro: revoke)
next
  case CovBid
  with assms have "s' = s" by (simp add: apply_kind_def apply_bid_def na_simps)
  then show thesis by (rule same)
next
  case CovRedeem
  with assms have "s' = s" by (simp add: apply_kind_def apply_redeem_def na_simps)
  then show thesis by (rule same)
next
  case CovOpen
  with assms(2) show thesis by (rule notE)
qed (use assms(1) in \<open>simp_all only: apply_kind_def covenant_kind.case na_lift_Inr sum.distinct simp_thms\<close>)

lemma apply_kind_ok:
  assumes "name_state_ok p name_hash height s" and "below_max height" and "i < 2 ^ 32 - 1"
    and "apply_kind env tx i out height p flags nh False (name_lifecycle s height p) start s = (Inr m, s')"
    and "cov_kind (out_covenant out) \<noteq> CovOpen"
  shows "name_state_ok p name_hash height s'"
proof -
  have claimed: "ns_claimed s = 0" using assms(1) by (simp add: name_state_ok_def)
  note bounds = phase_bounds [OF assms(2) claimed, of p] lifecycle_live [of s height p]
  note ok = assms(1) [unfolded name_state_ok_def] own_outpoint_not_null [OF assms(3)]
  from assms(4,5) show ?thesis
  proof (cases rule: apply_kind_cases)
    case (reveal v)
    with bounds have "reveal_from s p \<le> unat height" by simp
    with ok reveal show ?thesis
      by (auto simp: name_state_ok_def reveal_update_def)
  qed (use assms(1) ok bounds in \<open>simp_all add: name_state_ok_def\<close>)
qed

lemma name_state_ok_opened:
  assumes "name_state_ok p name_hash height s"
  shows "name_state_ok p name_hash height (snd (maybe_expire_name (opened c height s) height p))"
proof -
  have "name_state_ok p name_hash height (opened c height s)"
    using assms by (auto simp: opened_def name_state_initialize_def name_state_ok_def name_state_reset_def)
  then show ?thesis
    by (auto simp: maybe_expire_name_def name_state_ok_def name_state_reset_def)
qed

lemma accepted_output:
  "verify_and_apply_name_covenant env tx i height p flags s = (Inr m, s') \<Longrightarrow>
     \<exists>out. get (tx_outputs tx) i = Some out"
  by (auto simp: verify_and_apply_name_covenant_def na_simps ok_or_def split: option.splits)

lemma accepted_ok:
  assumes "verify_and_apply_name_covenant env tx i height p flags s = (Inr m, s')"
    and "name_state_ok p name_hash height s" and "below_max height" and "i < 2 ^ 32 - 1"
  shows "name_state_ok p name_hash height s'"
proof -
  obtain out where out: "get (tx_outputs tx) i = Some out" using accepted_output [OF assms(1)] by blast
  consider (skip) "s' = s" | (opens) "cov_kind (out_covenant out) = CovOpen"
    | (live) "kind_is_name (cov_kind (out_covenant out))" "cov_kind (out_covenant out) \<noteq> CovOpen"
        "\<not> (cov_kind (out_covenant out) \<in> {CovBid, CovRedeem} \<and> ne_is_historical_height env height)"
    using assms(1) out by (cases rule: verify_and_apply_Inr) blast+
  then show ?thesis
  proof cases
    case skip
    with assms(2) show ?thesis by simp
  next
    case opens
    show ?thesis
      using assms(1) out
    proof (cases rule: verify_and_apply_Inr)
      case (applied nh start)
      then have "s' = snd (maybe_expire_name (opened (out_covenant out) height s) height p)"
        using opens by (simp add: apply_kind_def apply_open_def na_simps)
      then show ?thesis using name_state_ok_opened [OF assms(2)] by simp
    qed (use assms(2) in simp)
  next
    case live
    from apply_live [OF assms(1) out assms(3) live] obtain start where
      "apply_kind env tx i out height p flags (ns_name_hash s) False (name_lifecycle s height p) start s = (Inr m, s')"
      by blast
    then show ?thesis by (rule apply_kind_ok [OF assms(2-4) _ live(2)])
  qed
qed

text \<open>
  C4: invariant of every history of a name.  The recorded heights never exceed the current one; the
  second price is at most the highest bid, and there is no bid without a winner; no bid counts before
  the reveal phase; a name is registered, transferred or revoked only after its auction has closed;
  a revoked name has neither a pending transfer nor a resource.
\<close>

theorem name_history_ok:
  assumes "name_history p name_hash s height"
  shows "name_state_ok p name_hash height s"
  using assms
proof induction
  case (absent height)
  show ?case by (rule name_state_ok_fresh)
next
  case (accepted s height height' i env tx flags m s')
  from accepted.IH accepted.hyps(2) have "name_state_ok p name_hash height' s" by (rule name_state_ok_mono)
  with accepted.hyps show ?case by (blast intro: accepted_ok)
qed

theorem name_history_ok_witness:
  "\<exists>s. name_history example_params example_hash s 100000 \<and> name_state_ok example_params example_hash 100000 s"
proof -
  obtain s where "verify_and_apply_name_covenant example_env example_open 0 100000 example_params 0 (name_state_null example_hash) = (Inr Changed, s)"
    using example_accepted(2) by blast
  then have "name_history example_params example_hash s 100000"
    by (intro name_history.accepted [OF name_history.absent order_refl]) (simp_all add: below_max_def)
  then show ?thesis using name_history_ok by blast
qed

subsection \<open>The second price\<close>

lemma sort_top_two:
  assumes "sort vs = us @ [b, a]"
  shows "sort (v # vs) = (if v > a then us @ [b, a, v] else if v > b then us @ [b, v, a] else insort v us @ [b, a])"
proof -
  have s: "sorted (us @ [b, a])" using sorted_sort [of vs] by (simp add: assms)
  have m: "mset vs = mset (us @ [b, a])" using mset_sort [of "\<lambda>x. x" vs] by (simp add: assms)
  show ?thesis
    by (rule properties_for_sort)
      (use s m in \<open>auto simp: sorted_append set_insort_key sorted_insort split: if_splits\<close>)
qed

text \<open>A run applies covenants one after the other; it stops at the first that is rejected.\<close>

inductive accepted_run :: "name_env \<Rightarrow> name_params \<Rightarrow> u32 \<Rightarrow> name_state \<Rightarrow> (transaction \<times> nat \<times> u32) list \<Rightarrow> name_state \<Rightarrow> bool"
  for env p flags s where
  "accepted_run env p flags s [] s"
| "\<lbrakk>accepted_run env p flags s cs s1;
     verify_and_apply_name_covenant env tx i height p flags s1 = (Inr m, s')\<rbrakk> \<Longrightarrow>
     accepted_run env p flags s (cs @ [(tx, i, height)]) s'"

definition is_reveal :: "transaction \<times> nat \<times> u32 \<Rightarrow> bool" where
  "is_reveal c = (case c of (tx, i, height) \<Rightarrow>
     i < 2 ^ 32 - 1 \<and> below_max height \<and>
     (case get (tx_outputs tx) i of Some out \<Rightarrow> cov_kind (out_covenant out) = CovReveal | None \<Rightarrow> False))"

definition revealed :: "name_env \<Rightarrow> transaction \<times> nat \<times> u32 \<Rightarrow> u64 \<times> outpoint" where
  "revealed env c = (case c of (tx, i, height) \<Rightarrow> (out_value (the (get (tx_outputs tx) i)), own_outpoint env tx i))"

definition auction_result :: "(u64 \<times> outpoint) list \<Rightarrow> name_state \<Rightarrow> bool" where
  "auction_result bids s \<longleftrightarrow>
     (\<exists>us. sort (map fst bids @ [0, 0]) = us @ [ns_value s, ns_highest s]) \<and>
     (\<forall>bid \<in> set bids. fst bid \<le> ns_highest s) \<and>
     (if bids = [] then outpoint_is_null (ns_owner s)
      else \<not> outpoint_is_null (ns_owner s) \<and>
        find (\<lambda>bid. fst bid = ns_highest s) bids = Some (ns_highest s, ns_owner s))"

lemma find_snoc: "find P (xs @ [x]) = (case find P xs of None \<Rightarrow> if P x then Some x else None | Some y \<Rightarrow> Some y)"
  by (induction xs) auto

lemma sort_snoc: "sort (xs @ x # ys) = sort (x # xs @ ys)"
proof (rule properties_for_sort)
  show "sorted (sort (x # xs @ ys))" by (rule sorted_sort)
qed simp

lemma auction_result_step:
  assumes "auction_result bids s" and "\<not> outpoint_is_null op"
  shows "auction_result (bids @ [(v, op)]) (reveal_update v op s)"
proof -
  obtain us where us: "sort (map fst bids @ [0, 0]) = us @ [ns_value s, ns_highest s]"
    using assms(1) by (auto simp: auction_result_def)
  have le: "\<forall>bid \<in> set bids. fst bid \<le> ns_highest s" using assms(1) by (simp add: auction_result_def)
  note top = sort_top_two [OF us, of v]
  have vals: "sort (map fst (bids @ [(v, op)]) @ [0, 0]) = sort (v # map fst bids @ [0, 0])"
    using sort_snoc [of "map fst bids" v "[0, 0]"] by simp
  have none: "find (\<lambda>bid. fst bid = v) bids = None" if "v > ns_highest s"
    using le that by (auto simp: find_None_iff)
  show ?thesis
  proof (cases "bids = []")
    case True
    then have "us = []" "ns_value s = 0" "ns_highest s = 0" "outpoint_is_null (ns_owner s)"
      using assms(1) us by (auto simp: auction_result_def)
    then show ?thesis
      using True assms(2) by (auto simp: auction_result_def reveal_update_def intro: exI [of _ "[0]"])
  next
    case False
    then have own: "\<not> outpoint_is_null (ns_owner s)"
      "find (\<lambda>bid. fst bid = ns_highest s) bids = Some (ns_highest s, ns_owner s)"
      using assms(1) by (auto simp: auction_result_def)
    show ?thesis
      unfolding auction_result_def vals top reveal_update_def
      using own le assms(2) none by (auto simp: find_snoc intro: order_trans [OF _ less_imp_le])
  qed
qed

lemma reveal_accepted:
  assumes "verify_and_apply_name_covenant env tx i height p flags s = (Inr m, s')" and "is_reveal (tx, i, height)"
  shows "s' = reveal_update (fst (revealed env (tx, i, height))) (snd (revealed env (tx, i, height))) s"
proof -
  from assms(2) obtain out where out: "get (tx_outputs tx) i = Some out" "cov_kind (out_covenant out) = CovReveal"
    and h: "below_max height"
    by (auto simp: is_reveal_def split: option.splits)
  from apply_live [OF assms(1) out(1) h] out(2) obtain start where
    "apply_kind env tx i out height p flags (ns_name_hash s) False (name_lifecycle s height p) start s = (Inr m, s')"
    by auto
  from apply_kind_auction_exact(3) [OF this out(2)] show ?thesis by (simp add: revealed_def out del: get_eq_Some)
qed

lemma run_auction_result:
  assumes "accepted_run env p flags s cs s'" and "auction_result [] s" and "list_all is_reveal cs"
  shows "auction_result (map (revealed env) cs) s'"
  using assms(1,3)
proof induction
  case 1
  show ?case using assms(2) by simp
next
  case (2 cs s1 tx i height m s')
  then have "\<not> outpoint_is_null (own_outpoint env tx i)"
    by (intro own_outpoint_not_null) (simp add: is_reveal_def)
  then have "\<not> outpoint_is_null (snd (revealed env (tx, i, height)))" by (simp add: revealed_def)
  with 2 reveal_accepted [OF 2(2)] show ?case
    using auction_result_step [of "map (revealed env) cs" s1 "snd (revealed env (tx, i, height))"
        "fst (revealed env (tx, i, height))"] by simp
qed

lemma sort_zeros: "sort (vs @ [0, 0]) = 0 # 0 # sort vs" for vs :: "u64 list"
  by (rule properties_for_sort) simp_all

lemma auction_result_prices:
  assumes "auction_result bids s"
  shows "ns_highest s = (rev (sort (map fst bids)) @ [0, 0]) ! 0" and "ns_value s = (rev (sort (map fst bids)) @ [0, 0]) ! 1"
proof -
  obtain us where "0 # 0 # sort (map fst bids) = us @ [ns_value s, ns_highest s]"
    using assms by (auto simp: auction_result_def sort_zeros)
  then have "rev (0 # 0 # sort (map fst bids)) = rev (us @ [ns_value s, ns_highest s])" by (rule arg_cong)
  then have "rev (sort (map fst bids)) @ [0, 0] = ns_highest s # ns_value s # rev us" by simp
  then show "ns_highest s = (rev (sort (map fst bids)) @ [0, 0]) ! 0" "ns_value s = (rev (sort (map fst bids)) @ [0, 0]) ! 1"
    by simp_all
qed

text \<open>
  C3: the auction is a sealed-bid second-price auction.  After any accepted sequence of REVEALs on a
  freshly opened name, the highest bid and the price are the first and the second of the revealed
  values in descending order (padded with zeros), and the owner is the output of the first reveal that
  reached the highest value.
\<close>

theorem second_price_auction:
  assumes "accepted_run env p flags s reveals s'" and "list_all is_reveal reveals" and "reveals \<noteq> []"
    and "outpoint_is_null (ns_owner s)" and "ns_value s = 0" and "ns_highest s = 0"
  shows "let bids = map (revealed env) reveals; prices = rev (sort (map fst bids)) @ [0, 0] in
    ns_highest s' = prices ! 0 \<and> ns_value s' = prices ! 1 \<and>
    find (\<lambda>bid. fst bid = ns_highest s') bids = Some (ns_highest s', ns_owner s')"
proof -
  have "auction_result [] s" using assms(4-6) by (simp add: auction_result_def)
  from run_auction_result [OF assms(1) this assms(2)]
  have result: "auction_result (map (revealed env) reveals) s'" .
  show ?thesis
    unfolding Let_def
    using auction_result_prices [OF result] result assms(3) by (simp add: auction_result_def)
qed


text \<open>Bids of 30 and 50: the price is 30.\<close>

definition example_reveals :: "(transaction \<times> nat \<times> u32) list" where
  "example_reveals = [(example_reveal 30, 0, 100900), (example_reveal 50, 0, 100901)]"

definition example_opened_state :: name_state where
  "example_opened_state = name_state_initialize [97] 100000 (name_state_null example_hash)"

lemma example_reveals_run:
  "\<exists>s'. accepted_run example_env mainnet_names 0 example_opened_state example_reveals s'"
proof -
  let ?step = "\<lambda>v h. verify_and_apply_name_covenant example_env (example_reveal v) 0 h mainnet_names 0"
  define s1 where "s1 = snd (?step 30 100900 example_opened_state)"
  have "fst (?step 30 100900 example_opened_state) = Inr Changed" by code_simp
  then have 1: "?step 30 100900 example_opened_state = (Inr Changed, s1)" by (simp add: s1_def prod_eq_iff)
  have "fst (?step 50 100901 s1) = Inr Changed" unfolding s1_def by code_simp
  then have 2: "?step 50 100901 s1 = (Inr Changed, snd (?step 50 100901 s1))" by (simp add: prod_eq_iff)
  from accepted_run.intros(2) [OF accepted_run.intros(2) [OF accepted_run.intros(1) 1] 2]
  show ?thesis unfolding example_reveals_def by auto
qed

theorem second_price_auction_witness:
  "\<exists>s'. accepted_run example_env mainnet_names 0 example_opened_state example_reveals s' \<and>
     ns_highest s' = 50 \<and> ns_value s' = 30"
proof -
  obtain s' where run: "accepted_run example_env mainnet_names 0 example_opened_state example_reveals s'"
    using example_reveals_run by blast
  moreover have "list_all is_reveal example_reveals" by code_simp
  moreover have "map fst (map (revealed example_env) example_reveals) = [30, 50]" by code_simp
  moreover have "outpoint_is_null (ns_owner example_opened_state)" "ns_value example_opened_state = 0"
    "ns_highest example_opened_state = 0" by code_simp+
  ultimately show ?thesis
    using second_price_auction [OF run] by (auto simp: Let_def example_reveals_def)
qed

end
