(* ===== verification/Sighash.thy ===== *)
theory Sighash
  imports Locks
begin

unbundle bit_operations_syntax

text \<open>
  Signature hashes, \<^verbatim>\<open>crates/hns-consensus/src/sighash.rs\<close>: the aggregates cached for a transaction, the
  message a signature commits to, and the accepted signature types.
\<close>

subsection \<open>Operations\<close>

definition sighash_all :: u32 where "sighash_all = 1"
definition sighash_none :: u32 where "sighash_none = 2"
definition sighash_single :: u32 where "sighash_single = 3"
definition sighash_single_reverse :: u32 where "sighash_single_reverse = 4"
definition sighash_noinput :: u32 where "sighash_noinput = 0x40"
definition sighash_anyone_can_pay :: u32 where "sighash_anyone_can_pay = 0x80"
definition sighash_base_mask :: u32 where "sighash_base_mask = 0x1f"

lemmas sighash_constants = sighash_all_def sighash_none_def sighash_single_def sighash_single_reverse_def
  sighash_noinput_def sighash_anyone_can_pay_def sighash_base_mask_def

record signature_hash_cache =
  shc_transaction :: transaction
  shc_hash_prevouts :: bytes
  shc_hash_sequences :: bytes
  shc_hash_outputs :: bytes
  shc_single_output_hashes :: "bytes list"

definition signature_hash_cache_new :: "(bytes \<Rightarrow> bytes) \<Rightarrow> transaction \<Rightarrow> signature_hash_cache" where
  "signature_hash_cache_new H tx =
     \<lparr>shc_transaction = tx,
      shc_hash_prevouts = H (concat (map (\<lambda>input. write_outpoint (in_prevout input)) (tx_inputs tx))),
      shc_hash_sequences = H (concat (map (\<lambda>input. write_u32 (in_sequence input)) (tx_inputs tx))),
      shc_hash_outputs = H (concat (map write_output (tx_outputs tx))),
      shc_single_output_hashes = map (\<lambda>out. H (write_output out)) (tx_outputs tx)\<rparr>"

definition selected_outputs_hash :: "signature_hash_cache \<Rightarrow> nat \<Rightarrow> u32 \<Rightarrow> bytes" where
  "selected_outputs_hash cache input_index base =
     (if base = sighash_none then zero_hash
      else if base = sighash_single then
        case get (shc_single_output_hashes cache) input_index of Some h \<Rightarrow> h | None \<Rightarrow> zero_hash
      else if base = sighash_single_reverse then
        case Option.bind (usize_checked_add input_index 1) (\<lambda>offset.
             Option.bind (if offset \<le> length (shc_single_output_hashes cache)
               then Some (length (shc_single_output_hashes cache) - offset) else None) (\<lambda>output_index.
             get (shc_single_output_hashes cache) output_index)) of
          Some h \<Rightarrow> h | None \<Rightarrow> zero_hash
      else shc_hash_outputs cache)"

definition sighash_preimage :: "signature_hash_cache \<Rightarrow> nat \<Rightarrow> txin \<Rightarrow> bytes \<Rightarrow> u64 \<Rightarrow> u32 \<Rightarrow> bytes" where
  "sighash_preimage cache input_index input previous_script previous_value hash_type =
     (let base = hash_type AND sighash_base_mask;
          anyone_can_pay = (hash_type AND sighash_anyone_can_pay \<noteq> 0);
          no_input = (hash_type AND sighash_noinput \<noteq> 0);
          hash_prevouts = (if anyone_can_pay then zero_hash else shc_hash_prevouts cache);
          hash_sequences = (if anyone_can_pay \<or> base \<in> {sighash_none, sighash_single, sighash_single_reverse}
            then zero_hash else shc_hash_sequences cache);
          hash_outputs = selected_outputs_hash cache input_index base;
          (current_outpoint, current_sequence) =
            (if no_input then (\<lparr>op_txid = zero_hash, op_index = - 1\<rparr>, - 1)
             else (in_prevout input, in_sequence input))
      in write_u32 (tx_version (shc_transaction cache)) @ hash_prevouts @ hash_sequences @
         write_outpoint current_outpoint @ write_varbytes previous_script @ write_u64 previous_value @
         write_u32 current_sequence @ hash_outputs @ write_u32 (tx_locktime (shc_transaction cache)) @
         write_u32 hash_type)"

definition cache_signature_hash ::
  "(bytes \<Rightarrow> bytes) \<Rightarrow> signature_hash_cache \<Rightarrow> nat \<Rightarrow> bytes \<Rightarrow> u64 \<Rightarrow> u32 \<Rightarrow> consensus_error + bytes" where
  "cache_signature_hash H cache input_index previous_script previous_value hash_type =
     and_then (ok_or (get (tx_inputs (shc_transaction cache)) input_index)
       (Authorization (''signature input index '' @ decimal input_index @ '' is outside '' @
         decimal (length (tx_inputs (shc_transaction cache))) @ '' inputs''))) (\<lambda>input.
     Inr (H (sighash_preimage cache input_index input previous_script previous_value hash_type)))"

definition is_valid_signature_hash_type :: "u8 \<Rightarrow> bool" where
  "is_valid_signature_hash_type hash_type =
     (let normalized = ucast hash_type AND NOT (sighash_noinput OR sighash_anyone_can_pay)
      in sighash_all \<le> normalized \<and> normalized \<le> sighash_single_reverse)"

definition signature_hash ::
  "(bytes \<Rightarrow> bytes) \<Rightarrow> transaction \<Rightarrow> nat \<Rightarrow> bytes \<Rightarrow> u64 \<Rightarrow> u32 \<Rightarrow> consensus_error + bytes" where
  "signature_hash H tx input_index previous_script previous_value hash_type =
     cache_signature_hash H (signature_hash_cache_new H tx) input_index previous_script previous_value hash_type"

subsection \<open>What a signature commits to\<close>

lemma message_parts:
  assumes "a @ hp @ hs @ op @ write_varbytes s @ v @ q @ ho @ l @ t =
      a' @ hp' @ hs' @ op' @ write_varbytes s' @ v' @ q' @ ho' @ l' @ (t' :: bytes)"
    and "length a = length a'" and "length hp = length hp'" and "length hs = length hs'" and "length op = length op'"
    and "length v = length v'" and "length q = length q'" and "length ho = length ho'" and "length l = length l'"
    and "length s \<le> m" and "length s' \<le> m"
    and "length (write_varbytes s @ v @ q @ ho @ l @ t) \<le> usize_max"
  shows "a = a' \<and> hp = hp' \<and> hs = hs' \<and> op = op' \<and> s = s' \<and> v = v' \<and> q = q' \<and> ho = ho' \<and> l = l' \<and> t = t'"
proof -
  have "a = a'" "hp = hp'" "hs = hs'" "op = op'"
    and rest: "write_varbytes s @ v @ q @ ho @ l @ t = write_varbytes s' @ v' @ q' @ ho' @ l' @ t'"
    using assms(1-5) by (simp_all add: append_eq_append_conv)
  moreover have "s = s' \<and> v @ q @ ho @ l @ t = v' @ q' @ ho' @ l' @ t'"
    by (rule varbytes_codec.prefix_free [of s m s' "v @ q @ ho @ l @ t" "v' @ q' @ ho' @ l' @ t'", OF assms(10,11) rest assms(12)])
  ultimately show ?thesis using assms(6-9) by (simp add: append_eq_append_conv)
qed

definition sighash_inputs :: "(bytes \<Rightarrow> bytes) \<Rightarrow> transaction \<Rightarrow> nat \<Rightarrow> bytes \<Rightarrow> u64 \<Rightarrow> u32 \<Rightarrow> bytes set" where
  "sighash_inputs H tx i script v ty =
     {sighash_preimage (signature_hash_cache_new H tx) i (tx_inputs tx ! i) script v ty,
      concat (map (\<lambda>input. write_outpoint (in_prevout input)) (tx_inputs tx)),
      concat (map (\<lambda>input. write_u32 (in_sequence input)) (tx_inputs tx)),
      concat (map write_output (tx_outputs tx))} \<union> write_output ` set (tx_outputs tx)"

lemma length_write_outpoint: "outpoint_ok op \<Longrightarrow> length (write_outpoint op) = 36"
  by (simp add: write_outpoint_def outpoint_ok_def write_bytes_def write_u32_def)

lemma length_selected_outputs_hash:
  assumes "\<And>b. length (H b) = 32"
  shows "length (selected_outputs_hash (signature_hash_cache_new H tx) i base) = 32"
  using assms by (auto simp: selected_outputs_hash_def signature_hash_cache_new_def usize_checked_add_def
      split: option.splits if_splits)

lemma outpoint_ok_null: "outpoint_ok \<lparr>op_txid = zero_hash, op_index = - 1\<rparr>"
  by (simp add: outpoint_ok_def)

text \<open>The parts of the message, given the transaction and the selected input.\<close>

definition signed_outpoint :: "txin \<Rightarrow> u32 \<Rightarrow> outpoint \<times> u32" where
  "signed_outpoint input ty =
     (if ty AND sighash_noinput \<noteq> 0 then (\<lparr>op_txid = zero_hash, op_index = - 1\<rparr>, - 1) else (in_prevout input, in_sequence input))"

definition signed_prevouts :: "signature_hash_cache \<Rightarrow> u32 \<Rightarrow> bytes" where
  "signed_prevouts cache ty = (if ty AND sighash_anyone_can_pay \<noteq> 0 then zero_hash else shc_hash_prevouts cache)"

definition signed_sequences :: "signature_hash_cache \<Rightarrow> u32 \<Rightarrow> bytes" where
  "signed_sequences cache ty =
     (if ty AND sighash_anyone_can_pay \<noteq> 0 \<or> ty AND sighash_base_mask \<in> {sighash_none, sighash_single, sighash_single_reverse}
      then zero_hash else shc_hash_sequences cache)"

lemma sighash_preimage_eq:
  "sighash_preimage (signature_hash_cache_new H tx) i input script v ty =
     write_u32 (tx_version tx) @ signed_prevouts (signature_hash_cache_new H tx) ty @
     signed_sequences (signature_hash_cache_new H tx) ty @
     write_outpoint (fst (signed_outpoint input ty)) @ write_varbytes script @ write_u64 v @
     write_u32 (snd (signed_outpoint input ty)) @
     selected_outputs_hash (signature_hash_cache_new H tx) i (ty AND sighash_base_mask) @
     write_u32 (tx_locktime tx) @ write_u32 ty"
  by (simp add: sighash_preimage_def Let_def signed_outpoint_def signed_prevouts_def signed_sequences_def)
    (simp add: signature_hash_cache_new_def)

lemma length_signed:
  assumes "\<And>b. length (H b) = 32"
  shows "length (signed_prevouts (signature_hash_cache_new H tx) ty) = 32"
    and "length (signed_sequences (signature_hash_cache_new H tx) ty) = 32"
  using assms by (simp_all add: signed_prevouts_def signed_sequences_def signature_hash_cache_new_def)

lemma fits_lists:
  assumes "transaction_fits tx"
  shows "length (concat (map (\<lambda>input. write_outpoint (in_prevout input)) (tx_inputs tx))) \<le> usize_max"
    and "length (concat (map (\<lambda>input. write_u32 (in_sequence input)) (tx_inputs tx))) \<le> usize_max"
    and "length (concat (map write_output (tx_outputs tx))) \<le> usize_max"
proof -
  have base: "length (concat (map write_input (tx_inputs tx))) + length (concat (map write_output (tx_outputs tx))) \<le> usize_max"
    using assms by (simp add: transaction_fits_def write_transaction_def write_transaction_base_def)
  have 1: "length (concat (map (\<lambda>input. write_outpoint (in_prevout input)) ins)) \<le> length (concat (map write_input ins))"
    for ins by (induction ins) (simp_all add: write_input_def)
  have 2: "length (concat (map (\<lambda>input. write_u32 (in_sequence input)) ins)) \<le> length (concat (map write_input ins))"
    for ins by (induction ins) (simp_all add: write_input_def)
  show "length (concat (map (\<lambda>input. write_outpoint (in_prevout input)) (tx_inputs tx))) \<le> usize_max"
    "length (concat (map (\<lambda>input. write_u32 (in_sequence input)) (tx_inputs tx))) \<le> usize_max"
    "length (concat (map write_output (tx_outputs tx))) \<le> usize_max"
    using base 1 [of "tx_inputs tx"] 2 [of "tx_inputs tx"] by linarith+
qed

lemma prevouts_inject:
  assumes "transaction_fits t" and "transaction_fits u"
    and "concat (map (\<lambda>input. write_outpoint (in_prevout input)) (tx_inputs t)) =
      concat (map (\<lambda>input. write_outpoint (in_prevout input)) (tx_inputs u))"
  shows "map in_prevout (tx_inputs t) = map in_prevout (tx_inputs u)"
proof (rule outpoint_codec.concat_inject)
  show "write_outpoint op \<noteq> []" if "outpoint_ok op" for op using length_write_outpoint [OF that] by auto
  show "concat (map write_outpoint (map in_prevout (tx_inputs t))) = concat (map write_outpoint (map in_prevout (tx_inputs u)))"
    using assms(3) by (simp add: comp_def)
  show "length (concat (map write_outpoint (map in_prevout (tx_inputs t)))) \<le> usize_max"
    using fits_lists(1) [OF assms(1)] by (simp add: comp_def)
qed (use assms(1,2) in \<open>auto simp: transaction_fits_def transaction_ok_def list_all_iff input_ok_def\<close>)

lemma sequences_inject:
  assumes "transaction_fits t"
    and "concat (map (\<lambda>input. write_u32 (in_sequence input)) (tx_inputs t)) =
      concat (map (\<lambda>input. write_u32 (in_sequence input)) (tx_inputs u))"
  shows "map in_sequence (tx_inputs t) = map in_sequence (tx_inputs u)"
proof (rule u32_codec.concat_inject)
  show "write_u32 w \<noteq> []" for w using length_to_le_bytes [of w] by (auto simp: write_u32_def simp del: length_to_le_bytes)
  show "concat (map write_u32 (map in_sequence (tx_inputs t))) = concat (map write_u32 (map in_sequence (tx_inputs u)))"
    using assms(2) by (simp add: comp_def)
  show "length (concat (map write_u32 (map in_sequence (tx_inputs t)))) \<le> usize_max"
    using fits_lists(2) [OF assms(1)] by (simp add: comp_def)
qed simp_all

lemma outputs_inject:
  assumes "transaction_fits t" and "transaction_fits u"
    and "concat (map write_output (tx_outputs t)) = concat (map write_output (tx_outputs u))"
  shows "tx_outputs t = tx_outputs u"
proof (rule output_codec.concat_inject [OF _ _ _ assms(3)])
  show "write_output out \<noteq> []" if "output_ok out" for out using length_write_output [OF that] by auto
  show "length (concat (map write_output (tx_outputs t))) \<le> usize_max" by (rule fits_lists(3) [OF assms(1)])
qed (use assms(1,2) in \<open>auto simp: transaction_fits_def transaction_ok_def list_all_iff\<close>)

lemma output_inject:
  assumes "transaction_fits t" and "transaction_fits u" and "a \<in> set (tx_outputs t)" and "b \<in> set (tx_outputs u)"
    and "write_output a = write_output b"
  shows "a = b"
proof -
  have "length (write_output a) \<le> length (concat (map write_output outs))" if "a \<in> set outs" for outs
    using that by (induction outs) auto
  from this [OF assms(3)]
  have "length (write_output a) \<le> usize_max" using fits_lists(3) [OF assms(1)] by linarith
  moreover have "output_ok a" "output_ok b"
    using assms(1-4) by (auto simp: transaction_fits_def transaction_ok_def list_all_iff)
  ultimately show ?thesis using output_codec.prefix_free [of a b "[]" "[]"] assms(5) by simp
qed

lemma signature_hash_Inr:
  "signature_hash H tx i script v ty = Inr h \<longleftrightarrow>
     i < length (tx_inputs tx) \<and> h = H (sighash_preimage (signature_hash_cache_new H tx) i (tx_inputs tx ! i) script v ty)"
  by (auto simp: signature_hash_def cache_signature_hash_def and_then_eq_Inr signature_hash_cache_new_def)

lemma write_u_inject: "write_u32 a = write_u32 b \<Longrightarrow> a = b" "write_u64 c = write_u64 d \<Longrightarrow> c = d"
  using u32_codec.prefix_free [where x = a and y = b and s = "[]" and t = "[]"]
    u64_codec.prefix_free [where x = c and y = d and s = "[]" and t = "[]"]
  by (simp_all add: write_u32_def write_u64_def usize_max_def)

lemma sighash_parts:
  assumes len: "\<And>b. length (H b) = 32"
    and ok: "outpoint_ok (in_prevout input)" "outpoint_ok (in_prevout input')"
    and size: "length script \<le> max_tx_size" "length script' \<le> max_tx_size"
    and pre: "sighash_preimage (signature_hash_cache_new H t) i input script v ty =
      sighash_preimage (signature_hash_cache_new H u) j input' script' v' ty'"
  shows "ty' = ty \<and> tx_version u = tx_version t \<and> tx_locktime u = tx_locktime t \<and> script' = script \<and> v' = v \<and>
    signed_outpoint input ty = signed_outpoint input' ty \<and>
    signed_prevouts (signature_hash_cache_new H t) ty = signed_prevouts (signature_hash_cache_new H u) ty \<and>
    signed_sequences (signature_hash_cache_new H t) ty = signed_sequences (signature_hash_cache_new H u) ty \<and>
    selected_outputs_hash (signature_hash_cache_new H t) i (ty AND sighash_base_mask) =
      selected_outputs_hash (signature_hash_cache_new H u) j (ty AND sighash_base_mask)"
proof -
  have signed: "outpoint_ok (fst (signed_outpoint input ty))" "outpoint_ok (fst (signed_outpoint input' ty'))"
    using ok by (simp_all add: signed_outpoint_def outpoint_ok_null)
  note parts = message_parts [where m = max_tx_size, OF pre [unfolded sighash_preimage_eq]]
  have "write_u32 (tx_version t) = write_u32 (tx_version u) \<and>
    signed_prevouts (signature_hash_cache_new H t) ty = signed_prevouts (signature_hash_cache_new H u) ty' \<and>
    signed_sequences (signature_hash_cache_new H t) ty = signed_sequences (signature_hash_cache_new H u) ty' \<and>
    write_outpoint (fst (signed_outpoint input ty)) = write_outpoint (fst (signed_outpoint input' ty')) \<and>
    script = script' \<and> write_u64 v = write_u64 v' \<and>
    write_u32 (snd (signed_outpoint input ty)) = write_u32 (snd (signed_outpoint input' ty')) \<and>
    selected_outputs_hash (signature_hash_cache_new H t) i (ty AND sighash_base_mask) =
      selected_outputs_hash (signature_hash_cache_new H u) j (ty' AND sighash_base_mask) \<and>
    write_u32 (tx_locktime t) = write_u32 (tx_locktime u) \<and> write_u32 ty = write_u32 ty'"
    by (rule parts) (use size length_write_varint_le [of "word_of_nat (length script)"]
        in \<open>simp_all add: length_write_outpoint signed length_signed len length_selected_outputs_hash
          write_u32_def write_u64_def write_varbytes_def write_bytes_def max_tx_size_def usize_max_def\<close>)
  moreover have "fst (signed_outpoint input ty) = fst (signed_outpoint input' ty')"
    if "write_outpoint (fst (signed_outpoint input ty)) = write_outpoint (fst (signed_outpoint input' ty'))"
    using outpoint_codec.prefix_free [of "fst (signed_outpoint input ty)" "fst (signed_outpoint input' ty')" "[]" "[]"]
      signed that by (simp add: length_write_outpoint usize_max_def)
  ultimately show ?thesis
    using write_u_inject(1) [of ty ty'] write_u_inject(1) [of "tx_version t" "tx_version u"]
      write_u_inject(1) [of "tx_locktime t" "tx_locktime u"] write_u_inject(2) [of v v']
      write_u_inject(1) [of "snd (signed_outpoint input ty)" "snd (signed_outpoint input' ty')"]
    by (simp add: prod_eq_iff)
qed

lemma outputs_in_range:
  assumes "transaction_fits tx"
  shows "length (tx_outputs tx) \<le> usize_max"
proof -
  have "length outs \<le> length (concat (map write_output outs))" if "list_all output_ok outs" for outs
    using that by (induction outs) (auto simp: Suc_le_eq dest: length_write_output)
  moreover have "list_all output_ok (tx_outputs tx)"
    using assms by (simp add: transaction_fits_def transaction_ok_def)
  ultimately show ?thesis using fits_lists(3) [OF assms] le_trans by blast
qed

lemma selected_outputs_hash_single:
  "selected_outputs_hash (signature_hash_cache_new H tx) i sighash_single =
     (if i < length (tx_outputs tx) then H (write_output (tx_outputs tx ! i)) else zero_hash)"
  by (simp add: selected_outputs_hash_def signature_hash_cache_new_def sighash_constants get_def)

lemma selected_outputs_hash_single_reverse:
  assumes "transaction_fits tx"
  shows "selected_outputs_hash (signature_hash_cache_new H tx) i sighash_single_reverse =
     (if i < length (tx_outputs tx) then H (write_output (rev (tx_outputs tx) ! i)) else zero_hash)"
  using outputs_in_range [OF assms]
  by (auto simp: selected_outputs_hash_def signature_hash_cache_new_def sighash_constants get_def usize_checked_add_def
      rev_nth split: if_splits)

lemma selected_outputs_hash_zero:
  assumes "transaction_fits tx" and "base \<in> {sighash_single, sighash_single_reverse}"
    and "zero_hash \<notin> (\<lambda>out. H (write_output out)) ` set (tx_outputs tx)"
  shows "selected_outputs_hash (signature_hash_cache_new H tx) i base = zero_hash \<longleftrightarrow> \<not> i < length (tx_outputs tx)"
proof -
  have "H (write_output (outs ! i)) \<noteq> zero_hash" if "i < length outs" "set outs = set (tx_outputs tx)" for outs
    using assms(3) that nth_mem [OF that(1)] by (metis image_eqI)
  from this [of "tx_outputs tx"] this [of "rev (tx_outputs tx)"] show ?thesis
    using assms(2) selected_outputs_hash_single selected_outputs_hash_single_reverse [OF assms(1)] by auto
qed

lemma selected_output_binds:
  assumes fits: "transaction_fits t" "transaction_fits u"
    and eq: "selected_outputs_hash (signature_hash_cache_new H t) i base = selected_outputs_hash (signature_hash_cache_new H u) j base"
    and same: "\<And>a b. a \<in> set (tx_outputs t) \<Longrightarrow> b \<in> set (tx_outputs u) \<Longrightarrow> H (write_output a) = H (write_output b) \<Longrightarrow> b = a"
  shows "base = sighash_single \<and> i < length (tx_outputs t) \<and> j < length (tx_outputs u) \<longrightarrow> tx_outputs u ! j = tx_outputs t ! i"
    and "base = sighash_single_reverse \<and> i < length (tx_outputs t) \<and> j < length (tx_outputs u) \<longrightarrow>
      rev (tx_outputs u) ! j = rev (tx_outputs t) ! i"
    and "base \<in> {sighash_single, sighash_single_reverse} \<and>
      zero_hash \<notin> (\<lambda>out. H (write_output out)) ` (set (tx_outputs t) \<union> set (tx_outputs u)) \<longrightarrow>
      (j < length (tx_outputs u) \<longleftrightarrow> i < length (tx_outputs t))"
proof -
  note selected = selected_outputs_hash_single selected_outputs_hash_single_reverse [OF fits(1)]
    selected_outputs_hash_single_reverse [OF fits(2)]
  show "base = sighash_single \<and> i < length (tx_outputs t) \<and> j < length (tx_outputs u) \<longrightarrow> tx_outputs u ! j = tx_outputs t ! i"
    using eq by (intro impI same) (auto simp: selected)
  show "base = sighash_single_reverse \<and> i < length (tx_outputs t) \<and> j < length (tx_outputs u) \<longrightarrow>
      rev (tx_outputs u) ! j = rev (tx_outputs t) ! i"
    using eq by (intro impI same) (auto simp: selected rev_nth)
  show "base \<in> {sighash_single, sighash_single_reverse} \<and>
      zero_hash \<notin> (\<lambda>out. H (write_output out)) ` (set (tx_outputs t) \<union> set (tx_outputs u)) \<longrightarrow>
      (j < length (tx_outputs u) \<longleftrightarrow> i < length (tx_outputs t))"
    using eq selected_outputs_hash_zero [OF fits(1), of base H i] selected_outputs_hash_zero [OF fits(2), of base H j]
    unfolding image_Un by (metis Un_iff)
qed

text \<open>
  C12: what a signature hash commits to.  Unless two different byte strings hashed on the way collide,
  equal hashes mean the same type, version, lock time, script and value; the same signed input unless
  NOINPUT is set; the same spent outpoints unless ANYONECANPAY is set; and, by the base type, the same
  sequences and all outputs (any type but the three below), the output at the index of the input
  (SINGLE), or the output at that index counted from the end (SINGLE_REVERSE).  Where the index selects
  an output in one transaction it does so in the other, unless an output hashes to the zero hash that
  stands for no output.  NONE commits to no output.
\<close>

theorem signature_hash_binds:
  assumes len: "\<And>b. length (H b) = 32" and fits: "transaction_fits t" "transaction_fits u"
    and size: "length script \<le> max_tx_size" "length script' \<le> max_tx_size"
    and hash: "signature_hash H t i script v ty = Inr h" "signature_hash H u j script' v' ty' = Inr h"
    and nc: "\<not> collision H (sighash_inputs H t i script v ty) (sighash_inputs H u j script' v' ty')"
  shows "ty' = ty \<and> tx_version u = tx_version t \<and> tx_locktime u = tx_locktime t \<and> script' = script \<and> v' = v \<and>
    (ty AND sighash_noinput = 0 \<longrightarrow> in_prevout (tx_inputs u ! j) = in_prevout (tx_inputs t ! i) \<and>
       in_sequence (tx_inputs u ! j) = in_sequence (tx_inputs t ! i)) \<and>
    (ty AND sighash_anyone_can_pay = 0 \<longrightarrow> map in_prevout (tx_inputs u) = map in_prevout (tx_inputs t)) \<and>
    (ty AND sighash_base_mask = sighash_single \<and> i < length (tx_outputs t) \<and> j < length (tx_outputs u) \<longrightarrow>
       tx_outputs u ! j = tx_outputs t ! i) \<and>
    (ty AND sighash_base_mask = sighash_single_reverse \<and> i < length (tx_outputs t) \<and> j < length (tx_outputs u) \<longrightarrow>
       rev (tx_outputs u) ! j = rev (tx_outputs t) ! i) \<and>
    (ty AND sighash_base_mask \<in> {sighash_single, sighash_single_reverse} \<and>
       zero_hash \<notin> (\<lambda>out. H (write_output out)) ` (set (tx_outputs t) \<union> set (tx_outputs u)) \<longrightarrow>
       (j < length (tx_outputs u) \<longleftrightarrow> i < length (tx_outputs t))) \<and>
    (ty AND sighash_base_mask \<notin> {sighash_none, sighash_single, sighash_single_reverse} \<longrightarrow>
       tx_outputs u = tx_outputs t \<and>
       (ty AND sighash_anyone_can_pay = 0 \<longrightarrow> map in_sequence (tx_inputs u) = map in_sequence (tx_inputs t)))"
proof -
  let ?ct = "signature_hash_cache_new H t" and ?cu = "signature_hash_cache_new H u"
  have idx: "i < length (tx_inputs t)" "j < length (tx_inputs u)"
    and pre: "sighash_preimage ?ct i (tx_inputs t ! i) script v ty = sighash_preimage ?cu j (tx_inputs u ! j) script' v' ty'"
    using hash by (auto simp: signature_hash_Inr sighash_inputs_def intro: collisionI [OF _ _ _ nc])
  have ok: "outpoint_ok (in_prevout (tx_inputs t ! i))" "outpoint_ok (in_prevout (tx_inputs u ! j))"
    using fits idx by (auto simp: transaction_fits_def transaction_ok_def list_all_iff input_ok_def)
  note parts = sighash_parts [OF len ok size pre]
  have prevouts: "map in_prevout (tx_inputs u) = map in_prevout (tx_inputs t)" if "ty AND sighash_anyone_can_pay = 0"
  proof (rule prevouts_inject [OF fits, symmetric], rule collisionI [OF _ _ _ nc])
    show "H (concat (map (\<lambda>input. write_outpoint (in_prevout input)) (tx_inputs t))) =
        H (concat (map (\<lambda>input. write_outpoint (in_prevout input)) (tx_inputs u)))"
      using parts that by (simp add: signed_prevouts_def signature_hash_cache_new_def)
  qed (simp_all add: sighash_inputs_def)
  have sequences: "map in_sequence (tx_inputs u) = map in_sequence (tx_inputs t)"
    if "ty AND sighash_anyone_can_pay = 0" "ty AND sighash_base_mask \<notin> {sighash_none, sighash_single, sighash_single_reverse}"
  proof (rule sequences_inject [OF fits(1), symmetric], rule collisionI [OF _ _ _ nc])
    show "H (concat (map (\<lambda>input. write_u32 (in_sequence input)) (tx_inputs t))) =
        H (concat (map (\<lambda>input. write_u32 (in_sequence input)) (tx_inputs u)))"
      using parts that by (simp add: signed_sequences_def signature_hash_cache_new_def)
  qed (simp_all add: sighash_inputs_def)
  have outputs: "tx_outputs u = tx_outputs t"
    if "ty AND sighash_base_mask \<notin> {sighash_none, sighash_single, sighash_single_reverse}"
  proof (rule outputs_inject [OF fits, symmetric], rule collisionI [OF _ _ _ nc])
    show "H (concat (map write_output (tx_outputs t))) = H (concat (map write_output (tx_outputs u)))"
      using parts that by (simp add: selected_outputs_hash_def signature_hash_cache_new_def)
  qed (simp_all add: sighash_inputs_def)
  have same: "b = a" if "a \<in> set (tx_outputs t)" "b \<in> set (tx_outputs u)" "H (write_output a) = H (write_output b)" for a b
    by (rule output_inject [OF fits that(1,2), symmetric], rule collisionI [OF that(3) _ _ nc])
      (simp_all add: sighash_inputs_def that)
  have selected: "selected_outputs_hash ?ct i (ty AND sighash_base_mask) = selected_outputs_hash ?cu j (ty AND sighash_base_mask)"
    using parts by simp
  note selection = selected_output_binds [OF fits selected same]
  have input: "in_prevout (tx_inputs u ! j) = in_prevout (tx_inputs t ! i) \<and> in_sequence (tx_inputs u ! j) = in_sequence (tx_inputs t ! i)"
    if "ty AND sighash_noinput = 0"
    using parts that by (simp add: signed_outpoint_def)
  show ?thesis using parts prevouts sequences outputs selection input by blast
qed

text \<open>Two transactions that differ in the witness have the same signature hash.\<close>

definition example_signed :: "bytes list \<Rightarrow> transaction" where
  "example_signed w = \<lparr>tx_version = 1,
     tx_inputs = [\<lparr>in_prevout = \<lparr>op_txid = replicate 32 5, op_index = 0\<rparr>, in_sequence = 7, in_witness = w\<rparr>],
     tx_outputs = [], tx_locktime = 0\<rparr>"

theorem signature_hash_binds_witness:
  "map in_prevout (tx_inputs (example_signed [[1]])) = map in_prevout (tx_inputs (example_signed []))"
proof -
  have len: "length (keep_bytes 32 b) = 32" for b by (rule length_keep_bytes)
  have fits: "transaction_fits (example_signed [])" "transaction_fits (example_signed [[1]])" by code_simp+
  have "signature_hash (keep_bytes 32) (example_signed w) 0 [0xac] 9 1 =
      Inr (keep_bytes 32 (sighash_preimage (signature_hash_cache_new (keep_bytes 32) (example_signed [])) 0
        (tx_inputs (example_signed []) ! 0) [0xac] 9 1))" if "w \<in> {[], [[1]]}" for w
    using that by (elim insertE emptyE) (simp_all only:, code_simp+)
  then have hash: "signature_hash (keep_bytes 32) (example_signed []) 0 [0xac] 9 1 = signature_hash (keep_bytes 32) (example_signed [[1]]) 0 [0xac] 9 1"
    "\<exists>h. signature_hash (keep_bytes 32) (example_signed []) 0 [0xac] 9 1 = Inr h" by simp_all
  have nc: "\<not> collision (keep_bytes 32) (sighash_inputs (keep_bytes 32) (example_signed []) 0 [0xac] 9 1)
      (sighash_inputs (keep_bytes 32) (example_signed [[1]]) 0 [0xac] 9 1)" by code_simp
  from hash obtain h where "signature_hash (keep_bytes 32) (example_signed []) 0 [0xac] 9 1 = Inr h"
    "signature_hash (keep_bytes 32) (example_signed [[1]]) 0 [0xac] 9 1 = Inr h" by auto
  from signature_hash_binds [OF len fits _ _ this nc] show ?thesis
    by (simp add: max_tx_size_def sighash_constants)
qed

end
