(* ===== verification/Legacy_Hash.thy ===== *)
theory Legacy_Hash
  imports Prelude
begin

unbundle bit_operations_syntax

text \<open>
  The Bitcoin-family hash functions of the script machine,
  \<^verbatim>\<open>crates/hns-primitives/src/legacy_hash.rs\<close>: SHA-1, SHA-256, RIPEMD-160 and their compositions.
  Arrays of words are lists; a loop that writes \<^verbatim>\<open>words[index]\<close> for increasing \<open>index\<close> appends.
  Slices are never longer than \<^verbatim>\<open>isize::MAX\<close>, so the two length checks of the padding cannot fail.
\<close>

subsection \<open>Padding\<close>

datatype length_endian = LengthBig | LengthLittle

fun chunks_exact :: "nat \<Rightarrow> nat \<Rightarrow> 'a list \<Rightarrow> 'a list list" where
  "chunks_exact n 0 xs = []"
| "chunks_exact n (Suc count) xs = take n xs # chunks_exact n count (drop n xs)"

definition padded_size :: "nat \<Rightarrow> nat" where
  "padded_size len = (len + 1 + 8 + 63) div 64 * 64"

definition padded_bytes :: "bytes \<Rightarrow> length_endian \<Rightarrow> bytes" where
  "padded_bytes input endian =
     (let bit_length = word_of_nat (length input) * 8 :: u64;
          padded = padded_size (length input);
          len = (case endian of LengthBig \<Rightarrow> to_be_bytes bit_length | LengthLittle \<Rightarrow> to_le_bytes bit_length)
      in input @ [0x80] @ replicate (padded - 8 - length input - 1) 0 @ len)"

definition padded_blocks :: "bytes \<Rightarrow> length_endian \<Rightarrow> bytes list" where
  "padded_blocks input endian =
     (let bytes = padded_bytes input endian in chunks_exact 64 (length bytes div 64) bytes)"

definition words_to_be_bytes :: "u32 list \<Rightarrow> bytes" where
  "words_to_be_bytes words = concat (map to_be_bytes words)"

text \<open>The message schedule: \<open>next\<close> computes the word at an index from the earlier ones.\<close>

definition extend_words :: "(u32 list \<Rightarrow> nat \<Rightarrow> u32) \<Rightarrow> nat \<Rightarrow> u32 list \<Rightarrow> u32 list" where
  "extend_words next count words = fold (\<lambda>index ws. ws @ [next ws index]) [16..<count] words"

subsection \<open>SHA-1\<close>

type_synonym sha1_state = "u32 \<times> u32 \<times> u32 \<times> u32 \<times> u32"

definition sha1_schedule :: "u32 list \<Rightarrow> nat \<Rightarrow> u32" where
  "sha1_schedule ws index =
     word_rotl 1 (ws ! (index - 3) XOR ws ! (index - 8) XOR ws ! (index - 14) XOR ws ! (index - 16))"

definition sha1_round :: "nat \<times> u32 \<Rightarrow> sha1_state \<Rightarrow> sha1_state" where
  "sha1_round entry state =
     (let (index, word) = entry; (a, b, c, d, e) = state;
          (function, constant) =
            (if index \<le> 19 then ((b AND c) OR (NOT b AND d), 0x5a827999)
             else if index \<le> 39 then (b XOR c XOR d, 0x6ed9eba1)
             else if index \<le> 59 then ((b AND c) OR (b AND d) OR (c AND d), 0x8f1bbcdc)
             else (b XOR c XOR d, 0xca62c1d6));
          next = word_rotl 5 a + function + e + constant + word
      in (next, a, word_rotl 30 b, c, d))"

definition sha1_block :: "bytes \<Rightarrow> sha1_state \<Rightarrow> sha1_state" where
  "sha1_block block state =
     (let words = extend_words sha1_schedule 80 (map from_be_bytes (chunks_exact 4 16 block));
          (s0, s1, s2, s3, s4) = state;
          (a, b, c, d, e) = fold sha1_round (enumerate 0 words) state
      in (s0 + a, s1 + b, s2 + c, s3 + d, s4 + e))"

definition sha1 :: "bytes \<Rightarrow> bytes" where
  "sha1 input =
     (let (s0, s1, s2, s3, s4) = fold sha1_block (padded_blocks input LengthBig)
            (0x67452301, 0xefcdab89, 0x98badcfe, 0x10325476, 0xc3d2e1f0)
      in words_to_be_bytes [s0, s1, s2, s3, s4])"

subsection \<open>SHA-256\<close>

text \<open>
  The table \<^verbatim>\<open>K\<close> of round constants is the argument \<open>k\<close>: nothing below depends on its 64 numbers.
\<close>

type_synonym sha256_state = "u32 \<times> u32 \<times> u32 \<times> u32 \<times> u32 \<times> u32 \<times> u32 \<times> u32"

definition sha256_schedule :: "u32 list \<Rightarrow> nat \<Rightarrow> u32" where
  "sha256_schedule ws index =
     (let w15 = ws ! (index - 15); w2 = ws ! (index - 2);
          s0 = word_rotr 7 w15 XOR word_rotr 18 w15 XOR drop_bit 3 w15;
          s1 = word_rotr 17 w2 XOR word_rotr 19 w2 XOR drop_bit 10 w2
      in ws ! (index - 16) + s0 + ws ! (index - 7) + s1)"

definition sha256_round :: "u32 \<times> u32 \<Rightarrow> sha256_state \<Rightarrow> sha256_state" where
  "sha256_round entry state =
     (let (k, word) = entry; (a, b, c, d, e, f, g, h) = state;
          big_s1 = word_rotr 6 e XOR word_rotr 11 e XOR word_rotr 25 e;
          choice = (e AND f) XOR (NOT e AND g);
          t1 = h + big_s1 + choice + k + word;
          big_s0 = word_rotr 2 a XOR word_rotr 13 a XOR word_rotr 22 a;
          majority = (a AND b) XOR (a AND c) XOR (b AND c);
          t2 = big_s0 + majority
      in (t1 + t2, a, b, c, d + t1, e, f, g))"

definition sha256_block :: "u32 list \<Rightarrow> bytes \<Rightarrow> sha256_state \<Rightarrow> sha256_state" where
  "sha256_block k block state =
     (let words = extend_words sha256_schedule 64 (map from_be_bytes (chunks_exact 4 16 block));
          (s0, s1, s2, s3, s4, s5, s6, s7) = state;
          (a, b, c, d, e, f, g, h) = fold sha256_round (zip k words) state
      in (s0 + a, s1 + b, s2 + c, s3 + d, s4 + e, s5 + f, s6 + g, s7 + h))"

definition sha256 :: "u32 list \<Rightarrow> bytes \<Rightarrow> bytes" where
  "sha256 k input =
     (let (s0, s1, s2, s3, s4, s5, s6, s7) = fold (sha256_block k) (padded_blocks input LengthBig)
            (0x6a09e667, 0xbb67ae85, 0x3c6ef372, 0xa54ff53a, 0x510e527f, 0x9b05688c, 0x1f83d9ab, 0x5be0cd19)
      in words_to_be_bytes [s0, s1, s2, s3, s4, s5, s6, s7])"

subsection \<open>RIPEMD-160\<close>

definition r_left :: "nat list" where
  "r_left = [
    0, 1, 2, 3, 4, 5, 6, 7, 8, 9, 10, 11, 12, 13, 14, 15,
    7, 4, 13, 1, 10, 6, 15, 3, 12, 0, 9, 5, 2, 14, 11, 8,
    3, 10, 14, 4, 9, 15, 8, 1, 2, 7, 0, 6, 13, 11, 5, 12,
    1, 9, 11, 10, 0, 8, 12, 4, 13, 3, 7, 15, 14, 5, 6, 2,
    4, 0, 5, 9, 7, 12, 2, 10, 14, 1, 3, 8, 11, 6, 15, 13]"

definition r_right :: "nat list" where
  "r_right = [
    5, 14, 7, 0, 9, 2, 11, 4, 13, 6, 15, 8, 1, 10, 3, 12,
    6, 11, 3, 7, 0, 13, 5, 10, 14, 15, 8, 12, 4, 9, 1, 2,
    15, 5, 1, 3, 7, 14, 6, 9, 11, 8, 12, 2, 10, 0, 4, 13,
    8, 6, 4, 1, 3, 11, 15, 0, 5, 12, 2, 13, 9, 7, 10, 14,
    12, 15, 10, 4, 1, 5, 8, 7, 6, 2, 13, 14, 0, 3, 9, 11]"

definition s_left :: "nat list" where
  "s_left = [
    11, 14, 15, 12, 5, 8, 7, 9, 11, 13, 14, 15, 6, 7, 9, 8,
    7, 6, 8, 13, 11, 9, 7, 15, 7, 12, 15, 9, 11, 7, 13, 12,
    11, 13, 6, 7, 14, 9, 13, 15, 14, 8, 13, 6, 5, 12, 7, 5,
    11, 12, 14, 15, 14, 15, 9, 8, 9, 14, 5, 6, 8, 6, 5, 12,
    9, 15, 5, 11, 6, 8, 13, 12, 5, 12, 13, 14, 11, 8, 5, 6]"

definition s_right :: "nat list" where
  "s_right = [
    8, 9, 9, 11, 13, 15, 15, 5, 7, 7, 8, 11, 14, 14, 12, 6,
    9, 13, 15, 7, 12, 8, 9, 11, 7, 7, 12, 7, 6, 15, 13, 11,
    9, 7, 15, 11, 8, 6, 6, 14, 12, 13, 5, 14, 13, 13, 7, 5,
    15, 5, 8, 11, 14, 14, 6, 14, 6, 9, 12, 9, 12, 5, 15, 8,
    8, 5, 12, 9, 12, 5, 14, 6, 8, 13, 6, 5, 15, 13, 11, 11]"

definition ripemd_function :: "nat \<Rightarrow> u32 \<Rightarrow> u32 \<Rightarrow> u32 \<Rightarrow> u32" where
  "ripemd_function round x y z =
     (if round \<le> 15 then x XOR y XOR z
      else if round \<le> 31 then (x AND y) OR (NOT x AND z)
      else if round \<le> 47 then (x OR NOT y) XOR z
      else if round \<le> 63 then (x AND z) OR (y AND NOT z)
      else x XOR (y OR NOT z))"

definition ripemd_left_constant :: "nat \<Rightarrow> u32" where
  "ripemd_left_constant round =
     (if round \<le> 15 then 0x00000000 else if round \<le> 31 then 0x5a827999
      else if round \<le> 47 then 0x6ed9eba1 else if round \<le> 63 then 0x8f1bbcdc else 0xa953fd4e)"

definition ripemd_right_constant :: "nat \<Rightarrow> u32" where
  "ripemd_right_constant round =
     (if round \<le> 15 then 0x50a28be6 else if round \<le> 31 then 0x5c4dd124
      else if round \<le> 47 then 0x6d703ef3 else if round \<le> 63 then 0x7a6d76e9 else 0x00000000)"

definition ripemd_left :: "u32 list \<Rightarrow> nat \<Rightarrow> sha1_state \<Rightarrow> sha1_state" where
  "ripemd_left words index state =
     (let (al, bl, cl, dl, el) = state;
          left = word_rotl (s_left ! index)
            (al + ripemd_function index bl cl dl + words ! (r_left ! index) + ripemd_left_constant index) + el
      in (el, left, bl, word_rotl 10 cl, dl))"

definition ripemd_right :: "u32 list \<Rightarrow> nat \<Rightarrow> sha1_state \<Rightarrow> sha1_state" where
  "ripemd_right words index state =
     (let (ar, br, cr, dr, er) = state;
          right = word_rotl (s_right ! index)
            (ar + ripemd_function (79 - index) br cr dr + words ! (r_right ! index) + ripemd_right_constant index) + er
      in (er, right, br, word_rotl 10 cr, dr))"

definition ripemd160_block :: "bytes \<Rightarrow> sha1_state \<Rightarrow> sha1_state" where
  "ripemd160_block block state =
     (let words = map from_le_bytes (chunks_exact 4 16 block);
          ((al, bl, cl, dl, el), (ar, br, cr, dr, er)) =
            fold (\<lambda>index (l, r). (ripemd_left words index l, ripemd_right words index r)) [0..<80] (state, state);
          (s0, s1, s2, s3, s4) = state
      in (s1 + cl + dr, s2 + dl + er, s3 + el + ar, s4 + al + br, s0 + bl + cr))"

definition ripemd160 :: "bytes \<Rightarrow> bytes" where
  "ripemd160 input =
     (let (s0, s1, s2, s3, s4) = fold ripemd160_block (padded_blocks input LengthLittle)
            (0x67452301, 0xefcdab89, 0x98badcfe, 0x10325476, 0xc3d2e1f0)
      in concat (map to_le_bytes [s0, s1, s2, s3, s4]))"

definition hash160 :: "u32 list \<Rightarrow> bytes \<Rightarrow> bytes" where
  "hash160 k input = ripemd160 (sha256 k input)"

definition hash256 :: "u32 list \<Rightarrow> bytes \<Rightarrow> bytes" where
  "hash256 k input = sha256 k (sha256 k input)"

subsection \<open>Lengths\<close>

lemma length_words_to_be_bytes: "length (words_to_be_bytes ws) = 4 * length ws"
  by (induction ws) (simp_all add: words_to_be_bytes_def)

lemma length_sha1 [simp]: "length (sha1 input) = 20"
  by (simp add: sha1_def split_beta Let_def length_words_to_be_bytes)

lemma length_sha256 [simp]: "length (sha256 k input) = 32"
  by (simp add: sha256_def split_beta Let_def length_words_to_be_bytes)

lemma length_ripemd160 [simp]: "length (ripemd160 input) = 20"
  by (simp add: ripemd160_def split_beta Let_def)

lemma length_hash160 [simp]: "length (hash160 k input) = 20"
  by (simp add: hash160_def)

lemma length_hash256 [simp]: "length (hash256 k input) = 32"
  by (simp add: hash256_def)

subsection \<open>The padding\<close>

lemma chunks_exact_concat:
  "length xs = n * count \<Longrightarrow> concat (chunks_exact n count xs) = xs \<and>
     length (chunks_exact n count xs) = count \<and> list_all (\<lambda>c. length c = n) (chunks_exact n count xs)"
proof (induction count arbitrary: xs)
  case (Suc count)
  have "length (drop n xs) = n * count" "n \<le> length xs" using Suc.prems by simp_all
  with Suc.IH [of "drop n xs"] show ?case by simp
qed simp

lemma padded_size_bounds: "len + 9 \<le> padded_size len" "padded_size len < len + 9 + 64" "64 dvd padded_size len"
  by (simp_all add: padded_size_def)

lemma length_padded_bytes: "length (padded_bytes input endian) = padded_size (length input)"
  using padded_size_bounds(1) [of "length input"]
  by (cases endian) (simp_all add: padded_bytes_def Let_def)

lemma bit_length_inj:
  assumes "m < 2 ^ 61" and "n < 2 ^ 61" and "word_of_nat m * 8 = (word_of_nat n * 8 :: u64)"
  shows "m = n"
proof -
  have val: "unat (word_of_nat k * 8 :: u64) = k * 8" if "k < 2 ^ 61" for k
    using that by (simp add: unat_word_ariths unat_of_nat mod_simps)
  from arg_cong [OF assms(3), of unat] have "m * 8 = n * 8" unfolding val [OF assms(1)] val [OF assms(2)] .
  then show ?thesis by simp
qed

lemma to_le_bytes_u64_inj:
  assumes "to_le_bytes a = to_le_bytes (b :: u64)"
  shows "a = b"
proof -
  have inverse: "from_le_bytes (to_le_bytes w) = w" for w :: u64 by (rule from_le_to_le_bytes) simp
  from arg_cong [OF assms, of "from_le_bytes :: bytes \<Rightarrow> u64"] show ?thesis unfolding inverse .
qed

lemma padded_bytes_inj:
  assumes "padded_bytes input endian = padded_bytes input' endian"
    and "length input < 2 ^ 61" and "length input' < 2 ^ 61"
  shows "input = input'"
proof -
  let ?tail = "\<lambda>x. case endian of LengthBig \<Rightarrow> to_be_bytes (word_of_nat (length (x :: bytes)) * 8 :: u64)
    | LengthLittle \<Rightarrow> to_le_bytes (word_of_nat (length x) * 8 :: u64)"
  have len: "length (?tail x) = 8" for x by (cases endian) simp_all
  have split: "padded_bytes x endian = (x @ [0x80] @ replicate (padded_size (length x) - 8 - length x - 1) 0) @ ?tail x" for x
    by (simp add: padded_bytes_def Let_def)
  have "?tail input = ?tail input'"
    using assms(1) unfolding split [of input] split [of input']
    by (rule iffD1 [OF append_eq_append_conv, THEN conjunct2, rotated]) (simp only: len simp_thms)
  then have "word_of_nat (length input) * 8 = (word_of_nat (length input') * 8 :: u64)"
    using to_le_bytes_u64_inj by (cases endian) (auto simp: to_be_bytes_def)
  then have "length input = length input'" using assms(2,3) by (rule bit_length_inj [rotated 2])
  then show ?thesis using assms(1) by (simp add: padded_bytes_def Let_def)
qed

text \<open>
  The padding before the three legacy hash functions.  The blocks have 64 bytes each and together are the
  input, the marker 0x80, fewer than 64 zeros, and the length of the input in bits; two inputs below
  2^61 bytes with the same blocks are equal.
\<close>

theorem padded_blocks_exact:
  assumes "length input < 2 ^ 61" and "length input' < 2 ^ 61"
  shows "list_all (\<lambda>block. length block = 64) (padded_blocks input endian) \<and>
    (\<exists>zeros < 64. concat (padded_blocks input endian) = input @ [0x80] @ replicate zeros 0 @
       (case endian of LengthBig \<Rightarrow> to_be_bytes (word_of_nat (8 * length input) :: u64)
        | LengthLittle \<Rightarrow> to_le_bytes (word_of_nat (8 * length input) :: u64))) \<and>
    (padded_blocks input endian = padded_blocks input' endian \<longrightarrow> input = input')"
proof -
  have blocks: "concat (padded_blocks x endian) = padded_bytes x endian \<and> list_all (\<lambda>b. length b = 64) (padded_blocks x endian)" for x
    using chunks_exact_concat [of "padded_bytes x endian" 64 "padded_size (length x) div 64"] padded_size_bounds(3) [of "length x"]
    by (simp add: padded_blocks_def Let_def length_padded_bytes)
  let ?zeros = "padded_size (length input) - 8 - length input - 1"
  have "?zeros < 64" using padded_size_bounds(1,2) [of "length input"] by simp
  moreover have "concat (padded_blocks input endian) = input @ [0x80] @ replicate ?zeros 0 @
       (case endian of LengthBig \<Rightarrow> to_be_bytes (word_of_nat (8 * length input) :: u64)
        | LengthLittle \<Rightarrow> to_le_bytes (word_of_nat (8 * length input) :: u64))"
    using blocks [of input] by (cases endian) (simp_all add: padded_bytes_def Let_def mult.commute)
  moreover have "padded_blocks input endian = padded_blocks input' endian \<longrightarrow> input = input'"
  proof
    assume "padded_blocks input endian = padded_blocks input' endian"
    then have "padded_bytes input endian = padded_bytes input' endian"
      using conjunct1 [OF blocks [of input]] conjunct1 [OF blocks [of input']] by (simp only:)
    then show "input = input'" by (rule padded_bytes_inj [OF _ assms])
  qed
  ultimately show ?thesis using blocks [of input] by blast
qed

theorem padded_blocks_exact_witness:
  "padded_blocks [1] LengthBig \<noteq> padded_blocks [1, 0] LengthBig"
  using padded_blocks_exact [of "[1]" "[1, 0]" LengthBig] by simp

end
