(* ===== verification/Script.thy ===== *)
theory Script
  imports Sighash Legacy_Hash Deployment
begin

unbundle bit_operations_syntax

text \<open>
  The parts of the script engine below the machine, \<^verbatim>\<open>crates/hns-consensus/src/script.rs\<close>: opcodes,
  flags, errors, the parser, script numbers, and the count of signature operations.

  A Rust panic (an index or a slice out of range, an overflow, a shift that is too wide) is the error
  value \<open>SePanic\<close>, which the source does not have; the machine is shown never to produce it.
  Arithmetic is that of a build with overflow checks, where an overflow panics.
\<close>

subsection \<open>Opcodes, flags and limits\<close>

abbreviation OP_0 :: u8 where "OP_0 \<equiv> 0x00"
abbreviation OP_PUSHDATA1 :: u8 where "OP_PUSHDATA1 \<equiv> 0x4c"
abbreviation OP_PUSHDATA2 :: u8 where "OP_PUSHDATA2 \<equiv> 0x4d"
abbreviation OP_PUSHDATA4 :: u8 where "OP_PUSHDATA4 \<equiv> 0x4e"
abbreviation OP_1NEGATE :: u8 where "OP_1NEGATE \<equiv> 0x4f"
abbreviation OP_RESERVED :: u8 where "OP_RESERVED \<equiv> 0x50"
abbreviation OP_1 :: u8 where "OP_1 \<equiv> 0x51"
abbreviation OP_16 :: u8 where "OP_16 \<equiv> 0x60"
abbreviation OP_NOP :: u8 where "OP_NOP \<equiv> 0x61"
abbreviation OP_VER :: u8 where "OP_VER \<equiv> 0x62"
abbreviation OP_IF :: u8 where "OP_IF \<equiv> 0x63"
abbreviation OP_NOTIF :: u8 where "OP_NOTIF \<equiv> 0x64"
abbreviation OP_VERIF :: u8 where "OP_VERIF \<equiv> 0x65"
abbreviation OP_VERNOTIF :: u8 where "OP_VERNOTIF \<equiv> 0x66"
abbreviation OP_ELSE :: u8 where "OP_ELSE \<equiv> 0x67"
abbreviation OP_ENDIF :: u8 where "OP_ENDIF \<equiv> 0x68"
abbreviation OP_VERIFY :: u8 where "OP_VERIFY \<equiv> 0x69"
abbreviation OP_RETURN :: u8 where "OP_RETURN \<equiv> 0x6a"
abbreviation OP_TOALTSTACK :: u8 where "OP_TOALTSTACK \<equiv> 0x6b"
abbreviation OP_FROMALTSTACK :: u8 where "OP_FROMALTSTACK \<equiv> 0x6c"
abbreviation OP_2DROP :: u8 where "OP_2DROP \<equiv> 0x6d"
abbreviation OP_2DUP :: u8 where "OP_2DUP \<equiv> 0x6e"
abbreviation OP_3DUP :: u8 where "OP_3DUP \<equiv> 0x6f"
abbreviation OP_2OVER :: u8 where "OP_2OVER \<equiv> 0x70"
abbreviation OP_2ROT :: u8 where "OP_2ROT \<equiv> 0x71"
abbreviation OP_2SWAP :: u8 where "OP_2SWAP \<equiv> 0x72"
abbreviation OP_IFDUP :: u8 where "OP_IFDUP \<equiv> 0x73"
abbreviation OP_DEPTH :: u8 where "OP_DEPTH \<equiv> 0x74"
abbreviation OP_DROP :: u8 where "OP_DROP \<equiv> 0x75"
abbreviation OP_DUP :: u8 where "OP_DUP \<equiv> 0x76"
abbreviation OP_NIP :: u8 where "OP_NIP \<equiv> 0x77"
abbreviation OP_OVER :: u8 where "OP_OVER \<equiv> 0x78"
abbreviation OP_PICK :: u8 where "OP_PICK \<equiv> 0x79"
abbreviation OP_ROLL :: u8 where "OP_ROLL \<equiv> 0x7a"
abbreviation OP_ROT :: u8 where "OP_ROT \<equiv> 0x7b"
abbreviation OP_SWAP :: u8 where "OP_SWAP \<equiv> 0x7c"
abbreviation OP_TUCK :: u8 where "OP_TUCK \<equiv> 0x7d"
abbreviation OP_CAT :: u8 where "OP_CAT \<equiv> 0x7e"
abbreviation OP_SUBSTR :: u8 where "OP_SUBSTR \<equiv> 0x7f"
abbreviation OP_LEFT :: u8 where "OP_LEFT \<equiv> 0x80"
abbreviation OP_RIGHT :: u8 where "OP_RIGHT \<equiv> 0x81"
abbreviation OP_SIZE :: u8 where "OP_SIZE \<equiv> 0x82"
abbreviation OP_INVERT :: u8 where "OP_INVERT \<equiv> 0x83"
abbreviation OP_AND :: u8 where "OP_AND \<equiv> 0x84"
abbreviation OP_OR :: u8 where "OP_OR \<equiv> 0x85"
abbreviation OP_XOR :: u8 where "OP_XOR \<equiv> 0x86"
abbreviation OP_EQUAL :: u8 where "OP_EQUAL \<equiv> 0x87"
abbreviation OP_EQUALVERIFY :: u8 where "OP_EQUALVERIFY \<equiv> 0x88"
abbreviation OP_RESERVED1 :: u8 where "OP_RESERVED1 \<equiv> 0x89"
abbreviation OP_RESERVED2 :: u8 where "OP_RESERVED2 \<equiv> 0x8a"
abbreviation OP_1ADD :: u8 where "OP_1ADD \<equiv> 0x8b"
abbreviation OP_1SUB :: u8 where "OP_1SUB \<equiv> 0x8c"
abbreviation OP_2MUL :: u8 where "OP_2MUL \<equiv> 0x8d"
abbreviation OP_2DIV :: u8 where "OP_2DIV \<equiv> 0x8e"
abbreviation OP_NEGATE :: u8 where "OP_NEGATE \<equiv> 0x8f"
abbreviation OP_ABS :: u8 where "OP_ABS \<equiv> 0x90"
abbreviation OP_NOT :: u8 where "OP_NOT \<equiv> 0x91"
abbreviation OP_0NOTEQUAL :: u8 where "OP_0NOTEQUAL \<equiv> 0x92"
abbreviation OP_ADD :: u8 where "OP_ADD \<equiv> 0x93"
abbreviation OP_SUB :: u8 where "OP_SUB \<equiv> 0x94"
abbreviation OP_MUL :: u8 where "OP_MUL \<equiv> 0x95"
abbreviation OP_DIV :: u8 where "OP_DIV \<equiv> 0x96"
abbreviation OP_MOD :: u8 where "OP_MOD \<equiv> 0x97"
abbreviation OP_LSHIFT :: u8 where "OP_LSHIFT \<equiv> 0x98"
abbreviation OP_RSHIFT :: u8 where "OP_RSHIFT \<equiv> 0x99"
abbreviation OP_BOOLAND :: u8 where "OP_BOOLAND \<equiv> 0x9a"
abbreviation OP_BOOLOR :: u8 where "OP_BOOLOR \<equiv> 0x9b"
abbreviation OP_NUMEQUAL :: u8 where "OP_NUMEQUAL \<equiv> 0x9c"
abbreviation OP_NUMEQUALVERIFY :: u8 where "OP_NUMEQUALVERIFY \<equiv> 0x9d"
abbreviation OP_NUMNOTEQUAL :: u8 where "OP_NUMNOTEQUAL \<equiv> 0x9e"
abbreviation OP_LESSTHAN :: u8 where "OP_LESSTHAN \<equiv> 0x9f"
abbreviation OP_GREATERTHAN :: u8 where "OP_GREATERTHAN \<equiv> 0xa0"
abbreviation OP_LESSTHANOREQUAL :: u8 where "OP_LESSTHANOREQUAL \<equiv> 0xa1"
abbreviation OP_GREATERTHANOREQUAL :: u8 where "OP_GREATERTHANOREQUAL \<equiv> 0xa2"
abbreviation OP_MIN :: u8 where "OP_MIN \<equiv> 0xa3"
abbreviation OP_MAX :: u8 where "OP_MAX \<equiv> 0xa4"
abbreviation OP_WITHIN :: u8 where "OP_WITHIN \<equiv> 0xa5"
abbreviation OP_RIPEMD160 :: u8 where "OP_RIPEMD160 \<equiv> 0xa6"
abbreviation OP_SHA1 :: u8 where "OP_SHA1 \<equiv> 0xa7"
abbreviation OP_SHA256 :: u8 where "OP_SHA256 \<equiv> 0xa8"
abbreviation OP_HASH160 :: u8 where "OP_HASH160 \<equiv> 0xa9"
abbreviation OP_HASH256 :: u8 where "OP_HASH256 \<equiv> 0xaa"
abbreviation OP_CODESEPARATOR :: u8 where "OP_CODESEPARATOR \<equiv> 0xab"
abbreviation OP_CHECKSIG :: u8 where "OP_CHECKSIG \<equiv> 0xac"
abbreviation OP_CHECKSIGVERIFY :: u8 where "OP_CHECKSIGVERIFY \<equiv> 0xad"
abbreviation OP_CHECKMULTISIG :: u8 where "OP_CHECKMULTISIG \<equiv> 0xae"
abbreviation OP_CHECKMULTISIGVERIFY :: u8 where "OP_CHECKMULTISIGVERIFY \<equiv> 0xaf"
abbreviation OP_NOP1 :: u8 where "OP_NOP1 \<equiv> 0xb0"
abbreviation OP_CHECKLOCKTIMEVERIFY :: u8 where "OP_CHECKLOCKTIMEVERIFY \<equiv> 0xb1"
abbreviation OP_CHECKSEQUENCEVERIFY :: u8 where "OP_CHECKSEQUENCEVERIFY \<equiv> 0xb2"
abbreviation OP_NOP4 :: u8 where "OP_NOP4 \<equiv> 0xb3"
abbreviation OP_NOP10 :: u8 where "OP_NOP10 \<equiv> 0xb9"
abbreviation OP_BLAKE160 :: u8 where "OP_BLAKE160 \<equiv> 0xc0"
abbreviation OP_BLAKE256 :: u8 where "OP_BLAKE256 \<equiv> 0xc1"
abbreviation OP_SHA3 :: u8 where "OP_SHA3 \<equiv> 0xc2"
abbreviation OP_KECCAK :: u8 where "OP_KECCAK \<equiv> 0xc3"
abbreviation OP_TYPE :: u8 where "OP_TYPE \<equiv> 0xd0"
abbreviation OP_INVALIDOPCODE :: u8 where "OP_INVALIDOPCODE \<equiv> 0xff"

definition max_script_size :: nat where "max_script_size = 10000"
definition max_script_push :: nat where "max_script_push = 520"
definition max_script_ops :: nat where "max_script_ops = 201"
definition max_multisig_pubkeys :: nat where "max_multisig_pubkeys = 20"

lemmas script_limits = max_script_size_def max_script_push_def max_script_ops_def max_multisig_pubkeys_def
  max_script_stack_def

lemmas script_flag_defs = verify_minimal_data_def verify_discourage_upgradable_nops_def
  verify_discourage_upgradable_witness_program_def verify_minimal_if_def verify_nullfail_def
  script_flags_mandatory_def script_flags_standard_def flags_contains_def

subsection \<open>Errors\<close>

datatype script_error =
    SeInputIndexOutOfRange
  | SeOpReturn
  | SeScriptSize
  | SeStackSize
  | SePushSize
  | SeWitnessProgramWitnessEmpty
  | SeWitnessProgramMismatch
  | SeWitnessProgramWrongLength
  | SeDiscourageUpgradableWitnessProgram
  | SeDiscourageUpgradableNops
  | SeEvalFalse
  | SeBadOpcode u8
  | SeDisabledOpcode u8
  | SeUnsupportedOpcode u8
  | SeOperationCount
  | SeMinimalData
  | SeNonMinimalNumber
  | SeMinimalIf
  | SeUnbalancedConditional
  | SeInvalidStackOperation
  | SeInvalidAltStackOperation
  | SeVerify
  | SeEqualVerify
  | SeNumEqualVerify
  | SeNegativeLocktime
  | SeUnsatisfiedLocktime
  | SeNumericOverflow
  | SePublicKeyCount
  | SeSignatureCount
  | SePublicKeyEncoding
  | SeSignatureEncoding
  | SeSignatureNullDummy
  | SeNullFail
  | SeCheckSigVerify
  | SeCheckMultiSigVerify
  | SeSignatureBackendUnavailable
  | SeSighash string
  | SePanic

definition hex_byte :: "u8 \<Rightarrow> string" where
  "hex_byte b = (let digit = (\<lambda>n. ''0123456789abcdef'' ! n) in [digit (unat b div 16), digit (unat b mod 16)])"

fun script_error_message :: "script_error \<Rightarrow> string" where
  "script_error_message SeInputIndexOutOfRange = ''input index is outside the transaction''"
| "script_error_message SeOpReturn = ''OP_RETURN''"
| "script_error_message SeScriptSize = ''script exceeds the consensus size limit''"
| "script_error_message SeStackSize = ''script stack exceeds the consensus item limit''"
| "script_error_message SePushSize = ''script push exceeds the consensus item-size limit''"
| "script_error_message SeWitnessProgramWitnessEmpty = ''witness program has an empty witness''"
| "script_error_message SeWitnessProgramMismatch = ''witness program does not match the committed hash or shape''"
| "script_error_message SeWitnessProgramWrongLength = ''version-zero witness program has the wrong length''"
| "script_error_message SeDiscourageUpgradableWitnessProgram = ''upgradable witness program is discouraged by policy''"
| "script_error_message SeDiscourageUpgradableNops = ''upgradable NOP is discouraged by policy''"
| "script_error_message SeEvalFalse = ''script evaluated to false''"
| "script_error_message (SeBadOpcode x) = ''script contains malformed or invalid opcode 0x'' @ hex_byte x"
| "script_error_message (SeDisabledOpcode x) = ''script contains disabled opcode 0x'' @ hex_byte x"
| "script_error_message (SeUnsupportedOpcode x) = ''script opcode 0x'' @ hex_byte x @ '' is not yet implemented''"
| "script_error_message SeOperationCount = ''script operation count exceeds the consensus limit''"
| "script_error_message SeMinimalData = ''script push is not minimally encoded''"
| "script_error_message SeNonMinimalNumber = ''script number is not minimally encoded''"
| "script_error_message SeMinimalIf = ''conditional argument is not minimally encoded''"
| "script_error_message SeUnbalancedConditional = ''script conditional is unbalanced''"
| "script_error_message SeInvalidStackOperation = ''invalid main-stack operation''"
| "script_error_message SeInvalidAltStackOperation = ''invalid alt-stack operation''"
| "script_error_message SeVerify = ''VERIFY failed''"
| "script_error_message SeEqualVerify = ''EQUALVERIFY failed''"
| "script_error_message SeNumEqualVerify = ''NUMEQUALVERIFY failed''"
| "script_error_message SeNegativeLocktime = ''negative locktime''"
| "script_error_message SeUnsatisfiedLocktime = ''locktime predicate is not satisfied''"
| "script_error_message SeNumericOverflow = ''script number overflow''"
| "script_error_message SePublicKeyCount = ''public key count is invalid''"
| "script_error_message SeSignatureCount = ''signature count is invalid''"
| "script_error_message SePublicKeyEncoding = ''public key encoding is invalid''"
| "script_error_message SeSignatureEncoding = ''signature encoding is invalid''"
| "script_error_message SeSignatureNullDummy = ''multisig dummy argument is not empty''"
| "script_error_message SeNullFail = ''NULLFAIL''"
| "script_error_message SeCheckSigVerify = ''CHECKSIGVERIFY failed''"
| "script_error_message SeCheckMultiSigVerify = ''CHECKMULTISIGVERIFY failed''"
| "script_error_message SeSignatureBackendUnavailable = ''secp256k1 signature backend is unavailable''"
| "script_error_message (SeSighash x) = ''signature hash failed: '' @ x"
| "script_error_message SePanic = []"

fun hsd_code :: "script_error \<Rightarrow> string" where
  "hsd_code SeInputIndexOutOfRange = ''UNKNOWN_ERROR''"
| "hsd_code SeOpReturn = ''OP_RETURN''"
| "hsd_code SeScriptSize = ''SCRIPT_SIZE''"
| "hsd_code SeStackSize = ''STACK_SIZE''"
| "hsd_code SePushSize = ''PUSH_SIZE''"
| "hsd_code SeWitnessProgramWitnessEmpty = ''WITNESS_PROGRAM_WITNESS_EMPTY''"
| "hsd_code SeWitnessProgramMismatch = ''WITNESS_PROGRAM_MISMATCH''"
| "hsd_code SeWitnessProgramWrongLength = ''WITNESS_PROGRAM_WRONG_LENGTH''"
| "hsd_code SeDiscourageUpgradableWitnessProgram = ''DISCOURAGE_UPGRADABLE_WITNESS_PROGRAM''"
| "hsd_code SeDiscourageUpgradableNops = ''DISCOURAGE_UPGRADABLE_NOPS''"
| "hsd_code SeEvalFalse = ''EVAL_FALSE''"
| "hsd_code (SeBadOpcode _) = ''BAD_OPCODE''"
| "hsd_code (SeDisabledOpcode _) = ''DISABLED_OPCODE''"
| "hsd_code (SeUnsupportedOpcode _) = ''BAD_OPCODE''"
| "hsd_code SeOperationCount = ''OP_COUNT''"
| "hsd_code SeMinimalData = ''MINIMALDATA''"
| "hsd_code SeNonMinimalNumber = ''UNKNOWN_ERROR''"
| "hsd_code SeMinimalIf = ''MINIMALIF''"
| "hsd_code SeUnbalancedConditional = ''UNBALANCED_CONDITIONAL''"
| "hsd_code SeInvalidStackOperation = ''INVALID_STACK_OPERATION''"
| "hsd_code SeInvalidAltStackOperation = ''INVALID_ALTSTACK_OPERATION''"
| "hsd_code SeVerify = ''VERIFY''"
| "hsd_code SeEqualVerify = ''EQUALVERIFY''"
| "hsd_code SeNumEqualVerify = ''NUMEQUALVERIFY''"
| "hsd_code SeNegativeLocktime = ''NEGATIVE_LOCKTIME''"
| "hsd_code SeUnsatisfiedLocktime = ''UNSATISFIED_LOCKTIME''"
| "hsd_code SeNumericOverflow = ''UNKNOWN_ERROR''"
| "hsd_code SePublicKeyCount = ''PUBKEY_COUNT''"
| "hsd_code SeSignatureCount = ''SIG_COUNT''"
| "hsd_code SePublicKeyEncoding = ''PUBKEY_ENCODING''"
| "hsd_code SeSignatureEncoding = ''SIG_ENCODING''"
| "hsd_code SeSignatureNullDummy = ''SIG_NULLDUMMY''"
| "hsd_code SeNullFail = ''NULLFAIL''"
| "hsd_code SeCheckSigVerify = ''CHECKSIGVERIFY''"
| "hsd_code SeCheckMultiSigVerify = ''CHECKMULTISIGVERIFY''"
| "hsd_code SeSignatureBackendUnavailable = ''UNKNOWN_ERROR''"
| "hsd_code (SeSighash _) = ''UNKNOWN_ERROR''"
| "hsd_code SePanic = []"

subsection \<open>Vectors\<close>

text \<open>The operations that panic outside their range: plain arithmetic, indices and slices, the methods of \<^verbatim>\<open>Vec\<close>.\<close>

definition usize_add :: "nat \<Rightarrow> nat \<Rightarrow> script_error + nat" where
  "usize_add a b = (if a + b \<le> usize_max then Inr (a + b) else Inl SePanic)"

definition usize_mul :: "nat \<Rightarrow> nat \<Rightarrow> script_error + nat" where
  "usize_mul a b = (if a * b \<le> usize_max then Inr (a * b) else Inl SePanic)"

definition usize_sub :: "nat \<Rightarrow> nat \<Rightarrow> script_error + nat" where
  "usize_sub a b = (if b \<le> a then Inr (a - b) else Inl SePanic)"

definition vec_index :: "'a list \<Rightarrow> nat \<Rightarrow> script_error + 'a" where
  "vec_index xs i = (if i < length xs then Inr (xs ! i) else Inl SePanic)"

definition vec_slice :: "'a list \<Rightarrow> nat \<Rightarrow> nat \<Rightarrow> script_error + 'a list" where
  "vec_slice xs a b = (if a \<le> b \<and> b \<le> length xs then Inr (take (b - a) (drop a xs)) else Inl SePanic)"

definition vec_remove :: "'a list \<Rightarrow> nat \<Rightarrow> script_error + 'a \<times> 'a list" where
  "vec_remove xs i = (if i < length xs then Inr (xs ! i, take i xs @ drop (Suc i) xs) else Inl SePanic)"

definition vec_insert :: "'a list \<Rightarrow> nat \<Rightarrow> 'a \<Rightarrow> script_error + 'a list" where
  "vec_insert xs i x = (if i \<le> length xs then Inr (take i xs @ [x] @ drop i xs) else Inl SePanic)"

definition vec_swap :: "'a list \<Rightarrow> nat \<Rightarrow> nat \<Rightarrow> script_error + 'a list" where
  "vec_swap xs i j = (if i < length xs \<and> j < length xs then Inr (xs[i := xs ! j, j := xs ! i]) else Inl SePanic)"

definition vec_split_off :: "'a list \<Rightarrow> nat \<Rightarrow> script_error + 'a list \<times> 'a list" where
  "vec_split_off xs at = (if at \<le> length xs then Inr (take at xs, drop at xs) else Inl SePanic)"

definition u64_shl :: "u64 \<Rightarrow> nat \<Rightarrow> script_error + u64" where
  "u64_shl x n = (if n < 64 then Inr (push_bit n x) else Inl SePanic)"

definition u8_add :: "u8 \<Rightarrow> u8 \<Rightarrow> script_error + u8" where
  "u8_add a b = (if unat a + unat b < 2 ^ 8 then Inr (a + b) else Inl SePanic)"

definition u8_sub :: "u8 \<Rightarrow> u8 \<Rightarrow> script_error + u8" where
  "u8_sub a b = (if b \<le> a then Inr (a - b) else Inl SePanic)"

definition i64_neg :: "int \<Rightarrow> script_error + int" where
  "i64_neg v = ok_or (i64_range (- v)) SePanic"

subsection \<open>Script numbers and booleans\<close>

definition is_minimal_script_number :: "bytes \<Rightarrow> script_error + bool" where
  "is_minimal_script_number bytes =
     (if bytes = [] then Inr True
      else if last bytes AND 0x7f = 0 then
        if length bytes = 1 then Inr False
        else
          and_then (usize_sub (length bytes) 2) (\<lambda>i.
          and_then (vec_index bytes i) (\<lambda>byte. Inr (byte AND 0x80 \<noteq> 0)))
      else Inr True)"

definition decode_step :: "nat \<times> u8 \<Rightarrow> u64 \<Rightarrow> script_error + u64" where
  "decode_step = (\<lambda>(index, byte) magnitude.
     and_then (usize_mul 8 index) (\<lambda>shift.
     and_then (u64_shl (ucast byte) shift) (\<lambda>shifted. Inr (magnitude OR shifted))))"

definition decode_script_number :: "bytes \<Rightarrow> bool \<Rightarrow> nat \<Rightarrow> script_error + int" where
  "decode_script_number bytes require_minimal maximum_size =
     (if length bytes > maximum_size then Inl SeNumericOverflow
      else
        and_then (if require_minimal then is_minimal_script_number bytes else Inr True) (\<lambda>minimal.
        if \<not> minimal then Inl SeNonMinimalNumber
        else if bytes = [] then Inr 0
        else
          and_then (fold_res decode_step (enumerate 0 bytes) 0) (\<lambda>magnitude.
          and_then (usize_mul (length bytes) 8) (\<lambda>bits.
          and_then (usize_sub bits 1) (\<lambda>shift.
          and_then (u64_shl 1 shift) (\<lambda>sign_bit.
          let negative = (magnitude AND sign_bit \<noteq> 0);
              magnitude = magnitude AND NOT sign_bit
          in if unat magnitude < 2 ^ 63
             then if negative then i64_neg (uint magnitude) else Inr (uint magnitude)
             else Inl SeNumericOverflow))))))"

function magnitude_bytes :: "u64 \<Rightarrow> bytes" where
  "magnitude_bytes magnitude =
     (if magnitude \<noteq> 0 then ucast magnitude # magnitude_bytes (drop_bit 8 magnitude) else [])"
  by pat_completeness auto
termination
  by (relation "measure unat") (simp_all add: unat_drop_bit unat_gt_0)

declare magnitude_bytes.simps [simp del]

definition encode_script_number :: "int \<Rightarrow> bytes" where
  "encode_script_number value =
     (if value = 0 then []
      else
        let negative = (value < 0);
            bytes = magnitude_bytes (word_of_int \<bar>value\<bar>)
        in if bytes \<noteq> [] \<and> last bytes AND 0x80 \<noteq> 0
           then bytes @ [if negative then 0x80 else 0x00]
           else if negative \<and> bytes \<noteq> [] then butlast bytes @ [last bytes OR 0x80]
           else bytes)"

fun cast_loop :: "nat \<Rightarrow> nat \<Rightarrow> bytes \<Rightarrow> script_error + bool" where
  "cast_loop len index [] = Inr False"
| "cast_loop len index (byte # bytes) =
     (if byte = 0 then cast_loop len (index + 1) bytes
      else and_then (usize_sub len 1) (\<lambda>last_index. Inr (\<not> (index = last_index \<and> byte = 0x80))))"

definition cast_to_bool :: "bytes \<Rightarrow> script_error + bool" where
  "cast_to_bool bytes = cast_loop (length bytes) 0 bytes"

subsection \<open>Parser\<close>

record instruction =
  ins_opcode :: u8
  ins_data :: "bytes option"
  ins_end :: nat

definition script_read :: "u8 \<Rightarrow> nat \<Rightarrow> bytes \<Rightarrow> nat \<Rightarrow> script_error + bytes \<times> nat" where
  "script_read opcode n script offset =
     (case usize_checked_add offset n of
        Some end_offset \<Rightarrow>
          if end_offset \<le> length script
          then and_then (vec_slice script offset end_offset) (\<lambda>bs. Inr (bs, end_offset))
          else Inl (SeBadOpcode opcode)
      | None \<Rightarrow> Inl (SeBadOpcode opcode))"

definition script_read_u8 :: "bytes \<Rightarrow> nat \<Rightarrow> script_error + u8 \<times> nat" where
  "script_read_u8 script offset =
     and_then (ok_or (get script offset) (SeBadOpcode OP_PUSHDATA1)) (\<lambda>v.
     and_then (usize_add offset 1) (\<lambda>offset. Inr (v, offset)))"

definition script_read_u16 :: "bytes \<Rightarrow> nat \<Rightarrow> script_error + u16 \<times> nat" where
  "script_read_u16 script offset =
     and_then (script_read OP_PUSHDATA2 2 script offset) (\<lambda>(bs, offset). Inr (from_le_bytes bs, offset))"

definition script_read_u32 :: "bytes \<Rightarrow> nat \<Rightarrow> script_error + u32 \<times> nat" where
  "script_read_u32 script offset =
     and_then (script_read OP_PUSHDATA4 4 script offset) (\<lambda>(bs, offset). Inr (from_le_bytes bs, offset))"

definition parse_data_len :: "bytes \<Rightarrow> u8 \<Rightarrow> nat \<Rightarrow> script_error + nat option \<times> nat" where
  "parse_data_len script opcode offset =
     (if 0x01 \<le> opcode \<and> opcode \<le> 0x4b then Inr (Some (unat opcode), offset)
      else if opcode = OP_PUSHDATA1
      then and_then (script_read_u8 script offset) (\<lambda>(n, offset). Inr (Some (unat n), offset))
      else if opcode = OP_PUSHDATA2
      then and_then (script_read_u16 script offset) (\<lambda>(n, offset). Inr (Some (unat n), offset))
      else if opcode = OP_PUSHDATA4
      then and_then (script_read_u32 script offset) (\<lambda>(n, offset). Inr (Some (unat n), offset))
      else Inr (None, offset))"

definition parse_instruction :: "bytes \<Rightarrow> nat \<Rightarrow> script_error + instruction" where
  "parse_instruction script offset =
     and_then (vec_index script offset) (\<lambda>opcode.
     and_then (usize_add offset 1) (\<lambda>offset.
     and_then (parse_data_len script opcode offset) (\<lambda>(data_len, offset).
     case data_len of
       None \<Rightarrow> Inr \<lparr>ins_opcode = opcode, ins_data = None, ins_end = offset\<rparr>
     | Some data_len \<Rightarrow>
         and_then (script_read opcode data_len script offset) (\<lambda>(data, offset).
         Inr \<lparr>ins_opcode = opcode, ins_data = Some data, ins_end = offset\<rparr>))))"

lemma usize_add_Inr [simp]: "usize_add a b = Inr c \<longleftrightarrow> a + b \<le> usize_max \<and> c = a + b"
  by (auto simp: usize_add_def)

lemma vec_index_Inr [simp]: "vec_index xs i = Inr x \<longleftrightarrow> i < length xs \<and> x = xs ! i"
  by (auto simp: vec_index_def)

lemma vec_slice_Inr [simp]:
  "vec_slice xs a b = Inr ys \<longleftrightarrow> a \<le> b \<and> b \<le> length xs \<and> ys = take (b - a) (drop a xs)"
  by (auto simp: vec_slice_def)

lemma script_read_Inr:
  "script_read opcode n script offset = Inr (bs, e) \<longleftrightarrow>
     e = offset + n \<and> e \<le> length script \<and> e \<le> usize_max \<and> bs = take n (drop offset script)"
  by (auto simp: script_read_def usize_checked_add_def and_then_eq_Inr)

lemma parse_data_len_offset: "parse_data_len script opcode offset = Inr (n, offset') \<Longrightarrow> offset \<le> offset'"
  by (auto simp: parse_data_len_def script_read_u8_def script_read_u16_def script_read_u32_def script_read_Inr
      and_then_eq_Inr split: if_splits)

lemma parse_instruction_Inr:
  assumes "parse_instruction script offset = Inr ins"
  obtains n e where "offset < length script" "parse_data_len script (script ! offset) (Suc offset) = Inr (n, e)"
    "(case n of None \<Rightarrow> Inr \<lparr>ins_opcode = script ! offset, ins_data = None, ins_end = e\<rparr>
      | Some k \<Rightarrow> and_then (script_read (script ! offset) k script e) (\<lambda>(data, e).
          Inr \<lparr>ins_opcode = script ! offset, ins_data = Some data, ins_end = e\<rparr>)) = Inr ins"
  using assms by (auto simp: parse_instruction_def and_then_eq_Inr)

lemma parse_instruction_end:
  assumes "parse_instruction script offset = Inr ins"
  shows "offset < ins_end ins"
  using assms
proof (cases rule: parse_instruction_Inr)
  case (1 n e)
  from parse_data_len_offset [OF 1(2)] have "offset < e" by simp
  moreover have "e \<le> ins_end ins" using 1(3) by (cases n) (auto simp: and_then_eq_Inr script_read_Inr)
  ultimately show ?thesis by simp
qed

function parse_loop :: "bytes \<Rightarrow> nat \<Rightarrow> script_error + instruction list" where
  "parse_loop script offset =
     (if offset < length script then
        and_then (parse_instruction script offset) (\<lambda>ins.
        and_then (parse_loop script (ins_end ins)) (\<lambda>rest. Inr (ins # rest)))
      else Inr [])"
  by pat_completeness auto
termination
  by (relation "measure (\<lambda>(script, offset). length script - offset)") (auto dest: parse_instruction_end)

declare parse_loop.simps [simp del]

definition parse_script :: "bytes \<Rightarrow> script_error + instruction list" where
  "parse_script script = parse_loop script 0"

definition is_minimal_push :: "u8 \<Rightarrow> bytes \<Rightarrow> script_error + bool" where
  "is_minimal_push opcode data =
     (if data = [] then Inr (opcode = OP_0)
      else
        and_then (if length data = 1 then and_then (vec_index data 0) (\<lambda>b. Inr (1 \<le> b \<and> b \<le> 16)) else Inr False)
          (\<lambda>small.
        if small then
          and_then (vec_index data 0) (\<lambda>b.
          and_then (u8_add OP_1 b) (\<lambda>next_opcode.
          and_then (u8_sub next_opcode 1) (\<lambda>expected. Inr (opcode = expected))))
        else if data = [0x81] then Inr (opcode = OP_1NEGATE)
        else if length data \<le> 75 then Inr (opcode = word_of_nat (length data))
        else if length data \<le> 255 then Inr (opcode = OP_PUSHDATA1)
        else if length data \<le> 65535 then Inr (opcode = OP_PUSHDATA2)
        else Inr (opcode = OP_PUSHDATA4)))"

definition is_disabled_opcode :: "u8 \<Rightarrow> bool" where
  "is_disabled_opcode opcode \<longleftrightarrow> opcode \<in> {OP_CAT, OP_SUBSTR, OP_LEFT, OP_RIGHT, OP_INVERT, OP_AND, OP_OR, OP_XOR,
     OP_2MUL, OP_2DIV, OP_MUL, OP_DIV, OP_MOD, OP_LSHIFT, OP_RSHIFT}"

definition minimal_numbers :: "u32 \<Rightarrow> bool" where
  "minimal_numbers flags = flags_contains flags verify_minimal_data"

subsection \<open>Signature operations\<close>

text \<open>The scan stops at the first malformed push: \<open>None\<close> is the \<^verbatim>\<open>break\<close> of the loop.\<close>

definition sigops_skip :: "bytes \<Rightarrow> u8 \<Rightarrow> nat \<Rightarrow> nat option" where
  "sigops_skip script opcode offset =
     (let take_le = (\<lambda>n. if usize_sat_add offset n \<le> length script \<and> usize_sat_add offset n - offset = n
            then Some (le_val (take n (drop offset script))) else None);
          data_length =
            (if 0x01 \<le> opcode \<and> opcode \<le> 0x4b then Some (Some (unat opcode), offset)
             else if opcode = OP_PUSHDATA1
             then map_option (\<lambda>b. (Some (unat b), offset + 1)) (get script offset)
             else if opcode = OP_PUSHDATA2 then map_option (\<lambda>n. (Some n, offset + 2)) (take_le 2)
             else if opcode = OP_PUSHDATA4 then map_option (\<lambda>n. (Some n, offset + 4)) (take_le 4)
             else Some (None, offset))
      in case data_length of
           None \<Rightarrow> None
         | Some (None, offset) \<Rightarrow> Some offset
         | Some (Some data_length, offset) \<Rightarrow>
             (case usize_checked_add offset data_length of
                None \<Rightarrow> None
              | Some end_offset \<Rightarrow> if end_offset > length script then None else Some end_offset))"

lemma sigops_skip_offset: "sigops_skip script opcode offset = Some offset' \<Longrightarrow> offset \<le> offset'"
  by (auto simp: sigops_skip_def Let_def usize_checked_add_def split: if_splits option.splits)

definition sigops_of :: "u8 \<Rightarrow> u8 option \<Rightarrow> u32" where
  "sigops_of opcode last_opcode =
     (if opcode = OP_CHECKSIG \<or> opcode = OP_CHECKSIGVERIFY then 1
      else if opcode = OP_CHECKMULTISIG \<or> opcode = OP_CHECKMULTISIGVERIFY then
        (case last_opcode of
           Some opcode \<Rightarrow> if OP_1 \<le> opcode \<and> opcode \<le> OP_16 then ucast (opcode - 0x50)
             else word_of_nat max_multisig_pubkeys
         | None \<Rightarrow> word_of_nat max_multisig_pubkeys)
      else 0)"

function sigops_loop :: "bytes \<Rightarrow> nat \<Rightarrow> u8 option \<Rightarrow> u32 \<Rightarrow> u32" where
  "sigops_loop script offset last_opcode tally =
     (if offset < length script then
        let opcode = script ! offset in
        case sigops_skip script opcode (offset + 1) of
          None \<Rightarrow> tally
        | Some offset' \<Rightarrow>
            sigops_loop script offset' (Some opcode) (sat_add tally (sigops_of opcode last_opcode))
      else tally)"
  by pat_completeness auto
termination
  by (relation "measure (\<lambda>(script, offset, last_opcode, tally). length script - offset)")
    (auto dest: sigops_skip_offset)

declare sigops_loop.simps [simp del]

definition count_script_sigops :: "bytes \<Rightarrow> u32" where
  "count_script_sigops script = sigops_loop script 0 None 0"

definition witness_program_sigops :: "address \<Rightarrow> witness \<Rightarrow> u32" where
  "witness_program_sigops address witness =
     (if addr_version address \<noteq> 0 then 0
      else if length (addr_hash address) = 20 then 1
      else if length (addr_hash address) = 32 then
        if witness = [] then 0 else count_script_sigops (last witness)
      else 0)"

definition transaction_sigops :: "transaction \<Rightarrow> coin list \<Rightarrow> consensus_error + u32" where
  "transaction_sigops tx input_coins =
     (if is_coinbase tx then Inr 0
      else if length (tx_inputs tx) \<noteq> length input_coins
      then Inl (InvalidTransaction ''resolved input count does not match transaction inputs'')
      else fold_res (\<lambda>(input, coin) tally.
        if in_prevout input \<noteq> coin_outpoint coin
        then Inl (InvalidTransaction ''resolved input coin does not match transaction outpoint'')
        else Inr (sat_add tally (witness_program_sigops (coin_address coin) (in_witness input))))
        (zip (tx_inputs tx) input_coins) 0)"

end
