(* ===== verification/Script_Numbers.thy ===== *)
theory Script_Numbers
  imports Script
begin

unbundle bit_operations_syntax

text \<open>
  What the numbers, the parser and the count of signature operations of the script engine compute.
\<close>

subsection \<open>The highest bit of a word\<close>

lemma bit_top:
  fixes w :: "'a :: len word"
  assumes "unat w < 2 ^ Suc n"
  shows "bit w n \<longleftrightarrow> 2 ^ n \<le> unat w"
proof -
  have "bit w n \<longleftrightarrow> odd (unat w div 2 ^ n)"
    by (simp add: bit_unsigned_iff flip: bit_nat_def)
  moreover have "unat w div 2 ^ n < 2" using assms by (simp add: less_mult_imp_div_less)
  moreover have "unat w div 2 ^ n = 0 \<longleftrightarrow> unat w < 2 ^ n" by (simp add: div_eq_0_iff)
  ultimately show ?thesis by (cases "unat w div 2 ^ n") (auto simp: less_Suc_eq)
qed

lemma unat_take_bit: "unat (take_bit n w) = unat w mod 2 ^ n"
  by (subst unsigned_take_bit_eq) (simp only: take_bit_eq_mod)

lemma unat_clear_top:
  fixes w :: "'a :: len word"
  assumes "unat w < 2 ^ Suc n"
  shows "unat (w AND NOT (push_bit n 1)) = unat w mod 2 ^ n"
proof -
  have "\<not> bit w m" if "n < m" for m
  proof -
    have "unat w < 2 ^ m" using assms that by (meson less_le_trans Suc_leI power_increasing one_le_numeral)
    then show ?thesis using bit_top [of w m] by simp
  qed
  then have "w AND NOT (push_bit n 1) = take_bit n w"
    by (intro bit_word_eqI) (auto simp: bit_simps dest: nat_neq_iff [THEN iffD1])
  then show ?thesis by (simp only: unat_take_bit)
qed

lemma unat_set_top:
  fixes w :: "'a :: len word"
  assumes "unat w < 2 ^ n" and "n < LENGTH('a)"
  shows "unat (w OR push_bit n 1) = unat w + 2 ^ n"
proof -
  have le: "(2 :: nat) ^ Suc n \<le> 2 ^ LENGTH('a)" using assms(2) by (intro power_increasing) auto
  have "\<not> bit w n" using assms(1) bit_top [of w n] by simp
  then have "w OR push_bit n 1 = w + push_bit n 1"
    by (intro disjunctive_add [symmetric]) (auto simp: bit_simps)
  moreover have "unat (push_bit n 1 :: 'a word) = 2 ^ n"
    using assms(2) unat_of_nat [of "2 ^ n", where 'a = 'a] by (simp add: push_bit_eq_mult)
  ultimately show ?thesis
    using assms(1) le by (simp add: unat_word_ariths)
qed

lemma byte_bits:
  fixes b :: u8
  shows "b AND 0x7f = 0 \<longleftrightarrow> unat b mod 128 = 0" "b AND 0x80 \<noteq> 0 \<longleftrightarrow> 128 \<le> unat b"
    "unat b < 128 \<Longrightarrow> unat (b OR 0x80) = unat b + 128"
proof -
  have b: "unat b < 2 ^ Suc 7" using unat_lt2p [of b] by simp
  have "b AND 0x7f = take_bit 7 b" by (simp add: take_bit_eq_mask mask_eq_exp_minus_1)
  moreover have "unat (take_bit 7 b) = unat b mod 128"
    by (simp add: unat_take_bit)
  ultimately show "b AND 0x7f = 0 \<longleftrightarrow> unat b mod 128 = 0"
    by (metis unat_0 unat_eq_zero)
  show "b AND 0x80 \<noteq> 0 \<longleftrightarrow> 128 \<le> unat b"
    using and_exp_eq_0_iff_not_bit [of b 7] bit_top [OF b] by simp
  show "unat (b OR 0x80) = unat b + 128" if "unat b < 128"
    using unat_set_top [of b 7] that by (simp add: push_bit_eq_mult)
qed

subsection \<open>Script numbers\<close>

text \<open>The number a byte string stands for: a little-endian magnitude whose highest bit is the sign.\<close>

definition script_value :: "bytes \<Rightarrow> int" where
  "script_value bytes =
     (if bytes = [] then 0
      else
        let half = 2 ^ (8 * length bytes - 1); v = le_val bytes
        in if v < half then int v else - int (v - half))"

lemma decode_fold:
  "k + length bytes \<le> 8 \<Longrightarrow>
   fold_res decode_step (enumerate k bytes) acc = Inr (acc OR push_bit (8 * k) (word_of_nat (le_val bytes)))"
proof (induction bytes arbitrary: k acc)
  case (Cons b bytes)
  have "word_of_nat (unat b + 256 * le_val bytes) = ucast b + push_bit 8 (word_of_nat (le_val bytes) :: u64)"
    by (simp add: push_bit_eq_mult)
  also have "\<dots> = ucast b OR push_bit 8 (word_of_nat (le_val bytes))"
    by (rule disjunctive_add) (auto simp: bit_simps dest: bit_imp_le_length)
  finally show ?case
    using Cons.prems Cons.IH [of "Suc k"]
    by (simp add: decode_step_def usize_mul_def usize_max_def u64_shl_def push_bit_push_bit or.assoc add.commute push_bit_or)
qed simp

lemma is_minimal_script_number_total: "is_minimal_script_number bytes \<in> range Inr"
  by (cases "length bytes") (auto simp: is_minimal_script_number_def usize_sub_def vec_index_def)

lemma decode_script_number_value:
  assumes "n \<le> 8"
  shows "decode_script_number bytes minimal n =
    (if n < length bytes then Inl SeNumericOverflow
     else if minimal \<and> is_minimal_script_number bytes \<noteq> Inr True then Inl SeNonMinimalNumber
     else Inr (script_value bytes))"
proof (cases "bytes = [] \<or> n < length bytes")
  case False
  define L where "L = 8 * length bytes - 1"
  define w where "w = (word_of_nat (le_val bytes) :: u64)"
  from False assms have len: "0 < length bytes" "length bytes \<le> 8" and L: "Suc L = 8 * length bytes" "L < 64"
    by (auto simp: L_def)
  have "le_val bytes < 2 ^ Suc L" using le_val_less [of bytes] by (simp only: L power_mult) simp
  moreover have "(2 :: nat) ^ Suc L \<le> 2 ^ 64" using L by (intro power_increasing) auto
  ultimately have w: "unat w = le_val bytes" "unat w < 2 ^ Suc L" by (simp_all add: w_def unat_of_nat)
  have low: "unat (w AND NOT (push_bit L 1)) = unat w mod 2 ^ L" by (rule unat_clear_top [OF w(2)])
  have "unat w mod 2 ^ L < 2 ^ L" by simp
  also have "(2 :: nat) ^ L \<le> 2 ^ 63" using L by (intro power_increasing) auto
  finally have small: "unat w mod 2 ^ L < 2 ^ 63" .
  have neg: "w AND push_bit L 1 = 0 \<longleftrightarrow> le_val bytes < 2 ^ L"
    using bit_top [OF w(2)] and_exp_eq_0_iff_not_bit [of w L] w(1) by (simp add: not_le)
  have magnitude: "le_val bytes mod 2 ^ L = (if le_val bytes < 2 ^ L then le_val bytes else le_val bytes - 2 ^ L)"
    using w by (simp add: mod_if)
  have "fold_res decode_step (enumerate 0 bytes) 0 = Inr w"
    using decode_fold [of 0 bytes 0] len by (simp add: w_def)
  moreover have "usize_mul (length bytes) 8 = Inr (length bytes * 8)" "usize_sub (length bytes * 8) 1 = Inr L"
    "u64_shl 1 L = Inr (push_bit L 1)"
    using len L by (auto simp: usize_mul_def usize_max_def usize_sub_def u64_shl_def L_def Suc_le_eq)
  moreover have "i64_neg (int (le_val bytes mod 2 ^ L)) = Inr (- int (le_val bytes mod 2 ^ L))"
    using small w(1) by (simp add: i64_neg_def i64_range_def)
  moreover have "uint (w AND NOT (push_bit L 1)) = int (le_val bytes mod 2 ^ L)"
    using low w(1) by (metis of_nat_unat)
  ultimately show ?thesis
    using False small neg low w(1) is_minimal_script_number_total [of bytes]
    unfolding decode_script_number_def script_value_def Let_def L_def [symmetric]
    by (auto simp: magnitude)
qed (auto simp: decode_script_number_def script_value_def is_minimal_script_number_def)

lemma high_half: "128 \<le> n \<Longrightarrow> n < 256 \<Longrightarrow> n = 128 + n mod (128 :: nat)"
  using le_mod_geq [of 128 n] by simp

lemma script_value_snoc:
  "script_value (xs @ [b]) =
     (let m = le_val xs + 256 ^ length xs * (unat b mod 128) in if unat b < 128 then int m else - int m)"
proof -
  have half: "(2 :: nat) ^ (8 * length (xs @ [b]) - 1) = 256 ^ length xs * 128"
    by (simp add: power_add power_mult)
  have low: "le_val xs < 256 ^ length xs" by (rule le_val_less)
  show ?thesis
  proof (cases "unat b < 128")
    case True
    have "le_val xs + 256 ^ length xs * unat b < 256 ^ length xs * (unat b + 1)" using low by simp
    also have "\<dots> \<le> 256 ^ length xs * 128" using True by (intro mult_le_mono) auto
    finally show ?thesis
      using True by (simp only: script_value_def half Let_def) (simp add: le_val_append)
  next
    case False
    moreover have "unat b < 256" using unat_lt2p [of b] by simp
    ultimately have b: "unat b = 128 + unat b mod 128" by (intro high_half) simp_all
    have "256 ^ length xs * unat b = 256 ^ length xs * 128 + 256 ^ length xs * (unat b mod 128)"
      using b by (metis distrib_left)
    then show ?thesis
      using False by (simp only: script_value_def half Let_def) (simp add: le_val_append)
  qed
qed

lemma is_minimal_snoc:
  "is_minimal_script_number (xs @ [b]) = Inr True \<longleftrightarrow> unat b mod 128 \<noteq> 0 \<or> xs \<noteq> [] \<and> 128 \<le> unat (last xs)"
  unfolding is_minimal_script_number_def byte_bits(1,2)
  by (cases xs rule: rev_cases) (simp_all add: nth_append usize_sub_def vec_index_def)

text \<open>A little-endian string without leading zeros is determined by its value.\<close>

definition le_normal :: "bytes \<Rightarrow> bool" where
  "le_normal bs \<longleftrightarrow> (bs = [] \<or> last bs \<noteq> 0)"

lemma le_normal_Cons: "le_normal (b # bs) \<longleftrightarrow> le_normal bs \<and> (bs = [] \<longrightarrow> b \<noteq> 0)"
  by (auto simp: le_normal_def)

lemma le_val_eq_0: "le_normal bs \<Longrightarrow> le_val bs = 0 \<longleftrightarrow> bs = []"
  by (induction bs) (auto simp: le_normal_Cons unat_eq_0)

lemma le_val_normal_inj: "le_normal xs \<Longrightarrow> le_normal ys \<Longrightarrow> le_val xs = le_val ys \<Longrightarrow> xs = ys"
proof (induction xs arbitrary: ys)
  case Nil
  then show ?case using le_val_eq_0 [of ys] by simp
next
  case (Cons b bs)
  show ?case
  proof (cases ys)
    case Nil
    then show ?thesis using Cons.prems le_val_eq_0 [of "b # bs"] by simp
  next
    case (Cons c cs)
    then have eq: "unat b + 256 * le_val bs = unat c + 256 * le_val cs" using Cons.prems(3) by simp
    have "unat b < 256" "unat c < 256" using unat_lt2p [of b] unat_lt2p [of c] by simp_all
    then have "unat b = unat c" "le_val bs = le_val cs"
      using arg_cong [OF eq, of "\<lambda>n. n mod 256"] arg_cong [OF eq, of "\<lambda>n. n div 256"] by simp_all
    then have "b = c" "le_val bs = le_val cs" by (simp_all add: word_unat_eq_iff)
    then show ?thesis using Cons.IH [of cs] Cons.prems Cons by (simp add: le_normal_Cons)
  qed
qed

lemma magnitude_bytes_val: "le_val (magnitude_bytes w) = unat w \<and> le_normal (magnitude_bytes w)"
proof (induction w rule: magnitude_bytes.induct)
  case (1 w)
  show ?case
  proof (cases "w = 0")
    case False
    note IH = "1.IH" [OF False]
    have "(ucast w :: u8) \<noteq> 0" if "magnitude_bytes (drop_bit 8 w) = []"
    proof -
      have "unat w div 256 = 0" using IH that by (simp add: unat_drop_bit)
      moreover have "unat w \<noteq> 0" using False by (simp add: unat_eq_0)
      ultimately have "unat (ucast w :: u8) \<noteq> 0" by (simp add: unat_ucast_u8 div_eq_0_iff)
      then show ?thesis by auto
    qed
    then show ?thesis
      using IH False by (subst (1 2) magnitude_bytes.simps) (simp add: le_normal_Cons unat_drop_bit unat_ucast_u8)
  qed (simp add: magnitude_bytes.simps le_normal_def)
qed

lemma magnitude_bytes_le_val:
  assumes "le_normal bs" and "le_val bs < 2 ^ 64"
  shows "magnitude_bytes (word_of_nat (le_val bs)) = bs"
  using magnitude_bytes_val [of "word_of_nat (le_val bs)"] assms
  by (intro le_val_normal_inj) (simp_all add: unat_of_nat)

lemma encode_script_number_eq:
  assumes "c \<noteq> 0" and "le_val (ys @ [c]) < 2 ^ 63" and "\<bar>v\<bar> = int (le_val (ys @ [c]))"
  shows "encode_script_number v =
    (if 128 \<le> unat c then ys @ [c, if v < 0 then 0x80 else 0]
     else if v < 0 then ys @ [c OR 0x80] else ys @ [c])"
proof -
  have normal: "le_normal (ys @ [c])" using assms(1) by (simp add: le_normal_def)
  have "v \<noteq> 0" using le_val_eq_0 [OF normal] assms(3) by auto
  moreover have "magnitude_bytes (word_of_int \<bar>v\<bar>) = ys @ [c]"
    using magnitude_bytes_le_val [OF normal] assms(2,3) by simp
  ultimately show ?thesis
    unfolding encode_script_number_def byte_bits(2) by (simp add: Let_def)
qed

lemma encode_script_number_decodes:
  assumes "\<bar>v\<bar> < 2 ^ 63"
  shows "is_minimal_script_number (encode_script_number v) = Inr True \<and> script_value (encode_script_number v) = v"
proof (cases "v = 0")
  case False
  define w where "w = (word_of_int \<bar>v\<bar> :: u64)"
  have uint: "uint w = \<bar>v\<bar>" using assms by (simp add: w_def uint_word_of_int)
  then have w: "int (unat w) = \<bar>v\<bar>" by simp
  have "w \<noteq> 0" using uint False by auto
  then have "le_val (magnitude_bytes w) \<noteq> 0" using magnitude_bytes_val [of w] by (simp add: unat_eq_0)
  then obtain ys c where M: "magnitude_bytes w = ys @ [c]" by (cases "magnitude_bytes w" rule: rev_cases) auto
  have c: "c \<noteq> 0" and val: "int (le_val (ys @ [c])) = \<bar>v\<bar>" 
    using magnitude_bytes_val [of w] w by (simp_all add: M le_normal_def)
  have "le_val (ys @ [c]) < 2 ^ 63" using val assms by simp
  note enc = encode_script_number_eq [OF c this val [symmetric]]
  have c': "unat c \<noteq> 0" using c by (simp add: unat_eq_0)
  show ?thesis
  proof (cases "128 \<le> unat c")
    case True
    then show ?thesis
      using enc val is_minimal_snoc [of "ys @ [c]"] script_value_snoc [of "ys @ [c]"] by (auto simp: Let_def)
  next
    case False
    then show ?thesis
      using enc val c' is_minimal_snoc [of ys] script_value_snoc [of ys]
      by (auto simp: Let_def byte_bits(3) le_val_append)
  qed
qed (simp add: encode_script_number_def is_minimal_script_number_def script_value_def)

lemma script_value_encodes:
  assumes "is_minimal_script_number bs = Inr True" and "length bs \<le> 8"
  shows "encode_script_number (script_value bs) = bs \<and> \<bar>script_value bs\<bar> < 2 ^ 63"
proof (cases bs rule: rev_cases)
  case (snoc xs b)
  define c where "c = (word_of_nat (unat b mod 128) :: u8)"
  define m where "m = le_val xs + 256 ^ length xs * (unat b mod 128)"
  have c: "unat c = unat b mod 128" by (simp add: c_def unat_of_nat)
  have b: "b = (if unat b < 128 then c else c OR 0x80)"
  proof (cases "unat b < 128")
    case True
    then show ?thesis using c by (simp add: word_unat_eq_iff)
  next
    case False
    moreover have "unat b < 256" using unat_lt2p [of b] by simp
    ultimately have "unat b = 128 + unat c" unfolding c by (intro high_half) simp_all
    moreover have "unat c < 128" by (simp add: c)
    ultimately show ?thesis using False byte_bits(3) [of c] by (simp add: word_unat_eq_iff)
  qed
  have v: "script_value bs = (if unat b < 128 then int m else - int m)"
    by (simp add: snoc script_value_snoc m_def Let_def)
  have "m < 256 ^ length xs * (unat b mod 128 + 1)" using le_val_less [of xs] by (simp add: m_def)
  also have "\<dots> \<le> 256 ^ 7 * 128" using assms(2) by (intro mult_le_mono power_increasing) (auto simp: snoc Suc_le_eq)
  finally have m: "m < 2 ^ 63" by simp
  show ?thesis
  proof (cases "unat b mod 128 = 0")
    case False
    have val: "le_val (xs @ [c]) = m" by (simp add: m_def le_val_append c)
    have "c \<noteq> 0" using False c by auto
    then have "m > 0" using le_val_eq_0 [of "xs @ [c]"] val by (auto simp: le_normal_def)
    have "unat c < 128" by (simp add: c)
    with encode_script_number_eq [OF \<open>c \<noteq> 0\<close>, of xs "script_value bs"] val m v \<open>m > 0\<close> b show ?thesis
      by (auto simp: snoc split: if_splits)
  next
    case True
    then obtain ys d where xs: "xs = ys @ [d]" and d: "128 \<le> unat d"
      using assms(1) is_minimal_snoc [of xs b] by (cases xs rule: rev_cases) (auto simp: snoc)
    have val: "le_val (ys @ [d]) = m" using True by (simp add: m_def xs)
    have "d \<noteq> 0" using d by auto
    then have "m > 0" using le_val_eq_0 [of "ys @ [d]"] val by (auto simp: le_normal_def)
    have "c = 0" using True c by (simp add: unat_eq_0)
    with encode_script_number_eq [OF \<open>d \<noteq> 0\<close>, of ys "script_value bs"] val m v \<open>m > 0\<close> b d show ?thesis
      by (auto simp: snoc xs split: if_splits)
  qed
qed (simp add: encode_script_number_def script_value_def)

text \<open>
  C39: script numbers have one encoding.  With minimal encoding required and a limit of at most eight bytes, decoding
  returns a number exactly for the encoding of that number, when it fits the limit.
\<close>

theorem script_number_canonical:
  assumes "n \<le> 8"
  shows "decode_script_number bytes True n = Inr v \<longleftrightarrow>
    bytes = encode_script_number v \<and> length bytes \<le> n \<and> \<bar>v\<bar> < 2 ^ 63"
  using encode_script_number_decodes [of v] script_value_encodes [of bytes] assms
  by (auto simp: decode_script_number_value)

theorem script_number_canonical_witness:
  "decode_script_number [0xff, 0x80] True 4 = Inr (- 255) \<and> encode_script_number (- 255) = [0xff, 0x80]"
proof -
  have "decode_script_number [0xff, 0x80] True 4 = Inr (- 255)" by code_simp
  moreover from this have "[0xff, 0x80] = encode_script_number (- 255)"
    using script_number_canonical [of 4 "[0xff, 0x80]" "- 255"] by linarith
  ultimately show ?thesis by (simp only:)
qed

subsection \<open>Parser and signature operations\<close>

text \<open>The bytes of an instruction: the opcode, the field for the length of a long push, and the data.\<close>

definition push_length :: "u8 \<Rightarrow> nat \<Rightarrow> bytes" where
  "push_length opcode n =
     (if opcode = OP_PUSHDATA1 then to_le_bytes (word_of_nat n :: u8)
      else if opcode = OP_PUSHDATA2 then to_le_bytes (word_of_nat n :: u16)
      else if opcode = OP_PUSHDATA4 then to_le_bytes (word_of_nat n :: u32)
      else [])"

definition instruction_bytes :: "instruction \<Rightarrow> bytes" where
  "instruction_bytes ins =
     ins_opcode ins #
     (case ins_data ins of None \<Rightarrow> [] | Some data \<Rightarrow> push_length (ins_opcode ins) (length data) @ data)"

lemma script_read_bytes:
  assumes "script_read opcode n script offset = Inr (bs, e)"
  shows "e = offset + n" "e \<le> length script" "length bs = n" "drop offset script = bs @ drop e script"
  using assms by (auto simp: script_read_Inr) (metis append_take_drop_id drop_drop add.commute)

lemma unat_from_le_bytes: "8 * length bs = LENGTH('a :: len) \<Longrightarrow> unat (from_le_bytes bs :: 'a word) = le_val bs"
  using le_val_less [of bs] by (simp add: from_le_bytes_def unat_of_nat power_256_bits flip: power_mult)

lemma script_read_uints:
  assumes "script_read opcode n script offset = Inr (bs, e)"
  shows "n = 2 \<Longrightarrow> unat (from_le_bytes bs :: u16) = le_val (take 2 (drop offset script))"
    "n = 4 \<Longrightarrow> unat (from_le_bytes bs :: u32) = le_val (take 4 (drop offset script))"
    "usize_sat_add offset n = offset + n"
  using assms script_read_bytes(3) [OF assms]
  by (auto simp: script_read_Inr unat_from_le_bytes usize_sat_add_def)

lemma sigops_skip_parse:
  assumes "parse_data_len script opcode offset = Inr (n, e)"
  shows "sigops_skip script opcode offset = (case n of None \<Rightarrow> Some e
    | Some k \<Rightarrow> (case usize_checked_add e k of None \<Rightarrow> None
        | Some end_offset \<Rightarrow> if end_offset > length script then None else Some end_offset))"
proof -
  have "le_val (take k (drop offset script)) = m" "offset + k \<le> length script" "usize_sat_add offset k = offset + k"
    if "script_read opcode' k script offset = Inr (bs, e')" "k = 2 \<and> unat (from_le_bytes bs :: u16) = m \<or>
      k = 4 \<and> unat (from_le_bytes bs :: u32) = m" for opcode' k bs e' m
    using script_read_uints [OF that(1)] script_read_bytes(1,2) [OF that(1)] that(2) by auto
  note reads = this
  consider "0x01 \<le> opcode \<and> opcode \<le> 0x4b" | "opcode = OP_PUSHDATA1" | "opcode = OP_PUSHDATA2" | "opcode = OP_PUSHDATA4"
    | "\<not> (0x01 \<le> opcode \<and> opcode \<le> 0x4b)" "opcode \<notin> {OP_PUSHDATA1, OP_PUSHDATA2, OP_PUSHDATA4}" by blast
  then show ?thesis
  proof cases
    case 3
    then obtain bs where read: "script_read OP_PUSHDATA2 2 script offset = Inr (bs, e)"
      and n: "n = Some (unat (from_le_bytes bs :: u16))"
      using assms by (auto simp: parse_data_len_def script_read_u16_def and_then_eq_Inr)
    show ?thesis
      using reads [OF read, of "unat (from_le_bytes bs :: u16)"] script_read_bytes(1) [OF read] 3 n
      by (simp add: sigops_skip_def Let_def)
  next
    case 4
    then obtain bs where read: "script_read OP_PUSHDATA4 4 script offset = Inr (bs, e)"
      and n: "n = Some (unat (from_le_bytes bs :: u32))"
      using assms by (auto simp: parse_data_len_def script_read_u32_def and_then_eq_Inr)
    show ?thesis
      using reads [OF read, of "unat (from_le_bytes bs :: u32)"] script_read_bytes(1) [OF read] 4 n
      by (simp add: sigops_skip_def Let_def)
  qed (use assms in \<open>auto simp: parse_data_len_def sigops_skip_def Let_def script_read_u8_def and_then_eq_Inr
      simp del: get_eq_Some split: if_splits\<close>)
qed

lemma to_le_bytes_u8: "to_le_bytes (w :: u8) = [w]"
  using to_le_from_le_bytes [of "[w]", where 'a = 8] by (simp add: from_le_bytes_def)

lemma parse_data_len_bytes:
  assumes "parse_data_len script opcode offset = Inr (n, e)"
  shows "case n of None \<Rightarrow> e = offset | Some k \<Rightarrow> drop offset script = push_length opcode k @ drop e script"
  using assms
  by (auto simp: parse_data_len_def push_length_def script_read_u8_def script_read_u16_def script_read_u32_def
      and_then_eq_Inr get_eq_Some to_le_from_le_bytes to_le_bytes_u8 script_read_bytes Cons_nth_drop_Suc split: if_splits)

lemma parse_instruction_bytes:
  assumes "parse_instruction script offset = Inr ins" and "offset < length script"
  shows "drop offset script = instruction_bytes ins @ drop (ins_end ins) script"
    and "ins_opcode ins = script ! offset"
    and "sigops_skip script (script ! offset) (Suc offset) = Some (ins_end ins)"
proof -
  from assms(1) obtain n e where len: "parse_data_len script (script ! offset) (Suc offset) = Inr (n, e)"
    and rest: "(case n of None \<Rightarrow> Inr \<lparr>ins_opcode = script ! offset, ins_data = None, ins_end = e\<rparr>
      | Some k \<Rightarrow> and_then (script_read (script ! offset) k script e) (\<lambda>(data, e).
          Inr \<lparr>ins_opcode = script ! offset, ins_data = Some data, ins_end = e\<rparr>)) = Inr ins"
    by (rule parse_instruction_Inr)
  have script: "drop offset script = script ! offset # drop (Suc offset) script"
    using assms(2) by (simp add: Cons_nth_drop_Suc)
  note skip = sigops_skip_parse [OF len] and field = parse_data_len_bytes [OF len]
  have "drop offset script = instruction_bytes ins @ drop (ins_end ins) script \<and> ins_opcode ins = script ! offset \<and>
    sigops_skip script (script ! offset) (Suc offset) = Some (ins_end ins)"
  proof (cases n)
    case None
    then show ?thesis using rest skip field script by (auto simp: instruction_bytes_def)
  next
    case (Some k)
    with rest obtain data f where read: "script_read (script ! offset) k script e = Inr (data, f)"
      and ins: "ins = \<lparr>ins_opcode = script ! offset, ins_data = Some data, ins_end = f\<rparr>"
      by (auto simp: and_then_eq_Inr)
    have "f \<le> usize_max" using read by (simp add: script_read_Inr)
    then show ?thesis
      using script_read_bytes [OF read] skip field script Some
      by (simp add: ins instruction_bytes_def usize_checked_add_def)
  qed
  then show "drop offset script = instruction_bytes ins @ drop (ins_end ins) script"
    "ins_opcode ins = script ! offset" "sigops_skip script (script ! offset) (Suc offset) = Some (ins_end ins)" by auto
qed

lemma parse_loop_bytes:
  "parse_loop script offset = Inr instructions \<Longrightarrow> concat (map instruction_bytes instructions) = drop offset script"
proof (induction script offset arbitrary: instructions rule: parse_loop.induct)
  case (1 script offset)
  show ?case
  proof (cases "offset < length script")
    case True
    with "1.prems"(1) obtain i rest where parts: "parse_instruction script offset = Inr i"
      "parse_loop script (ins_end i) = Inr rest" "instructions = i # rest"
      by (subst (asm) parse_loop.simps) (auto simp: and_then_eq_Inr)
    then show ?thesis
      using "1.IH" [OF True parts(1,2)] parse_instruction_bytes(1) [OF parts(1) True] by simp
  qed (use "1.prems" in \<open>subst (asm) parse_loop.simps, simp\<close>)
qed

text \<open>The signature operations of a sequence of opcodes.\<close>

fun sigops_sum :: "u8 option \<Rightarrow> u8 list \<Rightarrow> nat" where
  "sigops_sum last_opcode [] = 0"
| "sigops_sum last_opcode (opcode # opcodes) =
     unat (sigops_of opcode last_opcode) + sigops_sum (Some opcode) opcodes"

lemma sigops_loop_sum:
  "parse_loop script offset = Inr instructions \<Longrightarrow>
   unat (sigops_loop script offset last_opcode tally) =
     min (unat tally + sigops_sum last_opcode (map ins_opcode instructions)) (2 ^ 32 - 1)"
proof (induction script offset arbitrary: instructions last_opcode tally rule: parse_loop.induct)
  case (1 script offset)
  show ?case
  proof (cases "offset < length script")
    case True
    with "1.prems"(1) obtain i rest where parts: "parse_instruction script offset = Inr i"
      "parse_loop script (ins_end i) = Inr rest" "instructions = i # rest"
      by (subst (asm) parse_loop.simps) (auto simp: and_then_eq_Inr)
    then show ?thesis
      using "1.IH" [OF True parts(1,2)] parse_instruction_bytes(2,3) [OF parts(1) True] True
      by (subst sigops_loop.simps) (simp add: unat_sat_add Let_def min_def)
  next
    case False
    have "unat tally \<le> 2 ^ 32 - 1" using unat_lt2p [of tally] by simp
    then show ?thesis
      using False "1.prems" by (subst sigops_loop.simps) (subst (asm) parse_loop.simps, simp)
  qed
qed

text \<open>
  C40: the parser is lossless and the scanner agrees with it.  The parsed instructions are the bytes of the
  script, and the signature operations counted by the separate scan are those of the parsed opcodes, up to
  saturation of the counter.
\<close>

theorem parse_script_exact:
  assumes "parse_script script = Inr instructions"
  shows "concat (map instruction_bytes instructions) = script \<and>
    unat (count_script_sigops script) = min (sigops_sum None (map ins_opcode instructions)) (2 ^ 32 - 1)"
  using assms parse_loop_bytes [of script 0] sigops_loop_sum [of script 0 instructions None 0]
  by (simp add: parse_script_def count_script_sigops_def)

theorem parse_script_exact_witness:
  "let script = [OP_PUSHDATA1, 2, OP_CHECKSIG, OP_CHECKSIG, OP_1 + 1, OP_CHECKMULTISIG, OP_CHECKSIG];
       parsed = parse_script script in
   \<not> isl parsed \<and> concat (map instruction_bytes (projr parsed)) = script \<and> unat (count_script_sigops script) = 3"
proof -
  let ?script = "[OP_PUSHDATA1, 2, OP_CHECKSIG, OP_CHECKSIG, OP_1 + 1, OP_CHECKMULTISIG, OP_CHECKSIG] :: u8 list"
  let ?parsed = "parse_script ?script"
  have ok: "\<not> isl ?parsed" "sigops_sum None (map ins_opcode (projr ?parsed)) = 3" by code_simp+
  then have "?parsed = Inr (projr ?parsed)" by simp
  from parse_script_exact [OF this] ok show ?thesis by (simp add: Let_def)
qed

end
