(* ===== verification/Script_Machine.thy ===== *)
theory Script_Machine
  imports Script
begin

unbundle bit_operations_syntax

text \<open>
  The script machine and the verification of witness programs,
  \<^verbatim>\<open>crates/hns-consensus/src/script.rs\<close>.  The main stack is a list whose last element is the top, as in the
  source.  The hash functions of other crates, the SHA-256 round constants and the signature backend are the parameters of the
  record \<open>script_env\<close>.
\<close>

subsection \<open>Environment and state\<close>

record script_env =
  se_blake2b_160 :: "bytes \<Rightarrow> bytes"
  se_blake2b_256 :: "bytes \<Rightarrow> bytes"
  se_sha3_256 :: "bytes \<Rightarrow> bytes"
  se_keccak_256 :: "bytes \<Rightarrow> bytes"
  se_sha256_k :: "u32 list"
  se_validate_compact_signature :: "bytes \<Rightarrow> script_error + unit"
  se_verify :: "bytes \<Rightarrow> bytes \<Rightarrow> bytes \<Rightarrow> script_error + bool"

record script_machine =
  sm_stack :: "bytes list"
  sm_alt_stack :: "bytes list"
  sm_conditions :: "bool list"
  sm_operation_count :: nat
  sm_last_separator :: nat

text \<open>What one execution does not change: the arguments of \<^verbatim>\<open>execute_script\<close>.\<close>

record script_context =
  sc_script :: bytes
  sc_cache :: signature_hash_cache
  sc_input_index :: nat
  sc_previous_value :: u64
  sc_flags :: u32

subsection \<open>Signature backends\<close>

datatype secp_error = ContextCreation | InvalidCompactSignature | HighS | InvalidPublicKey | InvalidPrivateKey
  | InvalidElligatorEncoding

fun map_secp_error :: "secp_error \<Rightarrow> script_error" where
  "map_secp_error ContextCreation = SeSignatureBackendUnavailable"
| "map_secp_error InvalidCompactSignature = SeSignatureEncoding"
| "map_secp_error HighS = SeSignatureEncoding"
| "map_secp_error InvalidPublicKey = SePublicKeyEncoding"
| "map_secp_error InvalidPrivateKey = SeSignatureBackendUnavailable"
| "map_secp_error InvalidElligatorEncoding = SeSignatureBackendUnavailable"

text \<open>The native backend, over the functions of the secp256k1 crate; and the one that is never available.\<close>

definition native_validate :: "(bytes \<Rightarrow> secp_error + unit) \<Rightarrow> bytes \<Rightarrow> script_error + unit" where
  "native_validate secp_validate signature = map_sum map_secp_error id (secp_validate signature)"

definition native_verify ::
  "(bytes \<Rightarrow> bytes \<Rightarrow> bytes \<Rightarrow> secp_error + bool) \<Rightarrow> bytes \<Rightarrow> bytes \<Rightarrow> bytes \<Rightarrow> script_error + bool" where
  "native_verify secp_verify message signature public_key =
     map_sum map_secp_error id (secp_verify message signature public_key)"

definition unavailable_validate :: "bytes \<Rightarrow> script_error + unit" where
  "unavailable_validate signature = Inl SeSignatureBackendUnavailable"

definition unavailable_verify :: "bytes \<Rightarrow> bytes \<Rightarrow> bytes \<Rightarrow> script_error + bool" where
  "unavailable_verify message signature public_key = Inl SeSignatureBackendUnavailable"

subsection \<open>Stack helpers\<close>

definition pop_item :: "bytes list \<Rightarrow> script_error + bytes \<times> bytes list" where
  "pop_item stack = (if stack = [] then Inl SeInvalidStackOperation else Inr (last stack, butlast stack))"

definition require_stack :: "bytes list \<Rightarrow> nat \<Rightarrow> script_error + unit" where
  "require_stack stack count = (if length stack < count then Inl SeInvalidStackOperation else Inr ())"

definition push_bool :: "bytes list \<Rightarrow> bool \<Rightarrow> bytes list" where
  "push_bool stack v = stack @ [if v then [1] else []]"

definition duplicate_tail :: "bytes list \<Rightarrow> nat \<Rightarrow> script_error + bytes list" where
  "duplicate_tail stack count =
     and_then (require_stack stack count) (\<lambda>_.
     and_then (usize_sub (length stack) count) (\<lambda>start.
     and_then (vec_slice stack start (length stack)) (\<lambda>values.
     Inr (stack @ values))))"

definition enforce_stack_limit :: "bytes list \<Rightarrow> bytes list \<Rightarrow> script_error + unit" where
  "enforce_stack_limit stack alt_stack =
     (if usize_sat_add (length stack) (length alt_stack) > max_script_stack then Inl SeStackSize else Inr ())"

definition decode_top_number :: "bytes list \<Rightarrow> u32 \<Rightarrow> nat \<Rightarrow> script_error + int" where
  "decode_top_number stack flags maximum_size =
     and_then (ok_or (if stack = [] then None else Some (last stack)) SeInvalidStackOperation) (\<lambda>item.
     decode_script_number item (minimal_numbers flags) maximum_size)"

definition pop_number :: "bytes list \<Rightarrow> u32 \<Rightarrow> script_error + int \<times> bytes list" where
  "pop_number stack flags =
     and_then (pop_item stack) (\<lambda>(item, stack).
     and_then (decode_script_number item (minimal_numbers flags) 4) (\<lambda>v. Inr (v, stack)))"

subsection \<open>Stack operations\<close>

definition op_small_number :: "u8 \<Rightarrow> bytes list \<Rightarrow> script_error + bytes list" where
  "op_small_number opcode stack =
     and_then (u8_sub opcode OP_1) (\<lambda>d.
     and_then (u8_add d 1) (\<lambda>n. Inr (stack @ [encode_script_number (uint n)])))"

definition op_2drop :: "bytes list \<Rightarrow> script_error + bytes list" where
  "op_2drop stack =
     and_then (require_stack stack 2) (\<lambda>_.
     and_then (usize_sub (length stack) 2) (\<lambda>n. Inr (take n stack)))"

definition op_2over :: "bytes list \<Rightarrow> script_error + bytes list" where
  "op_2over stack =
     and_then (require_stack stack 4) (\<lambda>_.
     and_then (usize_sub (length stack) 4) (\<lambda>a.
     and_then (usize_sub (length stack) 2) (\<lambda>b.
     and_then (vec_slice stack a b) (\<lambda>values. Inr (stack @ values)))))"

definition op_2rot :: "bytes list \<Rightarrow> script_error + bytes list" where
  "op_2rot stack =
     and_then (require_stack stack 6) (\<lambda>_.
     and_then (usize_sub (length stack) 6) (\<lambda>i.
     and_then (vec_remove stack i) (\<lambda>(first, stack).
     and_then (vec_remove stack i) (\<lambda>(second, stack).
     Inr (stack @ [first] @ [second])))))"

definition op_2swap :: "bytes list \<Rightarrow> script_error + bytes list" where
  "op_2swap stack =
     and_then (require_stack stack 4) (\<lambda>_.
     and_then (usize_sub (length stack) 4) (\<lambda>a.
     and_then (usize_sub (length stack) 2) (\<lambda>b.
     and_then (vec_swap stack a b) (\<lambda>swapped.
     and_then (usize_sub (length stack) 3) (\<lambda>c.
     and_then (usize_sub (length stack) 1) (\<lambda>d.
     vec_swap swapped c d))))))"

definition op_ifdup :: "bytes list \<Rightarrow> script_error + bytes list" where
  "op_ifdup stack =
     and_then (ok_or (if stack = [] then None else Some (last stack)) SeInvalidStackOperation) (\<lambda>v.
     and_then (cast_to_bool v) (\<lambda>truth. Inr (if truth then stack @ [v] else stack)))"

definition op_nip :: "bytes list \<Rightarrow> script_error + bytes list" where
  "op_nip stack =
     and_then (require_stack stack 2) (\<lambda>_.
     and_then (usize_sub (length stack) 2) (\<lambda>i.
     and_then (vec_remove stack i) (\<lambda>(_, stack). Inr stack)))"

definition op_over :: "bytes list \<Rightarrow> script_error + bytes list" where
  "op_over stack =
     and_then (require_stack stack 2) (\<lambda>_.
     and_then (usize_sub (length stack) 2) (\<lambda>i.
     and_then (vec_index stack i) (\<lambda>item. Inr (stack @ [item]))))"

definition op_pick_roll :: "u8 \<Rightarrow> u32 \<Rightarrow> bytes list \<Rightarrow> script_error + bytes list" where
  "op_pick_roll opcode flags stack =
     and_then (pop_number stack flags) (\<lambda>(depth, stack).
     if depth < 0 then Inl SeInvalidStackOperation
     else
       let depth = nat depth in
       if depth \<ge> length stack then Inl SeInvalidStackOperation
       else
         and_then (usize_sub (length stack) 1) (\<lambda>top.
         and_then (usize_sub top depth) (\<lambda>index.
         if opcode = OP_ROLL
         then and_then (vec_remove stack index) (\<lambda>(item, stack). Inr (stack @ [item]))
         else and_then (vec_index stack index) (\<lambda>item. Inr (stack @ [item])))))"

definition op_rot :: "bytes list \<Rightarrow> script_error + bytes list" where
  "op_rot stack =
     and_then (require_stack stack 3) (\<lambda>_.
     and_then (usize_sub (length stack) 3) (\<lambda>i.
     and_then (vec_remove stack i) (\<lambda>(item, stack). Inr (stack @ [item]))))"

definition op_swap :: "bytes list \<Rightarrow> script_error + bytes list" where
  "op_swap stack =
     and_then (require_stack stack 2) (\<lambda>_.
     and_then (usize_sub (length stack) 2) (\<lambda>a.
     and_then (usize_sub (length stack) 1) (\<lambda>b.
     vec_swap stack a b)))"

definition op_tuck :: "bytes list \<Rightarrow> script_error + bytes list" where
  "op_tuck stack =
     and_then (require_stack stack 2) (\<lambda>_.
     and_then (usize_sub (length stack) 1) (\<lambda>a.
     and_then (vec_index stack a) (\<lambda>item.
     and_then (usize_sub (length stack) 2) (\<lambda>b.
     vec_insert stack b item))))"

definition op_size :: "bytes list \<Rightarrow> script_error + bytes list" where
  "op_size stack =
     and_then (ok_or (if stack = [] then None else Some (last stack)) SeInvalidStackOperation) (\<lambda>item.
     Inr (stack @ [encode_script_number (int (length item))]))"

definition op_equal :: "u8 \<Rightarrow> bytes list \<Rightarrow> script_error + bytes list" where
  "op_equal opcode stack =
     and_then (require_stack stack 2) (\<lambda>_.
     and_then (pop_item stack) (\<lambda>(right, stack).
     and_then (pop_item stack) (\<lambda>(left, stack).
     let equal = (left = right) in
     if opcode = OP_EQUALVERIFY then if \<not> equal then Inl SeEqualVerify else Inr stack
     else Inr (push_bool stack equal))))"

subsection \<open>Numeric operations\<close>

definition i64_of_bool :: "bool \<Rightarrow> int" where
  "i64_of_bool b = (if b then 1 else 0)"

definition op_unary :: "u8 \<Rightarrow> u32 \<Rightarrow> bytes list \<Rightarrow> script_error + bytes list" where
  "op_unary opcode flags stack =
     and_then (pop_number stack flags) (\<lambda>(v, stack).
     and_then (ok_or
       (if opcode = OP_1ADD then i64_checked_add v 1
        else if opcode = OP_1SUB then i64_checked_sub v 1
        else if opcode = OP_NEGATE then i64_range (- v)
        else if opcode = OP_ABS then i64_range \<bar>v\<bar>
        else if opcode = OP_NOT then Some (i64_of_bool (v = 0))
        else if opcode = OP_0NOTEQUAL then Some (i64_of_bool (v \<noteq> 0))
        else None) SeNumericOverflow) (\<lambda>result.
     Inr (stack @ [encode_script_number result])))"

definition binary_result :: "u8 \<Rightarrow> int \<Rightarrow> int \<Rightarrow> script_error + int" where
  "binary_result opcode left right =
     (if opcode = OP_ADD then ok_or (i64_checked_add left right) SeNumericOverflow
      else if opcode = OP_SUB then ok_or (i64_checked_sub left right) SeNumericOverflow
      else if opcode = OP_BOOLAND then Inr (i64_of_bool (left \<noteq> 0 \<and> right \<noteq> 0))
      else if opcode = OP_BOOLOR then Inr (i64_of_bool (left \<noteq> 0 \<or> right \<noteq> 0))
      else if opcode = OP_NUMEQUAL \<or> opcode = OP_NUMEQUALVERIFY then Inr (i64_of_bool (left = right))
      else if opcode = OP_NUMNOTEQUAL then Inr (i64_of_bool (left \<noteq> right))
      else if opcode = OP_LESSTHAN then Inr (i64_of_bool (left < right))
      else if opcode = OP_GREATERTHAN then Inr (i64_of_bool (left > right))
      else if opcode = OP_LESSTHANOREQUAL then Inr (i64_of_bool (left \<le> right))
      else if opcode = OP_GREATERTHANOREQUAL then Inr (i64_of_bool (left \<ge> right))
      else if opcode = OP_MIN then Inr (min left right)
      else if opcode = OP_MAX then Inr (max left right)
      else Inl SePanic)"

definition op_binary :: "u8 \<Rightarrow> u32 \<Rightarrow> bytes list \<Rightarrow> script_error + bytes list" where
  "op_binary opcode flags stack =
     and_then (require_stack stack 2) (\<lambda>_.
     and_then (pop_number stack flags) (\<lambda>(right, stack).
     and_then (pop_number stack flags) (\<lambda>(left, stack).
     and_then (binary_result opcode left right) (\<lambda>result.
     if opcode = OP_NUMEQUALVERIFY then if result = 0 then Inl SeNumEqualVerify else Inr stack
     else Inr (stack @ [encode_script_number result])))))"

definition op_within :: "u32 \<Rightarrow> bytes list \<Rightarrow> script_error + bytes list" where
  "op_within flags stack =
     and_then (require_stack stack 3) (\<lambda>_.
     and_then (pop_number stack flags) (\<lambda>(maximum, stack).
     and_then (pop_number stack flags) (\<lambda>(minimum, stack).
     and_then (pop_number stack flags) (\<lambda>(v, stack).
     Inr (push_bool stack (minimum \<le> v \<and> v < maximum))))))"

subsection \<open>Hashes\<close>

definition op_digest :: "script_env \<Rightarrow> u8 \<Rightarrow> bytes \<Rightarrow> script_error + bytes" where
  "op_digest env opcode item =
     (if opcode = OP_BLAKE160 then Inr (se_blake2b_160 env item)
      else if opcode = OP_BLAKE256 then Inr (se_blake2b_256 env item)
      else if opcode = OP_SHA3 then Inr (se_sha3_256 env item)
      else if opcode = OP_KECCAK then Inr (se_keccak_256 env item)
      else if opcode = OP_RIPEMD160 then Inr (ripemd160 item)
      else if opcode = OP_SHA1 then Inr (sha1 item)
      else if opcode = OP_SHA256 then Inr (sha256 (se_sha256_k env) item)
      else if opcode = OP_HASH160 then Inr (hash160 (se_sha256_k env) item)
      else if opcode = OP_HASH256 then Inr (hash256 (se_sha256_k env) item)
      else Inl SePanic)"

definition op_hash :: "script_env \<Rightarrow> u8 \<Rightarrow> bytes list \<Rightarrow> script_error + bytes list" where
  "op_hash env opcode stack =
     and_then (pop_item stack) (\<lambda>(item, stack).
     and_then (op_digest env opcode item) (\<lambda>digest. Inr (stack @ [digest])))"

subsection \<open>Signatures\<close>

text \<open>\<^verbatim>\<open>error.to_string()\<close> of a consensus error.\<close>

fun consensus_error_message :: "consensus_error \<Rightarrow> string" where
  "consensus_error_message (Authorization msg) = ''transaction authorization failed: '' @ msg"
| "consensus_error_message (View msg) = ''consensus view failed: '' @ msg"
| "consensus_error_message (InvalidHeader msg) = ''invalid header: '' @ msg"
| "consensus_error_message (InvalidTransaction msg) = ''invalid transaction: '' @ msg"
| "consensus_error_message (InvalidBlock msg) = ''invalid block: '' @ msg"
| "consensus_error_message (ContextualCovenant msg) = ''contextual covenant validation failed: '' @ msg"

definition check_signature ::
  "script_env \<Rightarrow> script_context \<Rightarrow> bytes \<Rightarrow> bytes \<Rightarrow> bytes \<Rightarrow> script_error + bool" where
  "check_signature env ctx subscript signature public_key =
     and_then
       (if signature = [] then Inr None
        else if length signature \<noteq> 65 then Inl SeSignatureEncoding
        else
          and_then (vec_index signature 64) (\<lambda>hash_type.
          if \<not> is_valid_signature_hash_type hash_type then Inl SeSignatureEncoding
          else
            and_then (vec_slice signature 0 64) (\<lambda>compact.
            and_then (se_validate_compact_signature env compact) (\<lambda>_. Inr (Some compact))))) (\<lambda>compact.
     if length public_key \<noteq> 33 then Inl SePublicKeyEncoding
     else
     and_then (vec_index public_key 0) (\<lambda>prefix.
     if prefix \<noteq> 0x02 \<and> prefix \<noteq> 0x03 then Inl SePublicKeyEncoding
     else
       case compact of
         None \<Rightarrow> Inr False
       | Some compact \<Rightarrow>
           and_then (vec_index signature 64) (\<lambda>hash_type.
           and_then (map_sum (\<lambda>error. SeSighash (consensus_error_message error)) id
             (cache_signature_hash (se_blake2b_256 env) (sc_cache ctx) (sc_input_index ctx) subscript
               (sc_previous_value ctx) (ucast hash_type))) (\<lambda>message.
           se_verify env message compact public_key))))"

text \<open>The loop of \<^verbatim>\<open>check_multisig\<close> over the signatures and keys that remain; it returns the flag \<^verbatim>\<open>valid\<close> and
  the number of signatures left.\<close>

function multisig_loop ::
  "(bytes \<Rightarrow> bytes \<Rightarrow> script_error + bool) \<Rightarrow> bytes list \<Rightarrow> bytes list \<Rightarrow> nat \<Rightarrow> nat \<Rightarrow> script_error + bool \<times> nat" where
  "multisig_loop check signatures keys remaining_signatures remaining_keys =
     (if remaining_signatures > 0 then
        if remaining_signatures > remaining_keys then Inr (False, remaining_signatures)
        else
          and_then (usize_sub remaining_signatures 1) (\<lambda>i.
          and_then (vec_index signatures i) (\<lambda>signature.
          and_then (usize_sub remaining_keys 1) (\<lambda>j.
          and_then (vec_index keys j) (\<lambda>key.
          and_then (check signature key) (\<lambda>ok.
          and_then (if ok then usize_sub remaining_signatures 1 else Inr remaining_signatures) (\<lambda>left_signatures.
          and_then (usize_sub remaining_keys 1) (\<lambda>left_keys.
          multisig_loop check signatures keys left_signatures left_keys)))))))
      else Inr (True, remaining_signatures))"
  by pat_completeness auto
termination
  by (relation "measure (\<lambda>(check, signatures, keys, remaining_signatures, remaining_keys). remaining_keys)")
    (auto simp: usize_sub_def split: if_splits)

declare multisig_loop.simps [simp del]

definition check_multisig ::
  "script_env \<Rightarrow> script_context \<Rightarrow> bytes \<Rightarrow> bytes list \<Rightarrow> nat \<Rightarrow> script_error + bool \<times> bytes list \<times> nat" where
  "check_multisig env ctx subscript stack operation_count =
     and_then (pop_number stack (sc_flags ctx)) (\<lambda>(key_count, stack).
     if key_count < 0 then Inl SePublicKeyCount
     else
     let key_count = nat key_count in
     if key_count > max_multisig_pubkeys then Inl SePublicKeyCount
     else
     and_then (ok_or (usize_checked_add operation_count key_count) SeOperationCount) (\<lambda>operation_count.
     if operation_count > max_script_ops then Inl SeOperationCount
     else
     and_then (require_stack stack (usize_sat_add key_count 1)) (\<lambda>_.
     and_then (usize_sub (length stack) key_count) (\<lambda>keys_start.
     and_then (vec_split_off stack keys_start) (\<lambda>(stack, keys).
     and_then (pop_number stack (sc_flags ctx)) (\<lambda>(signature_count, stack).
     if signature_count < 0 then Inl SeSignatureCount
     else
     let signature_count = nat signature_count in
     if signature_count > key_count then Inl SeSignatureCount
     else
     and_then (require_stack stack (usize_sat_add signature_count 1)) (\<lambda>_.
     and_then (usize_sub (length stack) signature_count) (\<lambda>signatures_start.
     and_then (vec_split_off stack signatures_start) (\<lambda>(stack, candidate_signatures).
     and_then (pop_item stack) (\<lambda>(dummy, stack).
     and_then (multisig_loop (check_signature env ctx subscript) candidate_signatures keys
       (length candidate_signatures) (length keys)) (\<lambda>(valid, remaining_signatures).
     let valid = (valid \<and> remaining_signatures = 0) in
     if \<not> valid \<and> flags_contains (sc_flags ctx) verify_nullfail \<and>
       list_ex (\<lambda>signature. signature \<noteq> []) candidate_signatures then Inl SeNullFail
     else if dummy \<noteq> [] then Inl SeSignatureNullDummy
     else Inr (valid, stack, operation_count))))))))))))"

definition exec_checksig ::
  "script_env \<Rightarrow> script_context \<Rightarrow> u8 \<Rightarrow> script_machine \<Rightarrow> script_error + script_machine" where
  "exec_checksig env ctx opcode m =
     and_then (require_stack (sm_stack m) 2) (\<lambda>_.
     and_then (pop_item (sm_stack m)) (\<lambda>(public_key, stack).
     and_then (pop_item stack) (\<lambda>(signature, stack).
     and_then (vec_slice (sc_script ctx) (sm_last_separator m) (length (sc_script ctx))) (\<lambda>subscript.
     and_then (check_signature env ctx subscript signature public_key) (\<lambda>valid.
     if \<not> valid \<and> flags_contains (sc_flags ctx) verify_nullfail \<and> signature \<noteq> [] then Inl SeNullFail
     else if opcode = OP_CHECKSIGVERIFY then
       if \<not> valid then Inl SeCheckSigVerify else Inr (m\<lparr>sm_stack := stack\<rparr>)
     else Inr (m\<lparr>sm_stack := push_bool stack valid\<rparr>))))))"

definition exec_checkmultisig ::
  "script_env \<Rightarrow> script_context \<Rightarrow> u8 \<Rightarrow> script_machine \<Rightarrow> script_error + script_machine" where
  "exec_checkmultisig env ctx opcode m =
     and_then (vec_slice (sc_script ctx) (sm_last_separator m) (length (sc_script ctx))) (\<lambda>subscript.
     and_then (check_multisig env ctx subscript (sm_stack m) (sm_operation_count m)) (\<lambda>(valid, stack, operation_count).
     let m = m\<lparr>sm_operation_count := operation_count\<rparr> in
     if opcode = OP_CHECKMULTISIGVERIFY then
       if \<not> valid then Inl SeCheckMultiSigVerify else Inr (m\<lparr>sm_stack := stack\<rparr>)
     else Inr (m\<lparr>sm_stack := push_bool stack valid\<rparr>)))"

subsection \<open>Locks, branches and the alternative stack\<close>

definition exec_lock :: "script_context \<Rightarrow> u8 \<Rightarrow> script_machine \<Rightarrow> script_error + script_machine" where
  "exec_lock ctx opcode m =
     and_then (decode_top_number (sm_stack m) (sc_flags ctx) 5) (\<lambda>v.
     if v < 0 then Inl SeNegativeLocktime
     else if v \<ge> 2 ^ 32 then Inl SeUnsatisfiedLocktime
     else
       let predicate = word_of_int v; tx = shc_transaction (sc_cache ctx) in
       if \<not> (if opcode = OP_CHECKLOCKTIMEVERIFY then verify_locktime_predicate tx (sc_input_index ctx) predicate
         else verify_sequence_predicate tx (sc_input_index ctx) predicate)
       then Inl SeUnsatisfiedLocktime else Inr m)"

definition exec_if :: "script_context \<Rightarrow> u8 \<Rightarrow> script_machine \<Rightarrow> script_error + script_machine" where
  "exec_if ctx opcode m =
     (if list_all id (sm_conditions m) then
        and_then (pop_item (sm_stack m)) (\<lambda>(item, stack).
        if flags_contains (sc_flags ctx) verify_minimal_if \<and> \<not> (item = [] \<or> item = [1])
        then Inl SeMinimalIf
        else
          and_then (cast_to_bool item) (\<lambda>v.
          let v = (if opcode = OP_NOTIF then \<not> v else v)
          in Inr (m\<lparr>sm_stack := stack, sm_conditions := sm_conditions m @ [v]\<rparr>)))
      else Inr (m\<lparr>sm_conditions := sm_conditions m @ [False]\<rparr>))"

definition exec_else :: "script_machine \<Rightarrow> script_error + script_machine" where
  "exec_else m =
     (if sm_conditions m = [] then Inl SeUnbalancedConditional
      else Inr (m\<lparr>sm_conditions := butlast (sm_conditions m) @ [\<not> last (sm_conditions m)]\<rparr>))"

definition exec_endif :: "script_machine \<Rightarrow> script_error + script_machine" where
  "exec_endif m =
     (if sm_conditions m = [] then Inl SeUnbalancedConditional
      else Inr (m\<lparr>sm_conditions := butlast (sm_conditions m)\<rparr>))"

definition exec_verify :: "script_machine \<Rightarrow> script_error + script_machine" where
  "exec_verify m =
     and_then (pop_item (sm_stack m)) (\<lambda>(item, stack).
     and_then (cast_to_bool item) (\<lambda>truth. if \<not> truth then Inl SeVerify else Inr (m\<lparr>sm_stack := stack\<rparr>)))"

definition exec_to_alt :: "script_machine \<Rightarrow> script_error + script_machine" where
  "exec_to_alt m =
     and_then (pop_item (sm_stack m)) (\<lambda>(item, stack).
     Inr (m\<lparr>sm_stack := stack, sm_alt_stack := sm_alt_stack m @ [item]\<rparr>))"

definition exec_from_alt :: "script_machine \<Rightarrow> script_error + script_machine" where
  "exec_from_alt m =
     (if sm_alt_stack m = [] then Inl SeInvalidAltStackOperation
      else Inr (m\<lparr>sm_stack := sm_stack m @ [last (sm_alt_stack m)], sm_alt_stack := butlast (sm_alt_stack m)\<rparr>))"

definition covenant_type_of :: "script_context \<Rightarrow> int" where
  "covenant_type_of ctx =
     (case get (tx_outputs (shc_transaction (sc_cache ctx))) (sc_input_index ctx) of
        Some out \<Rightarrow> uint (kind_as_u8 (cov_kind (out_covenant out)))
      | None \<Rightarrow> 0)"

subsection \<open>One instruction\<close>

text \<open>The arms that only change the main stack; \<open>None\<close> is an opcode of another arm.\<close>

definition stack_arm :: "script_env \<Rightarrow> script_context \<Rightarrow> u8 \<Rightarrow> bytes list \<Rightarrow> (script_error + bytes list) option" where
  "stack_arm env ctx opcode stack =
     (if opcode = OP_0 then Some (Inr (stack @ [[]]))
      else if opcode = OP_1NEGATE then Some (Inr (stack @ [encode_script_number (- 1)]))
      else if OP_1 \<le> opcode \<and> opcode \<le> OP_16
      then Some (op_small_number opcode stack)
      else if opcode = OP_NOP then Some (Inr stack)
      else if opcode = OP_TYPE then Some (Inr (stack @ [encode_script_number (covenant_type_of ctx)]))
      else if opcode = OP_NOP1 \<or> (OP_NOP4 \<le> opcode \<and> opcode \<le> OP_NOP10) then
        Some (if flags_contains (sc_flags ctx) verify_discourage_upgradable_nops
          then Inl SeDiscourageUpgradableNops else Inr stack)
      else if opcode = OP_RETURN then Some (Inl SeOpReturn)
      else if opcode = OP_2DROP then Some (op_2drop stack)
      else if opcode = OP_2DUP then Some (duplicate_tail stack 2)
      else if opcode = OP_3DUP then Some (duplicate_tail stack 3)
      else if opcode = OP_2OVER then Some (op_2over stack)
      else if opcode = OP_2ROT then Some (op_2rot stack)
      else if opcode = OP_2SWAP then Some (op_2swap stack)
      else if opcode = OP_IFDUP then Some (op_ifdup stack)
      else if opcode = OP_DEPTH then Some (Inr (stack @ [encode_script_number (int (length stack))]))
      else if opcode = OP_DROP then Some (map_sum id snd (pop_item stack))
      else if opcode = OP_DUP then Some (duplicate_tail stack 1)
      else if opcode = OP_NIP then Some (op_nip stack)
      else if opcode = OP_OVER then Some (op_over stack)
      else if opcode = OP_PICK \<or> opcode = OP_ROLL then Some (op_pick_roll opcode (sc_flags ctx) stack)
      else if opcode = OP_ROT then Some (op_rot stack)
      else if opcode = OP_SWAP then Some (op_swap stack)
      else if opcode = OP_TUCK then Some (op_tuck stack)
      else if opcode = OP_SIZE then Some (op_size stack)
      else if opcode = OP_EQUAL \<or> opcode = OP_EQUALVERIFY then Some (op_equal opcode stack)
      else if opcode \<in> {OP_1ADD, OP_1SUB, OP_NEGATE, OP_ABS, OP_NOT, OP_0NOTEQUAL}
      then Some (op_unary opcode (sc_flags ctx) stack)
      else if opcode \<in> {OP_ADD, OP_SUB, OP_BOOLAND, OP_BOOLOR, OP_NUMEQUAL, OP_NUMEQUALVERIFY, OP_NUMNOTEQUAL,
        OP_LESSTHAN, OP_GREATERTHAN, OP_LESSTHANOREQUAL, OP_GREATERTHANOREQUAL, OP_MIN, OP_MAX}
      then Some (op_binary opcode (sc_flags ctx) stack)
      else if opcode = OP_WITHIN then Some (op_within (sc_flags ctx) stack)
      else if opcode \<in> {OP_BLAKE160, OP_BLAKE256, OP_SHA3, OP_KECCAK, OP_RIPEMD160, OP_SHA1, OP_SHA256,
        OP_HASH160, OP_HASH256}
      then Some (op_hash env opcode stack)
      else None)"

definition exec_opcode ::
  "script_env \<Rightarrow> script_context \<Rightarrow> instruction \<Rightarrow> script_machine \<Rightarrow> script_error + script_machine" where
  "exec_opcode env ctx ins m =
     (let opcode = ins_opcode ins in
      case stack_arm env ctx opcode (sm_stack m) of
        Some result \<Rightarrow> and_then result (\<lambda>stack. Inr (m\<lparr>sm_stack := stack\<rparr>))
      | None \<Rightarrow>
          if opcode = OP_CHECKLOCKTIMEVERIFY \<or> opcode = OP_CHECKSEQUENCEVERIFY then exec_lock ctx opcode m
          else if opcode = OP_IF \<or> opcode = OP_NOTIF then exec_if ctx opcode m
          else if opcode = OP_ELSE then exec_else m
          else if opcode = OP_ENDIF then exec_endif m
          else if opcode = OP_VERIFY then exec_verify m
          else if opcode = OP_TOALTSTACK then exec_to_alt m
          else if opcode = OP_FROMALTSTACK then exec_from_alt m
          else if opcode = OP_CODESEPARATOR then Inr (m\<lparr>sm_last_separator := ins_end ins\<rparr>)
          else if opcode = OP_CHECKSIG \<or> opcode = OP_CHECKSIGVERIFY then exec_checksig env ctx opcode m
          else if opcode = OP_CHECKMULTISIG \<or> opcode = OP_CHECKMULTISIGVERIFY
          then exec_checkmultisig env ctx opcode m
          else if opcode \<in> {OP_RESERVED, OP_VER, OP_VERIF, OP_VERNOTIF, OP_RESERVED1, OP_RESERVED2, OP_INVALIDOPCODE}
          then Inl (SeBadOpcode opcode)
          else Inl (SeUnsupportedOpcode opcode))"

definition count_operation :: "u8 \<Rightarrow> nat \<Rightarrow> script_error + nat" where
  "count_operation opcode operation_count =
     (if opcode > OP_16 then
        and_then (ok_or (usize_checked_add operation_count 1) SeOperationCount) (\<lambda>operation_count.
        if operation_count > max_script_ops then Inl SeOperationCount else Inr operation_count)
      else Inr operation_count)"

definition exec_instruction ::
  "script_env \<Rightarrow> script_context \<Rightarrow> instruction \<Rightarrow> script_machine \<Rightarrow> script_error + script_machine" where
  "exec_instruction env ctx ins m =
     (if (case ins_data ins of Some data \<Rightarrow> length data > max_script_push | None \<Rightarrow> False) then Inl SePushSize
      else
        and_then (count_operation (ins_opcode ins) (sm_operation_count m)) (\<lambda>operation_count.
        let m = m\<lparr>sm_operation_count := operation_count\<rparr> in
        if is_disabled_opcode (ins_opcode ins) then Inl (SeDisabledOpcode (ins_opcode ins))
        else if \<not> list_all id (sm_conditions m) \<and> \<not> (OP_IF \<le> ins_opcode ins \<and> ins_opcode ins \<le> OP_ENDIF)
        then and_then (enforce_stack_limit (sm_stack m) (sm_alt_stack m)) (\<lambda>_. Inr m)
        else
          case ins_data ins of
            Some data \<Rightarrow>
              and_then (if flags_contains (sc_flags ctx) verify_minimal_data then is_minimal_push (ins_opcode ins) data
                else Inr True) (\<lambda>minimal.
              if \<not> minimal then Inl SeMinimalData
              else
                let m = m\<lparr>sm_stack := sm_stack m @ [data]\<rparr> in
                and_then (enforce_stack_limit (sm_stack m) (sm_alt_stack m)) (\<lambda>_. Inr m))
          | None \<Rightarrow>
              and_then (exec_opcode env ctx ins m) (\<lambda>m.
              and_then (enforce_stack_limit (sm_stack m) (sm_alt_stack m)) (\<lambda>_. Inr m))))"

definition execute_script :: "script_env \<Rightarrow> script_context \<Rightarrow> bytes list \<Rightarrow> script_error + bytes list" where
  "execute_script env ctx stack =
     (if length (sc_script ctx) > max_script_size then Inl SeScriptSize
      else
        and_then (parse_script (sc_script ctx)) (\<lambda>instructions.
        and_then (fold_res (exec_instruction env ctx) instructions
          \<lparr>sm_stack = stack, sm_alt_stack = [], sm_conditions = [], sm_operation_count = 0, sm_last_separator = 0\<rparr>)
          (\<lambda>m. if sm_conditions m \<noteq> [] then Inl SeUnbalancedConditional else Inr (sm_stack m))))"

subsection \<open>Witness programs\<close>

definition pubkey_hash_script :: "bytes \<Rightarrow> bytes" where
  "pubkey_hash_script hash = [OP_DUP, OP_BLAKE160, 20] @ hash @ [OP_EQUALVERIFY, OP_CHECKSIG]"

text \<open>The script to run and the stack it starts with; \<open>None\<close> accepts a program of an unknown version.\<close>

definition redeem_script ::
  "script_env \<Rightarrow> u32 \<Rightarrow> address \<Rightarrow> bytes list \<Rightarrow> script_error + (bytes \<times> bytes list) option" where
  "redeem_script env flags address stack =
     (if addr_version address = 0 then
        if length (addr_hash address) = 32 then
          and_then (if stack = [] then Inl SeWitnessProgramWitnessEmpty else Inr (last stack, butlast stack))
            (\<lambda>(witness_script, stack).
          if length witness_script > max_script_size then Inl SeScriptSize
          else if se_sha3_256 env witness_script \<noteq> addr_hash address then Inl SeWitnessProgramMismatch
          else Inr (Some (witness_script, stack)))
        else if length (addr_hash address) = 20 then
          if length stack \<noteq> 2 then Inl SeWitnessProgramMismatch
          else Inr (Some (pubkey_hash_script (addr_hash address), stack))
        else Inl SeWitnessProgramWrongLength
      else if flags_contains flags verify_discourage_upgradable_witness_program
      then Inl SeDiscourageUpgradableWitnessProgram
      else Inr None)"

definition verify_witness_program_with_cache ::
  "script_env \<Rightarrow> signature_hash_cache \<Rightarrow> nat \<Rightarrow> coin \<Rightarrow> u32 \<Rightarrow> script_error + unit" where
  "verify_witness_program_with_cache env cache input_index coin flags =
     and_then (ok_or (get (tx_inputs (shc_transaction cache)) input_index) SeInputIndexOutOfRange) (\<lambda>input.
     if addr_version (coin_address coin) = 31 then Inl SeOpReturn
     else if length (in_witness input) > max_script_stack then Inl SeStackSize
     else
       and_then (redeem_script env flags (coin_address coin) (in_witness input)) (\<lambda>selected.
       case selected of
         None \<Rightarrow> Inr ()
       | Some (redeem, stack) \<Rightarrow>
           if list_ex (\<lambda>item. length item > max_script_push) stack then Inl SePushSize
           else
             and_then (execute_script env
               \<lparr>sc_script = redeem, sc_cache = cache, sc_input_index = input_index, sc_previous_value = coin_value coin,
                sc_flags = flags\<rparr> stack) (\<lambda>stack.
             if length stack \<noteq> 1 then Inl SeEvalFalse
             else
               and_then (vec_index stack 0) (\<lambda>top.
               and_then (cast_to_bool top) (\<lambda>truth. if \<not> truth then Inl SeEvalFalse else Inr ())))))"

definition verify_witness_program ::
  "script_env \<Rightarrow> transaction \<Rightarrow> nat \<Rightarrow> coin \<Rightarrow> u32 \<Rightarrow> script_error + unit" where
  "verify_witness_program env tx input_index coin flags =
     verify_witness_program_with_cache env (signature_hash_cache_new (se_blake2b_256 env) tx) input_index coin flags"

definition verify_input :: "script_env \<Rightarrow> u32 \<Rightarrow> transaction \<Rightarrow> nat \<Rightarrow> coin \<Rightarrow> consensus_error + unit" where
  "verify_input env flags tx input_index coin =
     map_sum (\<lambda>error. Authorization (script_error_message error)) id
       (verify_witness_program env tx input_index coin flags)"

definition verify_input_with_cache ::
  "script_env \<Rightarrow> u32 \<Rightarrow> signature_hash_cache \<Rightarrow> nat \<Rightarrow> coin \<Rightarrow> consensus_error + unit" where
  "verify_input_with_cache env flags cache input_index coin =
     map_sum (\<lambda>error. Authorization (script_error_message error)) id
       (verify_witness_program_with_cache env cache input_index coin flags)"

text \<open>Whether a verifier may be used for consensus: mandatory flags and a complete backend.\<close>

definition witness_verifier_is_consensus_complete :: "u32 \<Rightarrow> bool \<Rightarrow> bool" where
  "witness_verifier_is_consensus_complete flags backend_complete \<longleftrightarrow>
     flags_contains flags script_flags_mandatory \<and> backend_complete"

text \<open>The default verifier rejects every spend.\<close>

definition reject_unverified_input :: "transaction \<Rightarrow> nat \<Rightarrow> coin \<Rightarrow> consensus_error + unit" where
  "reject_unverified_input tx input_index coin =
     Inl (Authorization ''transaction authorization backend is not configured'')"

end
