(* ===== verification/Script_Safety.thy ===== *)
theory Script_Safety
  imports Script_Machine
begin

unbundle bit_operations_syntax

text \<open>
  The verification of a witness program never panics and the machine stays within its limits.  A result is
  safe when it is not the panic value; the rules for safe results follow the structure of the definitions.
\<close>

subsection \<open>Safe results\<close>

named_theorems safe_intros "rules for results that are no panic"

definition safe :: "script_error + 'a \<Rightarrow> bool" where
  "safe r \<longleftrightarrow> r \<noteq> Inl SePanic"

text \<open>
  What the machine relies on: the lengths of digests, and a signature backend that reports its errors.
\<close>

definition env_ok :: "script_env \<Rightarrow> bool" where
  "env_ok env \<longleftrightarrow>
     (\<forall>x. length (se_blake2b_160 env x) = 20 \<and> length (se_blake2b_256 env x) = 32 \<and>
        length (se_sha3_256 env x) = 32 \<and> length (se_keccak_256 env x) = 32 \<and>
        se_validate_compact_signature env x \<noteq> Inl SePanic) \<and>
     (\<forall>message signature key. se_verify env message signature key \<noteq> Inl SePanic)"

lemma safe_Inr [safe_intros, simp]: "safe (Inr x)"
  by (simp add: safe_def)

lemma safe_Inl [simp]: "safe (Inl e) \<longleftrightarrow> e \<noteq> SePanic"
  by (simp add: safe_def)

lemma safe_and_then [safe_intros]:
  "safe m \<Longrightarrow> (\<And>x. m = Inr x \<Longrightarrow> safe (f x)) \<Longrightarrow> safe (and_then m f)"
  by (cases m) (auto simp: safe_def)

lemma safe_if [safe_intros]: "(P \<Longrightarrow> safe a) \<Longrightarrow> (\<not> P \<Longrightarrow> safe b) \<Longrightarrow> safe (if P then a else b)"
  by simp

lemma safe_ok_or [simp]: "safe (ok_or m e) \<longleftrightarrow> m \<noteq> None \<or> e \<noteq> SePanic"
  by (cases m) auto

lemma safe_fold_res:
  assumes "\<And>x s. x \<in> set xs \<Longrightarrow> P s \<Longrightarrow> safe (f x s)"
    and "\<And>x s s'. x \<in> set xs \<Longrightarrow> P s \<Longrightarrow> f x s = Inr s' \<Longrightarrow> P s'" and "P s"
  shows "safe (fold_res f xs s)"
  using assms
proof (induction xs arbitrary: s)
  case (Cons a xs)
  show ?case unfolding fold_res.simps
  proof (rule safe_and_then)
    show "safe (f a s)" using Cons.prems by simp
    show "safe (fold_res f xs s')" if "f a s = Inr s'" for s'
      using that Cons.prems by (intro Cons.IH) (simp_all, blast+)
  qed
qed simp

lemma require_stack_Inr [simp]: "require_stack stack n = Inr u \<longleftrightarrow> n \<le> length stack"
  by (auto simp: require_stack_def)

lemma usize_sub_Inr [simp]: "usize_sub a b = Inr c \<longleftrightarrow> b \<le> a \<and> c = a - b"
  by (auto simp: usize_sub_def)

lemma vec_remove_Inr [simp]:
  "vec_remove xs i = Inr (x, ys) \<longleftrightarrow> i < length xs \<and> x = xs ! i \<and> ys = take i xs @ drop (Suc i) xs"
  by (auto simp: vec_remove_def)

lemma vec_swap_Inr [simp]:
  "vec_swap xs i j = Inr ys \<longleftrightarrow> i < length xs \<and> j < length xs \<and> ys = xs[i := xs ! j, j := xs ! i]"
  by (auto simp: vec_swap_def)

lemma vec_split_off_Inr [simp]:
  "vec_split_off xs k = Inr (ys, zs) \<longleftrightarrow> k \<le> length xs \<and> ys = take k xs \<and> zs = drop k xs"
  by (auto simp: vec_split_off_def)

lemma vec_insert_Inr [simp]: "vec_insert xs i x = Inr ys \<longleftrightarrow> i \<le> length xs \<and> ys = take i xs @ [x] @ drop i xs"
  by (auto simp: vec_insert_def)

lemma pop_item_Inr [simp]:
  "pop_item stack = Inr (x, rest) \<longleftrightarrow> stack \<noteq> [] \<and> x = last stack \<and> rest = butlast stack"
  by (auto simp: pop_item_def)

lemma safe_vec [simp]:
  "safe (usize_sub a b) \<longleftrightarrow> b \<le> a" "safe (vec_remove xs i) \<longleftrightarrow> i < length xs"
  "safe (vec_swap xs i j) \<longleftrightarrow> i < length xs \<and> j < length xs" "safe (vec_split_off xs k) \<longleftrightarrow> k \<le> length xs"
  "safe (vec_slice xs a b) \<longleftrightarrow> a \<le> b \<and> b \<le> length xs" "safe (vec_index xs i) \<longleftrightarrow> i < length xs"
  "safe (vec_insert xs i y) \<longleftrightarrow> i \<le> length xs" "safe (require_stack stack n)" "safe (pop_item stack)"
  "safe (u64_shl z n) \<longleftrightarrow> n < 64" "safe (usize_add a b) \<longleftrightarrow> a + b \<le> usize_max"
  "safe (usize_mul a b) \<longleftrightarrow> a * b \<le> usize_max" "safe (u8_add v w) \<longleftrightarrow> unat v + unat w < 2 ^ 8"
  "safe (u8_sub v w) \<longleftrightarrow> w \<le> v"
  by (auto simp: usize_add_def usize_mul_def u8_add_def u8_sub_def usize_sub_def vec_remove_def vec_swap_def vec_split_off_def vec_slice_def vec_index_def
      vec_insert_def require_stack_def pop_item_def u64_shl_def)

lemma arith_Inr [simp]:
  "usize_mul a b = Inr c \<longleftrightarrow> a * b \<le> usize_max \<and> c = a * b"
  "u8_add v w = Inr u \<longleftrightarrow> unat v + unat w < 2 ^ 8 \<and> u = v + w" "u8_sub v w = Inr u \<longleftrightarrow> w \<le> v \<and> u = v - w"
  by (auto simp: usize_mul_def u8_add_def u8_sub_def)

lemma safe_is_minimal_script_number [simp]: "safe (is_minimal_script_number bytes)"
  unfolding is_minimal_script_number_def by (intro safe_intros) (auto simp: Suc_le_eq neq_Nil_conv)

lemma safe_decode_step: "8 * fst p < 64 \<Longrightarrow> safe (decode_step p magnitude)"
  unfolding decode_step_def split_beta by (intro safe_intros) (auto simp: usize_max_def)

lemma safe_decode_script_number:
  assumes "n \<le> 8"
  shows "safe (decode_script_number bytes require_minimal n)"
proof -
  have [simp]: "safe (i64_neg (uint m))" if "unat m < 2 ^ 63" for m :: u64
  proof -
    have "int (unat m) < int (2 ^ 63)" using that by (simp only: of_nat_less_iff)
    moreover have "- uint m < 2 ^ 63" by (rule le_less_trans [of _ 0]) simp_all
    ultimately show ?thesis by (simp add: i64_neg_def i64_range_def)
  qed
  show ?thesis
    unfolding decode_script_number_def Let_def
    by (intro safe_intros safe_fold_res [where P = "\<lambda>_. True"] safe_decode_step)
      (use assms in \<open>auto simp: enumerate_eq_zip set_zip Suc_le_eq usize_max_def\<close>)
qed

lemma safe_cast_to_bool [simp]: "safe (cast_to_bool bytes)"
proof -
  have "length bytes \<le> len \<Longrightarrow> safe (cast_loop len index bytes)" for len index
    by (induction bytes arbitrary: index) (auto intro!: safe_and_then)
  then show ?thesis by (simp add: cast_to_bool_def)
qed

lemma safe_is_minimal_push [simp]: "safe (is_minimal_push opcode data)"
proof -
  have "unat (0x51 + b) = 0x51 + unat b" "unat b \<noteq> 0" if "1 \<le> b" "b \<le> 16" for b :: u8
  proof -
    have "1 \<le> unat b" "unat b \<le> 16" using that by (simp_all add: word_le_nat_alt)
    then show "unat (0x51 + b) = 0x51 + unat b" "unat b \<noteq> 0" by (simp_all add: unat_word_ariths)
  qed
  note small = this
  have "safe (u8_add OP_1 b)" "safe (u8_sub (OP_1 + b) 1)" if "1 \<le> b" "b \<le> 16" for b
    using that small [OF that] by (simp_all add: word_le_nat_alt)
  then show ?thesis
    unfolding is_minimal_push_def by (intro safe_intros) (auto simp: and_then_eq_Inr split: if_splits)
qed

lemma safe_op_small_number:
  assumes "OP_1 \<le> opcode \<and> opcode \<le> OP_16"
  shows "safe (op_small_number opcode stack)"
proof -
  have "unat (opcode - OP_1) = unat opcode - unat OP_1" "unat opcode \<le> 0x60"
    using assms by (simp_all add: unat_sub_if' word_le_nat_alt)
  then show ?thesis unfolding op_small_number_def using assms by (intro safe_intros) auto
qed

lemma pop_number_Inr:
  "pop_number stack flags = Inr (v, rest) \<longleftrightarrow> stack \<noteq> [] \<and> rest = butlast stack \<and>
     decode_script_number (last stack) (minimal_numbers flags) 4 = Inr v"
  by (auto simp: pop_number_def and_then_eq_Inr)

lemma safe_pop_number [simp]: "safe (pop_number stack flags)"
  unfolding pop_number_def split_beta by (intro safe_intros) (simp_all add: safe_decode_script_number)

subsection \<open>Operations\<close>

lemma safe_stack_operations [simp]:
  "safe (duplicate_tail stack n)" "safe (op_2drop stack)" "safe (op_2over stack)" "safe (op_ifdup stack)"
  "safe (op_over stack)" "safe (op_swap stack)" "safe (op_tuck stack)" "safe (op_size stack)"
  "safe (op_nip stack)" "safe (op_rot stack)" "safe (op_2rot stack)" "safe (op_2swap stack)"
  unfolding duplicate_tail_def op_2drop_def op_2over_def op_ifdup_def op_over_def op_swap_def op_tuck_def op_size_def
    op_nip_def op_rot_def op_2rot_def op_2swap_def split_beta
  by (intro safe_intros; force)+


lemma safe_op_pick_roll [simp]: "safe (op_pick_roll opcode flags stack)"
  unfolding op_pick_roll_def Let_def split_beta by (intro safe_intros) auto

lemma safe_op_equal [simp]: "safe (op_equal opcode stack)"
  unfolding op_equal_def Let_def split_beta by (intro safe_intros) auto

lemma safe_op_unary [simp]: "safe (op_unary opcode flags stack)"
  unfolding op_unary_def split_beta by (intro safe_intros) auto

lemma safe_op_within [simp]: "safe (op_within flags stack)"
  unfolding op_within_def split_beta by (intro safe_intros) auto

lemma safe_op_binary:
  assumes "opcode \<in> {OP_ADD, OP_SUB, OP_BOOLAND, OP_BOOLOR, OP_NUMEQUAL, OP_NUMEQUALVERIFY, OP_NUMNOTEQUAL,
    OP_LESSTHAN, OP_GREATERTHAN, OP_LESSTHANOREQUAL, OP_GREATERTHANOREQUAL, OP_MIN, OP_MAX}"
  shows "safe (op_binary opcode flags stack)"
proof -
  have "safe (binary_result opcode l r)" for l r
    unfolding binary_result_def using assms by (intro safe_intros) auto
  then show ?thesis unfolding op_binary_def split_beta by (intro safe_intros) auto
qed

lemma safe_op_hash:
  assumes "opcode \<in> {OP_BLAKE160, OP_BLAKE256, OP_SHA3, OP_KECCAK, OP_RIPEMD160, OP_SHA1, OP_SHA256,
    OP_HASH160, OP_HASH256}"
  shows "safe (op_hash env opcode stack)"
proof -
  have "safe (op_digest env opcode item)" for item
    unfolding op_digest_def using assms by (intro safe_intros) auto
  then show ?thesis unfolding op_hash_def split_beta by (intro safe_intros) auto
qed

lemma pred_option_if [safe_intros]:
  "(P \<Longrightarrow> pred_option Q a) \<Longrightarrow> (\<not> P \<Longrightarrow> pred_option Q b) \<Longrightarrow> pred_option Q (if P then a else b)"
  by simp

lemma pred_option_SomeI [safe_intros]: "Q x \<Longrightarrow> pred_option Q (Some x)"
  by simp

lemma safe_map_sum [simp]: "safe (map_sum id f r) \<longleftrightarrow> safe r"
  by (cases r) auto

lemma safe_stack_arm: "pred_option safe (stack_arm env ctx opcode stack)"
  unfolding stack_arm_def
  by (intro safe_intros; (rule safe_op_binary | rule safe_op_hash | rule safe_op_small_number)?; (assumption | simp (no_asm))) 

lemma safe_backend:
  assumes "env_ok env"
  shows "safe (se_validate_compact_signature env bs)" "safe (se_verify env message bs key)"
  using assms by (simp_all add: env_ok_def safe_def)

lemma safe_map_sum_error [simp]: "(\<And>e. g e \<noteq> SePanic) \<Longrightarrow> safe (map_sum g f r)"
  by (cases r) auto

lemma safe_check_signature:
  assumes "env_ok env"
  shows "safe (check_signature env ctx subscript signature public_key)"
  unfolding check_signature_def Let_def
  by (intro safe_intros; (split option.split)?; (intro allI impI conjI safe_intros)?)
    (auto simp: safe_backend [OF assms] and_then_eq_Inr split: if_splits)

lemma safe_multisig_loop:
  assumes "\<And>s k. safe (check s k)" and "m \<le> length signatures" and "n \<le> length keys"
  shows "safe (multisig_loop check signatures keys m n)"
  using assms
proof (induction check signatures keys m n rule: multisig_loop.induct)
  case (1 check signatures keys m n)
  show ?case
    by (subst multisig_loop.simps, intro safe_intros "1.IH") (use "1.prems" in \<open>auto split: if_splits\<close>)
qed

lemma usize_sat_add_small [simp]: "n \<le> max_multisig_pubkeys \<Longrightarrow> usize_sat_add n (Suc 0) = Suc n"
  by (simp add: usize_sat_add_def script_limits usize_max_def)

lemma safe_check_multisig:
  assumes "env_ok env"
  shows "safe (check_multisig env ctx subscript stack operation_count)"
  unfolding check_multisig_def Let_def split_beta
  by (intro safe_intros safe_multisig_loop safe_check_signature [OF assms]) (auto simp: not_less)

lemma safe_exec_opcode:
  assumes "env_ok env" and "sm_last_separator m \<le> length (sc_script ctx)"
  shows "safe (exec_opcode env ctx ins m)"
proof -
  have [simp]: "safe (exec_checksig env ctx opcode m)" for opcode
    unfolding exec_checksig_def split_beta
    by (intro safe_intros) (use assms in \<open>auto simp: safe_check_signature\<close>)
  have [simp]: "safe (exec_checkmultisig env ctx opcode m)" for opcode
    unfolding exec_checkmultisig_def Let_def split_beta
    by (intro safe_intros) (use assms in \<open>auto simp: safe_check_multisig\<close>)
  have [simp]: "safe (exec_lock ctx opcode m)" for opcode
    unfolding exec_lock_def Let_def decode_top_number_def
    by (intro safe_intros) (auto simp: safe_decode_script_number)
  have [simp]: "safe (exec_if ctx opcode m)" for opcode
    unfolding exec_if_def Let_def split_beta by (intro safe_intros) auto
  have [simp]: "safe (exec_else m)" "safe (exec_endif m)" "safe (exec_verify m)" "safe (exec_to_alt m)"
    "safe (exec_from_alt m)"
    unfolding exec_else_def exec_endif_def exec_verify_def exec_to_alt_def exec_from_alt_def split_beta
    by (intro safe_intros; simp)+
  show ?thesis
    unfolding exec_opcode_def Let_def
    using safe_stack_arm [of env ctx "ins_opcode ins" "sm_stack m"]
    by (cases "stack_arm env ctx (ins_opcode ins) (sm_stack m)") (auto intro!: safe_and_then)
qed

lemma safe_exec_instruction:
  assumes "env_ok env" and "sm_last_separator m \<le> length (sc_script ctx)"
  shows "safe (exec_instruction env ctx ins m)"
proof -
  have [simp]: "safe (enforce_stack_limit a b)" for a b by (simp add: enforce_stack_limit_def)
  have [simp]: "safe (count_operation opcode n)" for opcode n
    unfolding count_operation_def by (intro safe_intros) auto
  have [simp]: "safe (exec_opcode env ctx ins (m\<lparr>sm_operation_count := n\<rparr>))" for n
    using assms by (intro safe_exec_opcode) simp_all
  show ?thesis
    unfolding exec_instruction_def Let_def
    by (intro safe_intros; (split option.split)?; (intro conjI allI impI safe_intros)?) auto
qed

subsection \<open>Limits\<close>

text \<open>The items of a stack are never longer than the limit on pushes.\<close>

definition items_within :: "bytes list \<Rightarrow> bool" where
  "items_within stack \<longleftrightarrow> (\<forall>item\<in>set stack. length item \<le> max_script_push)"

lemma items_within_simps [simp]:
  "items_within []" "items_within (x # xs) \<longleftrightarrow> length x \<le> max_script_push \<and> items_within xs"
  "items_within (xs @ ys) \<longleftrightarrow> items_within xs \<and> items_within ys"
  by (auto simp: items_within_def)

lemma items_within_parts [simp]:
  assumes "items_within xs"
  shows "items_within (take n xs)" "items_within (drop n xs)" "items_within (butlast xs)"
    "i < length xs \<Longrightarrow> length (xs ! i) \<le> max_script_push" "xs \<noteq> [] \<Longrightarrow> length (last xs) \<le> max_script_push"
    "length x \<le> max_script_push \<Longrightarrow> items_within (xs[i := x])"
  using assms set_update_subset_insert [of xs i x]
  by (auto simp: items_within_def dest: in_set_takeD in_set_dropD in_set_butlastD)

lemma magnitude_bytes_length: "unat w < 256 ^ n \<Longrightarrow> length (magnitude_bytes w) \<le> n"
proof (induction n arbitrary: w)
  case 0
  then show ?case by (simp add: magnitude_bytes.simps unat_eq_0)
next
  case (Suc n)
  from Suc.prems have "unat (drop_bit 8 w) < 256 ^ n"
    by (simp add: unat_drop_bit less_mult_imp_div_less mult.commute)
  from Suc.IH [OF this] show ?case by (simp add: magnitude_bytes.simps [of w])
qed

lemma encode_script_number_length: "length (encode_script_number v) \<le> 9"
proof -
  have "length (magnitude_bytes w) \<le> 8" for w
    using unat_lt2p [of w] by (intro magnitude_bytes_length) simp
  from this [of "word_of_int \<bar>v\<bar>"] show ?thesis
    by (auto simp: encode_script_number_def Let_def)
qed

lemma encode_script_number_within [simp]: "length (encode_script_number v) \<le> max_script_push"
  using encode_script_number_length [of v] by (simp add: script_limits)

named_theorems returns_intros "rules for the values a result may have"

definition returns :: "('a \<Rightarrow> bool) \<Rightarrow> 'e + 'a \<Rightarrow> bool" where
  "returns P r \<longleftrightarrow> (\<forall>x. r = Inr x \<longrightarrow> P x)"

lemma returnsD: "returns P r \<Longrightarrow> r = Inr x \<Longrightarrow> P x"
  by (simp add: returns_def)

lemma returns_simps [simp]: "returns P (Inr x) \<longleftrightarrow> P x" "returns P (Inl e)"
  by (simp_all add: returns_def)

lemma returns_and_then [returns_intros]:
  "(\<And>x. m = Inr x \<Longrightarrow> returns P (f x)) \<Longrightarrow> returns P (and_then m f)"
  by (cases m) auto

lemma returns_if [returns_intros]:
  "(Q \<Longrightarrow> returns P a) \<Longrightarrow> (\<not> Q \<Longrightarrow> returns P b) \<Longrightarrow> returns P (if Q then a else b)"
  by simp

lemmas stack_operation_defs = duplicate_tail_def op_2drop_def op_2over_def op_ifdup_def op_over_def op_swap_def
  op_tuck_def op_size_def op_nip_def op_rot_def op_2rot_def op_2swap_def op_pick_roll_def op_equal_def op_unary_def
  op_within_def op_binary_def op_small_number_def push_bool_def

lemma push_within [simp]: "length (if v then [1 :: u8] else []) \<le> max_script_push"
  by (simp add: script_limits)

lemma returns_stack_operations:
  assumes "items_within stack"
  shows "returns items_within (duplicate_tail stack n)" "returns items_within (op_2drop stack)"
    "returns items_within (op_2over stack)" "returns items_within (op_ifdup stack)"
    "returns items_within (op_over stack)" "returns items_within (op_swap stack)"
    "returns items_within (op_tuck stack)" "returns items_within (op_size stack)"
    "returns items_within (op_nip stack)" "returns items_within (op_rot stack)"
    "returns items_within (op_2rot stack)" "returns items_within (op_2swap stack)"
  unfolding stack_operation_defs split_beta Let_def
  by (intro returns_intros; use assms in \<open>auto simp: returns_def split: if_splits\<close>)+

lemma returns_number_operations:
  assumes "items_within stack"
  shows "returns items_within (op_pick_roll opcode flags stack)" "returns items_within (op_equal opcode stack)"
    "returns items_within (op_unary opcode flags stack)" "returns items_within (op_within flags stack)"
    "returns items_within (op_binary opcode flags stack)" "returns items_within (op_small_number opcode stack)"
  unfolding stack_operation_defs split_beta Let_def
  by (intro returns_intros; use assms in \<open>auto simp: pop_number_Inr\<close>)+

lemma returns_op_hash:
  assumes "env_ok env" and "items_within stack"
  shows "returns items_within (op_hash env opcode stack)"
proof -
  have "returns (\<lambda>d. length d \<le> max_script_push) (op_digest env opcode item)" for item
    using assms(1) unfolding op_digest_def
    by (intro returns_intros; simp add: env_ok_def script_limits)
  then show ?thesis
    unfolding op_hash_def split_beta
    by (intro returns_intros) (use assms(2) in \<open>auto dest: returnsD\<close>)
qed

lemma returns_map_sum [simp]: "returns P (map_sum id f r) \<longleftrightarrow> returns (\<lambda>x. P (f x)) r"
  by (cases r) auto

lemma returns_stack_arm:
  assumes "env_ok env" and "items_within stack"
  shows "pred_option (returns items_within) (stack_arm env ctx opcode stack)"
  unfolding stack_arm_def
  by (intro safe_intros returns_intros;
      (rule returns_op_hash [OF assms] | rule returns_stack_operations [OF assms(2)]
        | rule returns_number_operations [OF assms(2)]
        | (use assms(2) in \<open>simp add: pop_item_def\<close>)))

text \<open>The limits of a machine; the limit on the two stacks is enforced at the end of an instruction.\<close>

definition machine_within :: "bytes \<Rightarrow> script_machine \<Rightarrow> bool" where
  "machine_within script m \<longleftrightarrow>
     sm_last_separator m \<le> length script \<and> sm_operation_count m \<le> max_script_ops \<and>
     items_within (sm_stack m) \<and> items_within (sm_alt_stack m)"

definition machine_ok :: "bytes \<Rightarrow> script_machine \<Rightarrow> bool" where
  "machine_ok script m \<longleftrightarrow>
     machine_within script m \<and> length (sm_stack m) + length (sm_alt_stack m) \<le> max_script_stack"

lemma items_within_pops:
  "pop_item xs = Inr r \<Longrightarrow> items_within xs \<Longrightarrow> items_within (snd r)"
  "pop_number xs flags = Inr t \<Longrightarrow> items_within xs \<Longrightarrow> items_within (snd t)"
  "vec_split_off xs k = Inr u \<Longrightarrow> items_within xs \<Longrightarrow> items_within (fst u)"
  by (cases r, cases t, cases u, auto simp: pop_number_Inr)+

lemma returns_check_multisig:
  assumes "items_within stack"
  shows "returns (\<lambda>(valid, stack, operation_count). items_within stack \<and> operation_count \<le> max_script_ops)
    (check_multisig env ctx subscript stack operation_count)"
  unfolding check_multisig_def Let_def split_beta
  by (intro returns_intros; simp; blast intro: items_within_pops assms)

lemma returns_exec_opcode:
  assumes "env_ok env" and "machine_within (sc_script ctx) m" and "ins_end ins \<le> length (sc_script ctx)"
  shows "returns (machine_within (sc_script ctx)) (exec_opcode env ctx ins m)"
proof -
  note m = assms(2) [unfolded machine_within_def]
  have [simp]: "returns (machine_within (sc_script ctx)) (exec_checksig env ctx opcode m)" for opcode
    unfolding exec_checksig_def split_beta push_bool_def
    by (intro returns_intros) (use m in \<open>auto simp: machine_within_def\<close>)
  have [simp]: "returns (machine_within (sc_script ctx)) (exec_checkmultisig env ctx opcode m)" for opcode
    unfolding exec_checkmultisig_def split_beta push_bool_def Let_def
    by (intro returns_intros)
      (use m in \<open>auto simp: machine_within_def dest!: returnsD [OF returns_check_multisig, rotated]\<close>)
  have [simp]: "returns (machine_within (sc_script ctx)) (exec_lock ctx opcode m)"
    "returns (machine_within (sc_script ctx)) (exec_if ctx opcode m)"
    "returns (machine_within (sc_script ctx)) (exec_else m)" "returns (machine_within (sc_script ctx)) (exec_endif m)"
    "returns (machine_within (sc_script ctx)) (exec_verify m)" "returns (machine_within (sc_script ctx)) (exec_to_alt m)"
    "returns (machine_within (sc_script ctx)) (exec_from_alt m)" for opcode
    unfolding exec_else_def exec_endif_def exec_verify_def exec_to_alt_def exec_from_alt_def exec_if_def exec_lock_def
      split_beta Let_def
    by (intro returns_intros; use m in \<open>auto simp: machine_within_def\<close>)+
  show ?thesis
    using returns_stack_arm [OF assms(1), of "sm_stack m" ctx "ins_opcode ins"] m assms(3)
    unfolding exec_opcode_def Let_def
    by (cases "stack_arm env ctx (ins_opcode ins) (sm_stack m)")
      (auto simp: machine_within_def intro!: returns_and_then dest: returnsD)
qed

lemma returns_exec_instruction:
  assumes "env_ok env" and "machine_ok (sc_script ctx) m" and "ins_end ins \<le> length (sc_script ctx)"
  shows "returns (machine_ok (sc_script ctx)) (exec_instruction env ctx ins m)"
proof -
  have limit: "enforce_stack_limit a b = Inr u \<longleftrightarrow> length a + length b \<le> max_script_stack" for a b u
    by (auto simp: enforce_stack_limit_def usize_sat_add_def script_limits usize_max_def)
  have ops: "count \<le> max_script_ops" if "count_operation opcode (sm_operation_count m) = Inr count" for opcode count
    using that assms(2)
    by (auto simp: count_operation_def and_then_eq_Inr machine_ok_def machine_within_def split: if_splits)
  have step: "machine_within (sc_script ctx) m'"
    if "exec_opcode env ctx ins (m\<lparr>sm_operation_count := count\<rparr>) = Inr m'" "count \<le> max_script_ops" for m' count
    by (rule returnsD [OF returns_exec_opcode that(1)])
      (use assms that(2) in \<open>simp_all add: machine_ok_def machine_within_def\<close>)
  show ?thesis
    unfolding exec_instruction_def Let_def
    by (intro returns_intros; (split option.split)?; (intro conjI allI impI returns_intros)?)
      (use assms(2) in \<open>auto simp: limit machine_ok_def machine_within_def dest: ops step [unfolded machine_within_def]\<close>)
qed

lemma parse_data_len_within:
  "parse_data_len script opcode offset = Inr (n, e) \<Longrightarrow> offset \<le> length script \<Longrightarrow> e \<le> length script"
  by (auto simp: parse_data_len_def script_read_u8_def script_read_u16_def script_read_u32_def script_read_Inr
      and_then_eq_Inr get_eq_Some split: if_splits)

lemma parse_instruction_within:
  assumes "parse_instruction script offset = Inr ins"
  shows "ins_end ins \<le> length script"
  using assms
proof (cases rule: parse_instruction_Inr)
  case (1 n e)
  then show ?thesis
    using parse_data_len_within [OF 1(2)] by (auto simp: and_then_eq_Inr script_read_Inr split: option.splits)
qed

lemma parse_loop_within:
  "parse_loop script offset = Inr instructions \<Longrightarrow> ins \<in> set instructions \<Longrightarrow> ins_end ins \<le> length script"
proof (induction script offset arbitrary: instructions rule: parse_loop.induct)
  case (1 script offset)
  show ?case
  proof (cases "offset < length script")
    case True
    with "1.prems"(1) obtain i rest where parts: "parse_instruction script offset = Inr i"
      "parse_loop script (ins_end i) = Inr rest" "instructions = i # rest"
      by (subst (asm) parse_loop.simps) (auto simp: and_then_eq_Inr)
    then show ?thesis
      using "1.prems"(2) "1.IH" [OF True parts(1,2)] parse_instruction_within [OF parts(1)] by auto
  qed (use "1.prems" in \<open>subst (asm) parse_loop.simps, simp\<close>)
qed

lemma safe_parse_script:
  assumes "length script \<le> usize_max"
  shows "safe (parse_script script)"
proof -
  have [simp]: "safe (script_read opcode n script offset)" for opcode n offset
    by (auto simp: script_read_def usize_checked_add_def intro!: safe_and_then split: option.splits)
  have [simp]: "safe (parse_data_len script opcode offset)" for opcode offset
    unfolding parse_data_len_def script_read_u8_def script_read_u16_def script_read_u32_def split_beta
    by (intro safe_intros) (use assms in auto)
  have [simp]: "safe (parse_instruction script offset)" if "offset < length script" for offset
    unfolding parse_instruction_def split_beta
    by (intro safe_intros; (split option.split)?; (intro conjI allI impI safe_intros)?) (use assms that in auto)
  have "safe (parse_loop script offset)" for offset
  proof (induction "length script - offset" arbitrary: offset rule: less_induct)
    case less
    show ?case
      by (subst parse_loop.simps, intro safe_intros less) (auto dest: parse_instruction_end)
  qed
  then show ?thesis by (simp add: parse_script_def)
qed

abbreviation initial_machine :: "bytes list \<Rightarrow> script_machine" where
  "initial_machine stack \<equiv> \<lparr>sm_stack = stack, sm_alt_stack = [], sm_conditions = [], sm_operation_count = 0,
     sm_last_separator = 0\<rparr>"

lemma machine_ok_run:
  assumes "env_ok env" and "\<And>ins. ins \<in> set instructions \<Longrightarrow> ins_end ins \<le> length (sc_script ctx)"
    and "machine_ok (sc_script ctx) m" and "fold_res (exec_instruction env ctx) instructions m = Inr m'"
  shows "machine_ok (sc_script ctx) m'"
  using assms(2-)
proof (induction instructions arbitrary: m)
  case (Cons ins instructions)
  then show ?case
    by (auto simp: and_then_eq_Inr dest!: returnsD [OF returns_exec_instruction [OF assms(1)], rotated])
qed simp

lemma safe_execute_script:
  assumes "env_ok env" and "machine_ok (sc_script ctx) (initial_machine stack)"
  shows "safe (execute_script env ctx stack)"
proof -
  have "safe (fold_res (exec_instruction env ctx) instructions (initial_machine stack))"
    if "parse_script (sc_script ctx) = Inr instructions" for instructions
  proof (rule safe_fold_res [where P = "machine_ok (sc_script ctx)"])
    fix ins m assume ins: "ins \<in> set instructions" and m: "machine_ok (sc_script ctx) m"
    show "safe (exec_instruction env ctx ins m)"
      using m by (intro safe_exec_instruction assms(1)) (simp add: machine_ok_def machine_within_def)
    show "machine_ok (sc_script ctx) m'" if "exec_instruction env ctx ins m = Inr m'" for m'
      using returns_exec_instruction [OF assms(1) m parse_loop_within [OF _ ins]] that
        \<open>parse_script (sc_script ctx) = Inr instructions\<close> by (auto simp: parse_script_def dest: returnsD)
  qed (rule assms(2))
  then show ?thesis
    unfolding execute_script_def by (intro safe_intros safe_parse_script) (auto simp: script_limits usize_max_def)
qed

subsection \<open>Properties\<close>

text \<open>
  An environment with constant digests and a backend that accepts every signature, and a spend of a
  version-0 coin with a given witness.
\<close>

definition example_env :: script_env where
  "example_env = \<lparr>se_blake2b_160 = (\<lambda>_. replicate 20 0), se_blake2b_256 = (\<lambda>_. replicate 32 0),
     se_sha3_256 = (\<lambda>_. replicate 32 0), se_keccak_256 = (\<lambda>_. replicate 32 0), se_sha256_k = [],
     se_validate_compact_signature = (\<lambda>_. Inr ()), se_verify = (\<lambda>_ _ _. Inr True)\<rparr>"

lemma example_env_ok: "env_ok example_env"
  by (simp add: env_ok_def example_env_def)

definition example_coin :: "nat \<Rightarrow> coin" where
  "example_coin n = \<lparr>coin_outpoint = \<lparr>op_txid = replicate 32 0, op_index = 0\<rparr>, coin_value = 5, coin_height = 1,
     coin_coinbase = False, coin_address = \<lparr>addr_version = 0, addr_hash = replicate n 0\<rparr>,
     coin_covenant = \<lparr>cov_kind = CovNone, cov_items = []\<rparr>\<rparr>"

definition example_spend :: "witness \<Rightarrow> transaction" where
  "example_spend w = \<lparr>tx_version = 0,
     tx_inputs = [\<lparr>in_prevout = \<lparr>op_txid = replicate 32 0, op_index = 0\<rparr>, in_sequence = 0, in_witness = w\<rparr>],
     tx_outputs = [], tx_locktime = 0\<rparr>"

text \<open>
  C9: no script panics.  Whatever the transaction, the coin, the witness, the script and the flags, the verification
  of a witness program reaches no panic of script.rs: every index and slice of a script, a stack, a signature,
  a key or a number, every removal, insertion, swap and split of a stack, every shift, every plain addition,
  subtraction, multiplication and negation is in range, and no opcode is led to an arm without a result for
  it.  The bodies of the hash functions and the signature backend, which are other modules, are
  outside the claim; the backend is assumed to return.
\<close>

theorem witness_program_never_panics:
  assumes "env_ok env"
  shows "verify_witness_program env tx input_index coin flags \<noteq> Inl SePanic"
proof -
  have "safe (verify_witness_program_with_cache env cache input_index coin flags)" for cache
  proof -
    have redeem: "safe (redeem_script env flags address stack)" for address stack
      unfolding redeem_script_def split_beta by (intro safe_intros) auto
    have run: "safe (execute_script env ctx stack)"
      if "redeem_script env flags address witness = Inr (Some (redeem, stack))"
        "\<not> max_script_stack < length witness" "\<not> list_ex (\<lambda>item. max_script_push < length item) stack"
      for ctx address witness redeem stack
      using that
      by (intro safe_execute_script assms)
        (auto simp: machine_ok_def machine_within_def items_within_def list_ex_iff not_less redeem_script_def
          and_then_eq_Inr split: if_splits)
    show ?thesis
      unfolding verify_witness_program_with_cache_def
      by (intro safe_intros redeem; (split option.split prod.split)?; (intro conjI allI impI safe_intros)?;
          (auto intro!: safe_and_then)?; erule (2) run)
  qed
  then show ?thesis by (simp add: verify_witness_program_def safe_def)
qed

theorem witness_program_never_panics_witness:
  "env_ok example_env \<and>
   verify_witness_program example_env (example_spend [[OP_2SWAP]]) 0 (example_coin 32) 0 \<noteq> Inl SePanic"
  using example_env_ok witness_program_never_panics [OF example_env_ok] by blast

text \<open>
  C38: the limits hold after every instruction.  After any part of a script the machine has counted at most 201
  operations, holds at most 1000 items on its two stacks, none longer than 520 bytes, and the last code
  separator lies in the script.
\<close>

theorem script_limits_enforced:
  assumes "env_ok env" and "parse_script (sc_script ctx) = Inr (before @ after)"
    and "length stack \<le> max_script_stack" and "\<forall>item\<in>set stack. length item \<le> max_script_push"
    and "fold_res (exec_instruction env ctx) before (initial_machine stack) = Inr m"
  shows "sm_operation_count m \<le> 201 \<and> length (sm_stack m) + length (sm_alt_stack m) \<le> 1000 \<and>
    (\<forall>item\<in>set (sm_stack m) \<union> set (sm_alt_stack m). length item \<le> 520) \<and>
    sm_last_separator m \<le> length (sc_script ctx)"
proof -
  have "machine_ok (sc_script ctx) m"
  proof (rule machine_ok_run [OF assms(1) _ _ assms(5)])
    show "ins_end ins \<le> length (sc_script ctx)" if "ins \<in> set before" for ins
      using assms(2) that by (auto simp: parse_script_def intro!: parse_loop_within)
    show "machine_ok (sc_script ctx) (initial_machine stack)"
      using assms(3,4) by (simp add: machine_ok_def machine_within_def items_within_def)
  qed
  then show ?thesis
    by (auto simp: machine_ok_def machine_within_def items_within_def script_limits)
qed

definition example_context :: "bytes \<Rightarrow> script_context" where
  "example_context script = \<lparr>sc_script = script, sc_cache = signature_hash_cache_new (\<lambda>_. []) (example_spend []),
     sc_input_index = 0, sc_previous_value = 5, sc_flags = 0\<rparr>"

theorem script_limits_enforced_witness:
  "let ctx = example_context [OP_1, OP_DUP, OP_TOALTSTACK, OP_CODESEPARATOR];
       parsed = parse_script (sc_script ctx);
       run = fold_res (exec_instruction example_env ctx) (projr parsed) (initial_machine []) in
   \<not> isl parsed \<and> \<not> isl run \<and> sm_operation_count (projr run) \<le> 201"
proof -
  let ?ctx = "example_context [OP_1, OP_DUP, OP_TOALTSTACK, OP_CODESEPARATOR]"
  let ?parsed = "parse_script (sc_script ?ctx)"
  let ?run = "fold_res (exec_instruction example_env ?ctx) (projr ?parsed) (initial_machine [])"
  have ok: "\<not> isl ?parsed" "\<not> isl ?run" by code_simp+
  from ok have "?parsed = Inr (projr ?parsed @ [])" "?run = Inr (projr ?run)" by simp_all
  from script_limits_enforced [OF example_env_ok this(1) _ _ this(2)] ok show ?thesis by (simp add: Let_def)
qed

end
