(* ===== verification/Script_Spends.thy ===== *)
theory Script_Spends
  imports Script_Numbers Script_Safety "HOL-Library.Sublist"
begin

text \<open>
  What it takes to spend: the exact condition for a payment to a public key hash, and the matching of
  signatures to keys in a multisignature.
\<close>

subsection \<open>Payments to a public key hash\<close>

lemma parse_pubkey_hash_script:
  assumes "length hash = 20"
  shows "parse_script (pubkey_hash_script hash) = Inr
    [\<lparr>ins_opcode = OP_DUP, ins_data = None, ins_end = 1\<rparr>, \<lparr>ins_opcode = OP_BLAKE160, ins_data = None, ins_end = 2\<rparr>,
     \<lparr>ins_opcode = 20, ins_data = Some hash, ins_end = 23\<rparr>, \<lparr>ins_opcode = OP_EQUALVERIFY, ins_data = None, ins_end = 24\<rparr>,
     \<lparr>ins_opcode = OP_CHECKSIG, ins_data = None, ins_end = 25\<rparr>]"
proof -
  let ?script = "pubkey_hash_script hash"
  have len: "length ?script = 25" using assms by (simp add: pubkey_hash_script_def)
  have at: "?script ! 0 = OP_DUP" "?script ! 1 = OP_BLAKE160" "?script ! 2 = 20" "?script ! 23 = OP_EQUALVERIFY"
    "?script ! 24 = OP_CHECKSIG"
    using assms by (simp_all add: pubkey_hash_script_def nth_append nth_Cons')
  have data: "take 20 (drop 3 ?script) = hash"
    using assms by (simp add: pubkey_hash_script_def)
  have step: "parse_instruction ?script 0 = Inr \<lparr>ins_opcode = OP_DUP, ins_data = None, ins_end = 1\<rparr>"
    "parse_instruction ?script 1 = Inr \<lparr>ins_opcode = OP_BLAKE160, ins_data = None, ins_end = 2\<rparr>"
    "parse_instruction ?script 2 = Inr \<lparr>ins_opcode = 20, ins_data = Some hash, ins_end = 23\<rparr>"
    "parse_instruction ?script 23 = Inr \<lparr>ins_opcode = OP_EQUALVERIFY, ins_data = None, ins_end = 24\<rparr>"
    "parse_instruction ?script 24 = Inr \<lparr>ins_opcode = OP_CHECKSIG, ins_data = None, ins_end = 25\<rparr>"
    using len data at
    by (simp_all add: parse_instruction_def vec_index_def vec_slice_def usize_add_def parse_data_len_def script_read_def
        usize_checked_add_def usize_max_def)
  have loop: "parse_loop ?script offset =
    (if offset < 25 then and_then (parse_instruction ?script offset) (\<lambda>ins.
       and_then (parse_loop ?script (ins_end ins)) (\<lambda>rest. Inr (ins # rest))) else Inr [])" for offset
    by (subst parse_loop.simps) (simp only: len)
  show ?thesis
    unfolding parse_script_def
    by (simp add: loop [of 0] loop [of 1] loop [of 2] loop [of 23] loop [of 24] loop [of 25] step del: One_nat_def)
qed

lemma exec_instruction_plain:
  assumes "sm_conditions m = []" and "ins_data ins = None" and "\<not> is_disabled_opcode (ins_opcode ins)"
    and "OP_16 < ins_opcode ins" and "sm_operation_count m < max_script_ops"
  shows "exec_instruction env ctx ins m =
    and_then (exec_opcode env ctx ins (m\<lparr>sm_operation_count := Suc (sm_operation_count m)\<rparr>)) (\<lambda>m.
    and_then (enforce_stack_limit (sm_stack m) (sm_alt_stack m)) (\<lambda>_. Inr m))"
  using assms
  by (simp add: exec_instruction_def count_operation_def usize_checked_add_def Let_def script_limits usize_max_def)

lemma enforce_stack_limit_ok [simp]: "length a + length b \<le> 1000 \<Longrightarrow> enforce_stack_limit a b = Inr ()"
  by (simp add: enforce_stack_limit_def usize_sat_add_def script_limits usize_max_def)

lemma execute_pubkey_hash_script:
  assumes "length hash = 20" and "sc_script ctx = pubkey_hash_script hash"
  shows "execute_script env ctx [signature, key] =
    (if se_blake2b_160 env key \<noteq> hash then Inl SeEqualVerify
     else and_then (check_signature env ctx (pubkey_hash_script hash) signature key) (\<lambda>valid.
       if \<not> valid \<and> flags_contains (sc_flags ctx) verify_nullfail \<and> signature \<noteq> [] then Inl SeNullFail
       else Inr [if valid then [1] else []]))"
proof -
  have size: "length (pubkey_hash_script hash) = 25" using assms(1) by (simp add: pubkey_hash_script_def)
  let ?m = "\<lambda>stack n. \<lparr>sm_stack = stack, sm_alt_stack = [], sm_conditions = [], sm_operation_count = n, sm_last_separator = 0\<rparr>"
  let ?i = "\<lambda>opcode e. \<lparr>ins_opcode = opcode, ins_data = None, ins_end = e\<rparr>"
  have dup: "exec_instruction env ctx (?i OP_DUP 1) (?m [signature, key] 0) = Inr (?m [signature, key, key] 1)"
    by (subst exec_instruction_plain)
      (simp_all add: is_disabled_opcode_def script_limits exec_opcode_def stack_arm_def duplicate_tail_def require_stack_def
        usize_sub_def vec_slice_def)
  have blake: "exec_instruction env ctx (?i OP_BLAKE160 2) (?m [signature, key, key] 1) =
      Inr (?m [signature, key, se_blake2b_160 env key] 2)"
    by (subst exec_instruction_plain)
      (simp_all add: is_disabled_opcode_def script_limits exec_opcode_def stack_arm_def op_hash_def op_digest_def pop_item_def)
  have push: "exec_instruction env ctx \<lparr>ins_opcode = 20, ins_data = Some hash, ins_end = 23\<rparr>
      (?m [signature, key, se_blake2b_160 env key] 2) = Inr (?m [signature, key, se_blake2b_160 env key, hash] 2)"
    using assms(1)
    by (auto simp: exec_instruction_def script_limits count_operation_def is_disabled_opcode_def is_minimal_push_def vec_index_def)
  have equal: "exec_instruction env ctx (?i OP_EQUALVERIFY 24) (?m [signature, key, se_blake2b_160 env key, hash] 2) =
      (if se_blake2b_160 env key = hash then Inr (?m [signature, key] 3) else Inl SeEqualVerify)"
    by (subst exec_instruction_plain)
      (simp_all add: is_disabled_opcode_def script_limits exec_opcode_def stack_arm_def op_equal_def require_stack_def
        pop_item_def)
  have check: "exec_instruction env ctx (?i OP_CHECKSIG 25) (?m [signature, key] 3) =
      and_then (check_signature env ctx (pubkey_hash_script hash) signature key) (\<lambda>valid.
        if \<not> valid \<and> flags_contains (sc_flags ctx) verify_nullfail \<and> signature \<noteq> [] then Inl SeNullFail
        else Inr (?m [if valid then [1] else []] 4))"
    by (subst exec_instruction_plain)
      (auto simp: is_disabled_opcode_def script_limits exec_opcode_def stack_arm_def exec_checksig_def require_stack_def
        pop_item_def vec_slice_def assms(2) size push_bool_def and_then_assoc intro!: and_then_cong)
  show ?thesis
    using size unfolding execute_script_def assms(2) parse_pubkey_hash_script [OF assms(1)]
    by (auto simp: script_limits dup blake push equal check and_then_assoc simp del: One_nat_def intro!: and_then_cong)
qed

lemma check_signature_True:
  "check_signature env ctx subscript signature key = Inr True \<longleftrightarrow>
     length signature = 65 \<and> is_valid_signature_hash_type (signature ! 64) \<and>
     se_validate_compact_signature env (take 64 signature) = Inr () \<and>
     length key = 33 \<and> key ! 0 \<in> {0x02, 0x03} \<and>
     (\<exists>message. cache_signature_hash (se_blake2b_256 env) (sc_cache ctx) (sc_input_index ctx) subscript
        (sc_previous_value ctx) (ucast (signature ! 64)) = Inr message \<and>
        se_verify env message (take 64 signature) key = Inr True)"
  by (auto simp: check_signature_def Let_def and_then_eq_Inr map_sum_eq_Inr split: option.splits)

text \<open>
  C10: who can spend a payment to a public key hash.  The input is accepted exactly when its witness is a signature
  and a key, the key hashes to the program, the signature has 65 bytes ending in a valid type, both
  encodings are valid, and the backend accepts the signature for the signature hash of this input, the
  implied script and the value of the coin.
\<close>

theorem pubkey_hash_spend_exact:
  assumes "get (tx_inputs tx) i = Some input" and "addr_version (coin_address coin) = 0"
    and "length (addr_hash (coin_address coin)) = 20"
  shows "verify_witness_program env tx i coin flags = Inr () \<longleftrightarrow>
    (\<exists>signature key message. in_witness input = [signature, key] \<and>
       se_blake2b_160 env key = addr_hash (coin_address coin) \<and>
       length signature = 65 \<and> is_valid_signature_hash_type (signature ! 64) \<and>
       se_validate_compact_signature env (take 64 signature) = Inr () \<and> length key = 33 \<and> key ! 0 \<in> {0x02, 0x03} \<and>
       signature_hash (se_blake2b_256 env) tx i (pubkey_hash_script (addr_hash (coin_address coin))) (coin_value coin)
         (ucast (signature ! 64)) = Inr message \<and>
       se_verify env message (take 64 signature) key = Inr True)"
  (is "?accepted \<longleftrightarrow> ?condition")
proof -
  let ?hash = "addr_hash (coin_address coin)"
  let ?ctx = "\<lparr>sc_script = pubkey_hash_script ?hash, sc_cache = signature_hash_cache_new (se_blake2b_256 env) tx,
     sc_input_index = i, sc_previous_value = coin_value coin, sc_flags = flags\<rparr>"
  have tx: "shc_transaction (signature_hash_cache_new H tx) = tx" for H by (simp add: signature_hash_cache_new_def)
  have run: "verify_witness_program env tx i coin flags =
    (if max_script_stack < length (in_witness input) then Inl SeStackSize
     else if length (in_witness input) \<noteq> 2 then Inl SeWitnessProgramMismatch
     else if list_ex (\<lambda>item. max_script_push < length item) (in_witness input) then Inl SePushSize
     else and_then (execute_script env ?ctx (in_witness input)) (\<lambda>stack.
       if length stack \<noteq> 1 then Inl SeEvalFalse
       else and_then (vec_index stack 0) (\<lambda>top. and_then (cast_to_bool top) (\<lambda>truth.
         if \<not> truth then Inl SeEvalFalse else Inr ()))))"
    unfolding verify_witness_program_def verify_witness_program_with_cache_def tx assms(1)
    using assms(2,3) by (simp add: redeem_script_def)
  have "?accepted \<longleftrightarrow> (\<exists>signature key. in_witness input = [signature, key] \<and> length signature \<le> 520 \<and> length key \<le> 520 \<and>
    se_blake2b_160 env key = ?hash \<and> check_signature env ?ctx (pubkey_hash_script ?hash) signature key = Inr True)"
  proof (cases "length (in_witness input) = 2")
    case True
    then obtain signature key where w: "in_witness input = [signature, key]"
      by (auto simp: numeral_2_eq_2 length_Suc_conv)
    show ?thesis
      unfolding run w
      by (cases "check_signature env ?ctx (pubkey_hash_script ?hash) signature key")
        (auto simp: execute_pubkey_hash_script [OF assms(3)] script_limits cast_to_bool_def usize_sub_def vec_index_def not_less)
  qed (auto simp: run)
  then show ?thesis
    using assms(1) unfolding check_signature_True by (auto simp: signature_hash_def)
qed

theorem pubkey_hash_spend_exact_witness:
  "verify_witness_program example_env (example_spend [replicate 64 0 @ [1], 2 # replicate 32 0]) 0 (example_coin 20) 0 =
     Inr ()"
proof -
  let ?tx = "example_spend [replicate 64 0 @ [1], 2 # replicate 32 0]"
  have input: "get (tx_inputs ?tx) 0 = Some (tx_inputs ?tx ! 0)" by (simp add: example_spend_def get_def)
  have "is_valid_signature_hash_type 1" by code_simp
  then show ?thesis
    by (subst pubkey_hash_spend_exact [OF input])
      (simp_all add: example_coin_def example_spend_def example_env_def signature_hash_def cache_signature_hash_def
        get_def signature_hash_cache_new_def nth_append)
qed

subsection \<open>Multisignatures\<close>

text \<open>Signatures match keys when they fit, in order, a selection of the keys.\<close>

definition signatures_match :: "(bytes \<Rightarrow> bytes \<Rightarrow> bool) \<Rightarrow> bytes list \<Rightarrow> bytes list \<Rightarrow> bool" where
  "signatures_match ok signatures keys \<longleftrightarrow> (\<exists>selected. subseq selected keys \<and> list_all2 ok signatures selected)"

lemma subseq_snoc:
  "subseq (xs @ [x]) (ys @ [y]) \<longleftrightarrow> (if x = y then subseq xs ys else subseq (xs @ [x]) ys)"
proof (cases "x = y")
  case False
  have "subseq (xs @ [x]) ys" if "subseq (xs @ [x]) (ys @ [y])"
  proof -
    from that obtain us vs where split: "xs @ [x] = us @ vs" "subseq us ys" "subseq vs [y]"
      by (auto simp: subseq_append_iff)
    have "vs = []"
      using split(1) list_emb_set [OF split(3), of x] False by (cases vs rule: rev_cases) auto
    then show ?thesis using split by simp
  qed
  then show ?thesis using False by (auto intro: subseq_rev_drop_many)
qed simp

lemma list_all2_snoc:
  "list_all2 P (xs @ [x]) zs \<longleftrightarrow> (\<exists>ys y. zs = ys @ [y] \<and> list_all2 P xs ys \<and> P x y)"
proof (cases zs rule: rev_cases)
  case (snoc ys y)
  then show ?thesis using list_all2_rev [of P "xs @ [x]" "ys @ [y]"] by auto
qed (auto dest: list_all2_lengthD)

lemma signatures_match_snoc_iff:
  "signatures_match ok (ss @ [s]) ks \<longleftrightarrow> (\<exists>zs z. subseq (zs @ [z]) ks \<and> list_all2 ok ss zs \<and> ok s z)"
  unfolding signatures_match_def list_all2_snoc by auto

lemma signatures_match_snoc:
  "signatures_match ok (ss @ [s]) (ks @ [k]) \<longleftrightarrow>
     (if ok s k then signatures_match ok ss ks else signatures_match ok (ss @ [s]) ks)"
proof (cases "ok s k")
  case True
  have "subseq zs ks" if "subseq (zs @ [z]) (ks @ [k])" for zs z
  proof (cases "z = k")
    case False
    then have "subseq (zs @ [z]) ks" using that by (simp add: subseq_snoc)
    then show ?thesis using subseq_order.order_trans [OF prefix_imp_subseq [of zs "zs @ [z]"]] by simp
  qed (use that in simp)
  moreover have "subseq (zs @ [k]) (ks @ [k])" if "subseq zs ks" for zs using that by simp
  ultimately have "signatures_match ok (ss @ [s]) (ks @ [k]) \<longleftrightarrow> signatures_match ok ss ks"
    using True unfolding signatures_match_snoc_iff unfolding signatures_match_def by meson
  then show ?thesis using True by (simp only: if_True)
next
  case False
  have "subseq (zs @ [z]) (ks @ [k]) \<and> ok s z \<longleftrightarrow> subseq (zs @ [z]) ks \<and> ok s z" for zs z
    using False by (cases "z = k") (auto simp: subseq_snoc intro: subseq_rev_drop_many)
  then show ?thesis
    using False unfolding signatures_match_snoc_iff by (simp only: if_False) meson
qed

lemma signatures_match_short: "length keys < length signatures \<Longrightarrow> \<not> signatures_match ok signatures keys"
  by (auto simp: signatures_match_def dest!: list_all2_lengthD list_emb_length)

lemma multisig_loop_exact:
  assumes "\<And>s k. s \<in> set signatures \<Longrightarrow> k \<in> set keys \<Longrightarrow> check s k = Inr (ok s k)"
    and "m \<le> length signatures" and "n \<le> length keys"
  shows "\<exists>valid left. multisig_loop check signatures keys m n = Inr (valid, left) \<and>
    (valid \<and> left = 0 \<longleftrightarrow> signatures_match ok (take m signatures) (take n keys))"
  using assms
proof (induction check signatures keys m n rule: multisig_loop.induct)
  case (1 check signatures keys m n)
  show ?case
  proof (cases "0 < m \<and> m \<le> n")
    case True
    let ?s = "signatures ! (m - 1)" and ?k = "keys ! (n - 1)"
    have bounds: "m - 1 < length signatures" "n - 1 < length keys" using True "1.prems"(2,3) by linarith+
    then have parts: "take m signatures = take (m - 1) signatures @ [?s]" "take n keys = take (n - 1) keys @ [?k]"
      using True "1.prems"(2,3) take_Suc_conv_app_nth [of "m - 1" signatures] take_Suc_conv_app_nth [of "n - 1" keys]
      by simp_all
    have check: "check ?s ?k = Inr (ok ?s ?k)" using bounds by (intro "1.prems"(1) nth_mem)
    have step: "multisig_loop check signatures keys m n =
      multisig_loop check signatures keys (if ok ?s ?k then m - 1 else m) (n - 1)"
      using True bounds check by (subst multisig_loop.simps) (simp add: vec_index_def usize_sub_def)
    show ?thesis
      unfolding step parts signatures_match_snoc
      using "1.IH" [of "m - 1" ?s "n - 1" ?k "ok ?s ?k" "if ok ?s ?k then m - 1 else m" "n - 1"] True bounds "1.prems" check by (cases "ok ?s ?k") (simp_all add: parts(1))
  next
    case False
    show ?thesis
      using False "1.prems"
      by (subst multisig_loop.simps) (auto simp: signatures_match_short, simp add: signatures_match_def)
  qed
qed

lemma decode_small_number:
  assumes "n < 128"
  shows "decode_script_number (encode_script_number (int n)) minimal 4 = Inr (int n)"
proof -
  have "length (encode_script_number (int n)) \<le> 1"
  proof (cases "n = 0")
    case False
    then have c: "(word_of_nat n :: u8) \<noteq> 0" "unat (word_of_nat n :: u8) = n"
      using assms by (auto simp: unat_of_nat simp flip: unat_eq_0)
    then show ?thesis using encode_script_number_eq [OF c(1), of "[]" "int n"] assms by simp
  qed (simp add: encode_script_number_def)
  then show ?thesis
    using encode_script_number_decodes [of "int n"] assms by (simp add: decode_script_number_value)
qed

lemma pop_small_number:
  "n < 128 \<Longrightarrow> pop_number (stack @ [encode_script_number (int n)]) flags = Inr (int n, stack)"
  by (simp add: pop_number_Inr decode_small_number)

text \<open>
  C11: multisignatures.  With every pair of signature and key decided, the loop that walks both lists from the end and
  never looks back accepts exactly when the signatures fit, in order, a selection of the keys; the
  arguments are removed from the stack, the keys count as operations, and a failure with a non-empty
  signature is an error under NULLFAIL.
\<close>

theorem multisig_exact:
  assumes "length keys \<le> 20" and "length signatures \<le> length keys" and "operation_count + length keys \<le> 201"
    and "\<And>s k. s \<in> set signatures \<Longrightarrow> k \<in> set keys \<Longrightarrow> check_signature env ctx subscript s k = Inr (ok s k)"
  shows "check_multisig env ctx subscript
      (stack @ [[]] @ signatures @ [encode_script_number (int (length signatures))] @ keys @
        [encode_script_number (int (length keys))]) operation_count =
    (let valid = (\<exists>selected. subseq selected keys \<and> list_all2 ok signatures selected)
     in if \<not> valid \<and> flags_contains (sc_flags ctx) verify_nullfail \<and> (\<exists>s\<in>set signatures. s \<noteq> [])
        then Inl SeNullFail else Inr (valid, stack, operation_count + length keys))"
proof -
  obtain valid left where loop: "multisig_loop (check_signature env ctx subscript) signatures keys
      (length signatures) (length keys) = Inr (valid, left)"
    and valid: "valid \<and> left = 0 \<longleftrightarrow> (\<exists>selected. subseq selected keys \<and> list_all2 ok signatures selected)"
    using multisig_loop_exact [of signatures keys "check_signature env ctx subscript" ok "length signatures" "length keys"]
      assms(4) by (auto simp: signatures_match_def)
  have len: "length keys \<le> max_multisig_pubkeys" "length signatures \<le> max_multisig_pubkeys"
    using assms(1,2) by (simp_all add: script_limits)
  have pops: "pop_number (xs @ [encode_script_number (int (length keys))]) flags = Inr (int (length keys), xs)"
    "pop_number (xs @ [encode_script_number (int (length signatures))]) flags = Inr (int (length signatures), xs)"
    for xs flags
    using assms(1,2) by (simp_all add: pop_small_number)
  have shape: "stack @ [[]] @ signatures @ [encode_script_number (int (length signatures))] @ keys @
      [encode_script_number (int (length keys))] =
    (((stack @ [[]]) @ signatures) @ [encode_script_number (int (length signatures))] @ keys) @
      [encode_script_number (int (length keys))]" by simp
  show ?thesis
    unfolding check_multisig_def shape pops valid [symmetric]
    using assms(1-3) len pops(2)
    by (simp add: require_stack_def vec_split_off_def usize_sub_def usize_checked_add_def usize_max_def script_limits
        pop_item_def loop list_ex_iff Let_def flip: append_assoc)
qed

theorem multisig_exact_witness:
  "check_multisig example_env (example_context []) []
      [[7], [], replicate 64 0 @ [1], encode_script_number 1, 2 # replicate 32 0, 3 # replicate 32 0, encode_script_number 2] 0 =
    Inr (True, [[7]], 2)"
proof -
  let ?sig = "replicate 64 0 @ [1] :: bytes" and ?keys = "[2 # replicate 32 0, 3 # replicate 32 0] :: bytes list"
  have "is_valid_signature_hash_type 1" by code_simp
  then have checked: "check_signature example_env (example_context []) [] s k = Inr True" if "s \<in> set [?sig]" "k \<in> set ?keys" for s k
    using that
    by (auto simp: check_signature_True example_env_def example_context_def example_spend_def cache_signature_hash_def
        get_def signature_hash_cache_new_def nth_append)
  have match: "\<exists>selected. subseq selected ?keys \<and> list_all2 (\<lambda>_ _. True) [?sig] selected"
    by (rule exI [of _ "[hd ?keys]"]) simp
  from multisig_exact [of ?keys "[?sig]" 0 example_env "example_context []" "[]" "\<lambda>_ _. True" "[[7]]", OF _ _ _ checked]
    match
  have "check_multisig example_env (example_context []) []
      ([[7]] @ [[]] @ [?sig] @ [encode_script_number (int (length [?sig]))] @ ?keys @
        [encode_script_number (int (length ?keys))]) 0 = Inr (True, [[7]], 2)"
    by (simp add: Let_def)
  then show ?thesis by simp
qed

end
