(* ===== verification/Spec2Isabelle.thy ===== *)
theory Spec2Isabelle
  imports Codec Compact_Target Wire Hashing Params Deployment Resource Block_Rules Covenant_Links Locks Name_Lookup Name_Proofs Script_Spends
begin

text \<open>
  Verification of the consensus core of \<^verbatim>\<open>hns-node-rs\<close>, a Handshake full node in Rust.

  \<^bold>\<open>The program.\<close>  A node receives blocks and transactions as bytes
  (\<^verbatim>\<open>hns-primitives\<close>: readers, writers, wire structures, hashes, name state and DNS resources) and
  decides by pure functions whether they are valid (\<^verbatim>\<open>hns-consensus\<close>: network parameters,
  difficulty, deployments, transaction and block rules, covenants, locks, names, scripts).  The other crates
  (chain, state, store, network, mempool, mining, wallet, RPC) keep the results and talk to the
  world.  This library models \<^verbatim>\<open>hns-primitives\<close> and \<^verbatim>\<open>hns-consensus\<close> except the claim and airdrop
  proofs.  Paths below are relative to \<^verbatim>\<open>src/crates\<close>.

  \<^bold>\<open>Conventions.\<close>
  \<^item> \<open>u8\<close> to \<open>u64\<close> are words, so arithmetic wraps where Rust's \<^verbatim>\<open>wrapping_\<close> functions
    do; checked and saturating operations are written out in \<open>Prelude\<close>.  \<^verbatim>\<open>i64\<close> is \<open>int\<close> with the range
    check \<open>i64_range\<close> where the source checks.  \<^verbatim>\<open>usize\<close> is \<open>nat\<close>, with \<open>usize_max\<close> where the source
    checks for overflow.
  \<^item> \<^verbatim>\<open>Result\<close> is a sum type with \<open>and_then\<close> for the \<open>?\<close> operator; every error of the source is a
    constructor.  In the verification of witness programs every operation that can panic (index,
    slice, \<^verbatim>\<open>Vec\<close> method, shift, plain arithmetic, \<^verbatim>\<open>unreachable!\<close>) returns the error value \<open>SePanic\<close>
    outside its range.  Elsewhere an index or an \<^verbatim>\<open>expect\<close> that the lines before it guard is the
    total operation under the same guard.
  \<^item> Every function is total; loops are structural recursions or functions with termination
    proofs, so the model has no fuel.
  \<^item> BLAKE2b, SHA-3, Keccak and the signature verification belong to other packages and are
    parameters.  Binding properties conclude with equality or a \<open>collision\<close> of the parameter, an
    explicit pair of distinct inputs with one digest.  Other hypotheses on parameters are the
    lengths of digests.  The table of SHA-256 round constants and the two included databases of
    reserved and locked names are parameters as well.

  \<^bold>\<open>Theories.\<close>
  \<^item> \<open>Prelude\<close>: words and their byte orders, results, folds with early exit, lists; collections of
    simplification rules.
  \<^item> \<open>Codec\<close> (\<^verbatim>\<open>hns-primitives/src/lib.rs\<close>, \<^verbatim>\<open>Reader\<close> and \<^verbatim>\<open>Writer\<close>): the locale \<open>codec\<close> states what a
    reader and a writer promise each other: reading what was written returns the value and the
    rest, and a successful read consumed exactly the writing of its value.  It is interpreted for
    every primitive here and for every structure in \<open>Wire\<close>, which gives canonical decoding.
  \<^item> \<open>Uint256\<close>, \<open>Compact_Target\<close> (same file): byte-wise arithmetic refines \<open>nat\<close>; the bit-serial division
    is \<open>2^256 div (t + 1)\<close>; work and targets are adjoint; compact bits decode to the number they
    denote and round trip.
  \<^item> \<open>Wire\<close> (same file: \<^verbatim>\<open>Header\<close>, \<^verbatim>\<open>Transaction\<close>, \<^verbatim>\<open>Block\<close>, \<^verbatim>\<open>Address\<close>, \<^verbatim>\<open>Covenant\<close>, \<^verbatim>\<open>Outpoint\<close>): decode
    succeeds exactly on encodings of well-formed values.
  \<^item> \<open>Hashing\<close>: header hashes, transaction ids, Merkle roots bind what they hash; sizes and weights.
  \<^item> \<open>Params\<close> (\<^verbatim>\<open>hns-consensus/src/lib.rs\<close>): the four networks, the subsidy schedule and its exact
    total, the difficulty rule with its bounds.
  \<^item> \<open>Deployment\<close> (\<^verbatim>\<open>hns-consensus/src/deployment.rs\<close>): threshold states, the incremental form equals the
    recursive one; block versions, checkpoints, the policy for historical blocks.
  \<^item> \<open>Resource\<close> (\<^verbatim>\<open>Resource\<close>): both decoders of DNS resources agree and are lossless; names that are
    read meet the limits of the DNS.
  \<^item> \<open>Names\<close>, \<open>Name_Rules\<close>, \<open>Name_Lookup\<close>, \<open>Name_Proofs\<close> (\<^verbatim>\<open>NameState\<close>, \<^verbatim>\<open>hns-consensus/src/name.rs\<close>): the
    lifecycle of a name and every covenant that changes it.  \<open>Name_Proofs\<close> follows a name through a
    sequence of covenants, an inductive relation, and shows its invariant, the allowed
    transitions and the second-price rule; \<open>Name_Lookup\<close> the database search and rollout.
  \<^item> \<open>Tx_Rules\<close>, \<open>Block_Rules\<close>, \<open>Covenant_Links\<close>, \<open>Locks\<close> (\<^verbatim>\<open>lib.rs\<close>, \<^verbatim>\<open>covenant.rs\<close>, \<^verbatim>\<open>locks.rs\<close>): the rules for
    transactions, headers and blocks, each characterised by what it accepts.
  \<^item> \<open>Sighash\<close>, \<open>Legacy_Hash\<close>, \<open>Script\<close>, \<open>Script_Machine\<close> (\<^verbatim>\<open>sighash.rs\<close>, \<^verbatim>\<open>legacy_hash.rs\<close>, \<^verbatim>\<open>script.rs\<close>):
    signature hashes and what they commit to, the script parser and numbers, every opcode, the
    execution loop and witness programs.  \<open>Script_Numbers\<close> shows that numbers have one encoding, that the
    parser loses nothing and that the scanner for signature operations agrees with it; \<open>Script_Safety\<close> that no
    script reaches the panic value and that the limits hold after every instruction; \<open>Script_Spends\<close> when
    exactly a public key hash is spent and a multisignature accepted.

  \<^bold>\<open>Not modelled.\<close>
  \<^item> \<^verbatim>\<open>claim.rs\<close>, \<^verbatim>\<open>airdrop.rs\<close>, \<^verbatim>\<open>gost94.rs\<close>, \<^verbatim>\<open>ownership.rs\<close>: proofs that rest on RSA, DNSSEC and Goosig
    code of other packages.
  \<^item> \<^verbatim>\<open>hns-store\<close>, \<^verbatim>\<open>hns-state\<close>, \<^verbatim>\<open>hns-chain\<close>, \<^verbatim>\<open>hns-urkel\<close>, \<^verbatim>\<open>hns-journaled-namespace\<close>, \<^verbatim>\<open>hns-wallet-index\<close>:
    persistent structures over RocksDB and segment files.
  \<^item> \<^verbatim>\<open>hns-p2p\<close>, \<^verbatim>\<open>hns-sync\<close>, \<^verbatim>\<open>hns-node\<close>, \<^verbatim>\<open>hns-rpc\<close>, \<^verbatim>\<open>hns-resolver\<close>, \<^verbatim>\<open>hns-mempool\<close>, \<^verbatim>\<open>hns-mining\<close>,
    \<^verbatim>\<open>hns-shakescape-market-relay\<close>: sockets, threads, timers, JSON and policy.
  \<^item> \<^verbatim>\<open>hns-secp256k1\<close>, \<^verbatim>\<open>hns-goosig\<close>: wrappers of C libraries.
  \<^item> Debug formatting, serde derivations and the text of hexadecimal output.
\<close>

end
